(* ===== verification/Zodiac_Prelude.thy ===== *)
theory Zodiac_Prelude
  imports Main "HOL-Library.Word" "HOL-Library.Finite_Map" "HOL-Library.List_Lexorder"
    "HOL-Library.Char_ord" "HOL-Library.Sublist"
begin

text \<open>
  What the components share: the Go values the program computes with and the generic lemmas
  about them.

  \<^item> Go's \<open>int64\<close> is a \<open>64 word\<close>: addition and multiplication wrap, comparison is signed
    (\<open><=s\<close>, \<open><s\<close>). Go's \<open>int\<close> (log indices, limits, node ids), which the program only
    compares and counts with, is \<open>int\<close>.
  \<^item> Go's \<open>string\<close> is a byte sequence, so \<open>string\<close>; \<open><\<close> on strings is bytewise lexicographic.
  \<^item> A Go map is a finite map \<open>fmap\<close>. The order in which \<open>range\<close> visits a map is not specified
    by the language; an order is a value of type \<open>map_order\<close> and everything that depends on it
    takes it as an argument.
  \<^item> A call that may panic or block on a lock or channel returns an \<open>outcome\<close>.
  \<^item> A \<open>time.Time\<close> is a number of nanoseconds; \<open>time.Now()\<close> is an argument.
\<close>

named_theorems op_defs "definitions of the operations of the components"

type_synonym int64 = "64 word"
type_synonym time = int

subsection \<open>int64 arithmetic\<close>

abbreviation maxInt64 :: int where
  "maxInt64 \<equiv> 2 ^ 63 - 1"

abbreviation minInt64 :: int where
  "minInt64 \<equiv> - (2 ^ 63)"

lemma sint64_bounds: "minInt64 \<le> sint (w :: int64)" "sint (w :: int64) \<le> maxInt64"
  using sint_range_size [of w] by (simp_all add: word_size)

lemma sint64_of_int: "minInt64 \<le> i \<Longrightarrow> i \<le> maxInt64 \<Longrightarrow> sint (word_of_int i :: int64) = i"
  by (simp add: signed_of_int signed_take_bit_int_eq_self)

lemma sint64_inc: "sint (w :: int64) < maxInt64 \<Longrightarrow> sint (w + 1) = sint w + 1"
proof -
  assume h: "sint w < maxInt64"
  have "w + 1 = word_of_int (sint w + 1)"
    by simp
  moreover have "minInt64 \<le> sint w + 1" "sint w + 1 \<le> maxInt64"
    using h sint64_bounds(1) [of w] by simp_all
  ultimately show ?thesis
    by (simp only: sint64_of_int)
qed

lemma sint64_inj: "sint (v :: int64) = sint w \<longleftrightarrow> v = w"
  by (metis signed_word_eqI)

subsection \<open>Strings\<close>

text \<open>\<open>strings.HasPrefix\<close> and \<open>strings.TrimPrefix\<close>.\<close>

definition HasPrefix :: "string \<Rightarrow> string \<Rightarrow> bool" where
  "HasPrefix s p \<longleftrightarrow> length p \<le> length s \<and> take (length p) s = p"

definition TrimPrefix :: "string \<Rightarrow> string \<Rightarrow> string" where
  "TrimPrefix s p = (if HasPrefix s p then drop (length p) s else s)"

lemma HasPrefix_iff_prefix: "HasPrefix s p \<longleftrightarrow> prefix p s"
proof
  assume "HasPrefix s p"
  then show "prefix p s"
    unfolding HasPrefix_def by (metis take_is_prefix)
next
  assume "prefix p s"
  then show "HasPrefix s p"
    by (auto simp: HasPrefix_def prefix_def)
qed

lemma HasPrefix_empty [simp]: "HasPrefix s []"
  by (simp add: HasPrefix_def)

lemma HasPrefix_append [simp]: "HasPrefix (p @ s) p"
  by (simp add: HasPrefix_def)

lemma TrimPrefix_append [simp]: "TrimPrefix (p @ s) p = s"
  by (simp add: TrimPrefix_def)

subsection \<open>Maps\<close>

text \<open>\<open>v, ok := m[k]\<close>: the value, or the zero value of the type, and whether the key is there.\<close>

definition lookup_ok :: "'v \<Rightarrow> ('k, 'v) fmap \<Rightarrow> 'k \<Rightarrow> 'v \<times> bool" where
  "lookup_ok zero m k = (case fmlookup m k of None \<Rightarrow> (zero, False) | Some v \<Rightarrow> (v, True))"

lemma lookup_ok_Some: "lookup_ok z m k = (v, True) \<longleftrightarrow> fmlookup m k = Some v"
  by (auto simp: lookup_ok_def split: option.splits)

lemma fst_lookup_ok: "fst (lookup_ok z m k) = (case fmlookup m k of None \<Rightarrow> z | Some v \<Rightarrow> v)"
  by (simp add: lookup_ok_def split: option.splits)

lemma snd_lookup_ok: "snd (lookup_ok z m k) \<longleftrightarrow> fmlookup m k \<noteq> None"
  by (simp add: lookup_ok_def split: option.splits)

text \<open>The library's congruence rule keeps \<open>simp\<close> from rewriting the map under a filter.\<close>

declare fmfilter_cong [cong del]

text \<open>An iteration order: for each finite set of keys, the order in which \<open>range\<close> visits them.\<close>

typedef 'a map_order =
  "{f :: 'a fset \<Rightarrow> 'a list. \<forall>S. set (f S) = fset S \<and> distinct (f S)}"
proof -
  have "\<forall>S :: 'a fset. \<exists>xs. set xs = fset S \<and> distinct xs"
    using finite_distinct_list finite_fset by blast
  then obtain f :: "'a fset \<Rightarrow> 'a list" where "\<forall>S. set (f S) = fset S \<and> distinct (f S)"
    by metis
  then show ?thesis by blast
qed

setup_lifting type_definition_map_order

lift_definition range_of :: "'a map_order \<Rightarrow> 'a fset \<Rightarrow> 'a list" is "\<lambda>f. f" .

lift_definition ascending :: "('a :: linorder) map_order" is sorted_list_of_fset
  by (simp add: sorted_list_of_fset.rep_eq)

lemma set_range_of [simp]: "set (range_of ro S) = fset S"
  by transfer simp

lemma distinct_range_of [simp]: "distinct (range_of ro S)"
  by transfer simp

lemma length_range_of [simp]: "length (range_of ro S) = fcard S"
  by (metis distinct_card distinct_range_of fcard.rep_eq set_range_of)

lemma range_of_empty [simp]: "range_of ro {||} = []"
  by (metis bot_fset.rep_eq set_empty set_range_of)

lemma range_of_ascending [simp]: "range_of ascending = sorted_list_of_fset"
  by transfer simp

text \<open>Deleting the keys of a list one after the other deletes the set of them.\<close>

lemma fold_fmdrop: "fold fmdrop ks m = fmdrop_set (set ks) m"
  by (induction ks arbitrary: m) simp_all

lemma fmdrop_fold_range [simp]: "fold fmdrop (range_of ro S) m = fmdrop_fset S m"
  by (simp add: fold_fmdrop fmfilter_alt_defs)

subsection \<open>Outcomes of calls\<close>

text \<open>
  A call returns a value, panics, or waits forever for a lock or a channel that nothing will
  release. Every outcome carries the state the call leaves behind.
\<close>

datatype ('s, 'a) outcome =
    Returns 's 'a
  | Panics 's string
  | Blocks 's

fun and_then :: "('s, 'a) outcome \<Rightarrow> ('s \<Rightarrow> 'a \<Rightarrow> ('s, 'b) outcome) \<Rightarrow> ('s, 'b) outcome" where
  "and_then (Returns s a) f = f s a"
| "and_then (Panics s msg) f = Panics s msg"
| "and_then (Blocks s) f = Blocks s"

fun outcome_state :: "('s, 'a) outcome \<Rightarrow> 's" where
  "outcome_state (Returns s a) = s"
| "outcome_state (Panics s msg) = s"
| "outcome_state (Blocks s) = s"

lemma and_then_Returns:
  "and_then x f = Returns t b \<longleftrightarrow> (\<exists>s a. x = Returns s a \<and> f s a = Returns t b)"
  by (cases x) auto

subsection \<open>Channels\<close>

text \<open>A buffered channel: what is queued, its capacity, and whether it has been closed.\<close>

record 'a gochan =
  buffered :: "'a list"
  capacity :: nat
  closed :: bool

definition make_chan :: "nat \<Rightarrow> 'a gochan" where
  "make_chan n = \<lparr>buffered = [], capacity = n, closed = False\<rparr>"

text \<open>\<open>select { case ch <- x: default: }\<close>: a send that drops the value when the buffer is full.\<close>

definition try_send :: "'a \<Rightarrow> 'a gochan \<Rightarrow> 'a gochan" where
  "try_send x c = (if length (buffered c) < capacity c then c\<lparr>buffered := buffered c @ [x]\<rparr> else c)"

text \<open>\<open>x, ok := <-ch\<close> when it does not wait: a queued value, or the closed channel's zero value.\<close>

datatype 'a received = Received 'a | ClosedChan | WouldWait

definition recv :: "'a gochan \<Rightarrow> 'a received \<times> 'a gochan" where
  "recv c = (case buffered c of
      x # xs \<Rightarrow> (Received x, c\<lparr>buffered := xs\<rparr>)
    | [] \<Rightarrow> (if closed c then ClosedChan else WouldWait, c))"

lemma try_send_bound: "length (buffered c) \<le> capacity c \<Longrightarrow>
    length (buffered (try_send x c)) \<le> capacity (try_send x c)"
  by (simp add: try_send_def)

lemma try_send_capacity [simp]: "capacity (try_send x c) = capacity c"
  by (simp add: try_send_def)

lemma try_send_closed [simp]: "closed (try_send x c) = closed c"
  by (simp add: try_send_def)

end
