(* ===== verification/Api.thy ===== *)
theory Api
  imports Zodiac_Prelude
begin

text \<open>
  The wire types of package \<open>api\<close>: one record per request and response, one datatype per
  enumeration. The enumerations are Go integers, so a value outside the declared constants can
  arrive in a request; the last constructor of each datatype stands for such a value.
\<close>

subsection \<open>Enumerations\<close>

datatype ResponseStatus =
    StatusInvalid
  | StatusOK
  | StatusNotLeader
  | StatusFailedCommit
  | StatusDuplicateRequest
  | StatusUnknown int

fun ResponseStatus_String :: "ResponseStatus \<Rightarrow> string" where
  "ResponseStatus_String StatusInvalid = ''invalid''"
| "ResponseStatus_String StatusOK = ''OK''"
| "ResponseStatus_String StatusNotLeader = ''NotLeader''"
| "ResponseStatus_String StatusFailedCommit = ''FailedCommit''"
| "ResponseStatus_String StatusDuplicateRequest = ''DuplicateRequest''"
| "ResponseStatus_String (StatusUnknown _) = ''''"

datatype WatchEventType = EventInvalid | EventPut | EventDelete

fun WatchEventName :: "WatchEventType \<Rightarrow> string" where
  "WatchEventName EventPut = ''put''"
| "WatchEventName EventDelete = ''delete''"
| "WatchEventName EventInvalid = ''''"

definition WatchEventTypeFromName :: "string \<Rightarrow> WatchEventType option" where
  "WatchEventTypeFromName n =
     (if n = ''put'' then Some EventPut else if n = ''delete'' then Some EventDelete else None)"

datatype CompareOp =
    CompareEQ
  | CompareNEQ
  | CompareGTE
  | CompareLTE
  | CompareExists
  | CompareNotExists
  | CompareUnknown int

datatype TxnOpType = TxnOpPut | TxnOpDelete | TxnOpCAS | TxnOpAppend | TxnOpUnknown int

subsection \<open>Key-value requests and responses\<close>

record PutRequest =
  Key :: string
  Value :: string
  ClientID :: int64
  RequestID :: int64
  LeaseID :: int64

record PutResponse =
  RespStatus :: ResponseStatus
  KeyFound :: bool
  PrevValue :: string
  Revision :: int64

record AppendRequest =
  Key :: string
  Value :: string
  ClientID :: int64
  RequestID :: int64

record AppendResponse =
  RespStatus :: ResponseStatus
  KeyFound :: bool
  PrevValue :: string
  Revision :: int64

record GetRequest =
  Key :: string
  ClientID :: int64
  RequestID :: int64

record GetResponse =
  RespStatus :: ResponseStatus
  KeyFound :: bool
  Value :: string
  Revision :: int64

record CASRequest =
  Key :: string
  CompareValue :: string
  Value :: string
  ClientID :: int64
  RequestID :: int64

record CASResponse =
  RespStatus :: ResponseStatus
  KeyFound :: bool
  PrevValue :: string
  Revision :: int64

record ListRequest =
  Prefix :: string
  Limit :: int
  KeyAfter :: string
  ClientID :: int64
  RequestID :: int64

record ListResponse =
  RespStatus :: ResponseStatus
  Pairs :: "(string, string) fmap"
  NextKey :: string
  Revision :: int64

subsection \<open>Cluster membership\<close>

record JoinRequest =
  ID :: int
  RaftAddr :: string
  HTTPAddr :: string

record JoinResponse =
  RespStatus :: ResponseStatus

record LeaveRequest =
  ID :: int

record LeaveResponse =
  RespStatus :: ResponseStatus

record PeerInfo =
  ID :: int
  HTTPAddr :: string

record StatusResponse =
  RespStatus :: ResponseStatus
  ID :: int
  IsLeader :: bool
  PeerCount :: int

record MembersResponse =
  RespStatus :: ResponseStatus
  Members :: "PeerInfo list"

subsection \<open>Watch events, transactions and leases\<close>

record WatchEvent =
  Key :: string
  Value :: string
  Revision :: int64
  Type :: WatchEventType

record TxnCondition =
  Key :: string
  Compare :: CompareOp
  Value :: string

record TxnOp =
  Op :: TxnOpType
  Key :: string
  Value :: string
  CompareValue :: string
  LeaseID :: int64

record TxnRequest =
  Conditions :: "TxnCondition list"
  Success :: "TxnOp list"
  Failure :: "TxnOp list"
  ClientID :: int64
  RequestID :: int64

record TxnOpResult =
  Key :: string
  PrevValue :: string
  KeyFound :: bool

record TxnResponse =
  RespStatus :: ResponseStatus
  Succeeded :: bool
  Results :: "TxnOpResult list"
  Revision :: int64

record LeaseGrantRequest =
  TTL :: int64
  ClientID :: int64
  RequestID :: int64

record LeaseGrantResponse =
  RespStatus :: ResponseStatus
  ID :: int64
  TTL :: int64

record LeaseKeepAliveRequest =
  ID :: int64
  ClientID :: int64
  RequestID :: int64

record LeaseKeepAliveResponse =
  RespStatus :: ResponseStatus
  ID :: int64

record LeaseRevokeRequest =
  ID :: int64
  ClientID :: int64
  RequestID :: int64

record LeaseRevokeResponse =
  RespStatus :: ResponseStatus

subsection \<open>The status of a response\<close>

text \<open>The methods \<open>Status\<close>, through which the client's loop looks at a response.\<close>

definition PutResponse_Status :: "PutResponse \<Rightarrow> ResponseStatus" where
  [simp]: "PutResponse_Status = PutResponse.RespStatus"

definition AppendResponse_Status :: "AppendResponse \<Rightarrow> ResponseStatus" where
  [simp]: "AppendResponse_Status = AppendResponse.RespStatus"

definition GetResponse_Status :: "GetResponse \<Rightarrow> ResponseStatus" where
  [simp]: "GetResponse_Status = GetResponse.RespStatus"

definition CASResponse_Status :: "CASResponse \<Rightarrow> ResponseStatus" where
  [simp]: "CASResponse_Status = CASResponse.RespStatus"

definition ListResponse_Status :: "ListResponse \<Rightarrow> ResponseStatus" where
  [simp]: "ListResponse_Status = ListResponse.RespStatus"

definition JoinResponse_Status :: "JoinResponse \<Rightarrow> ResponseStatus" where
  [simp]: "JoinResponse_Status = JoinResponse.RespStatus"

definition LeaveResponse_Status :: "LeaveResponse \<Rightarrow> ResponseStatus" where
  [simp]: "LeaveResponse_Status = LeaveResponse.RespStatus"

definition StatusResponse_Status :: "StatusResponse \<Rightarrow> ResponseStatus" where
  [simp]: "StatusResponse_Status = StatusResponse.RespStatus"

definition MembersResponse_Status :: "MembersResponse \<Rightarrow> ResponseStatus" where
  [simp]: "MembersResponse_Status = MembersResponse.RespStatus"

definition TxnResponse_Status :: "TxnResponse \<Rightarrow> ResponseStatus" where
  [simp]: "TxnResponse_Status = TxnResponse.RespStatus"

definition LeaseGrantResponse_Status :: "LeaseGrantResponse \<Rightarrow> ResponseStatus" where
  [simp]: "LeaseGrantResponse_Status = LeaseGrantResponse.RespStatus"

definition LeaseKeepAliveResponse_Status :: "LeaseKeepAliveResponse \<Rightarrow> ResponseStatus" where
  [simp]: "LeaseKeepAliveResponse_Status = LeaseKeepAliveResponse.RespStatus"

definition LeaseRevokeResponse_Status :: "LeaseRevokeResponse \<Rightarrow> ResponseStatus" where
  [simp]: "LeaseRevokeResponse_Status = LeaseRevokeResponse.RespStatus"

subsection \<open>Names of event types\<close>

lemma WatchEventTypeFromName_Name:
  "WatchEventTypeFromName (WatchEventName t) = Some t \<longleftrightarrow> t \<noteq> EventInvalid"
  by (cases t) (simp_all add: WatchEventTypeFromName_def)

end
