(* ===== verification/Strconv.thy ===== *)
theory Strconv
  imports Zodiac_Prelude
begin

text \<open>
  The two calls the program makes to package \<open>strconv\<close>: \<open>ParseInt(s, 10, 64)\<close>, used by transaction
  conditions, lease grants and the watch stream, and \<open>FormatInt(i, 10)\<close>, used to carry a lease id
  through a command's result. \<open>ParseInt\<close> returns the value together with the error, because
  callers that ignore the error still use the value.
\<close>

datatype num_error = ErrSyntax | ErrRange

definition is_digit :: "char \<Rightarrow> bool" where
  "is_digit c \<longleftrightarrow> 48 \<le> (of_char c :: nat) \<and> (of_char c :: nat) \<le> 57"

definition digit_value :: "char \<Rightarrow> int" where
  "digit_value c = int (of_char c) - 48"

definition digit_char :: "nat \<Rightarrow> char" where
  "digit_char d = char_of (d + 48)"

fun digits_value :: "int \<Rightarrow> string \<Rightarrow> int option" where
  "digits_value acc [] = Some acc"
| "digits_value acc (c # cs) =
     (if is_digit c then digits_value (10 * acc + digit_value c) cs else None)"

definition ParseUint :: "string \<Rightarrow> int option" where
  "ParseUint s = (if s = [] then None else digits_value 0 s)"

definition ParseInt :: "string \<Rightarrow> int64 \<times> num_error option" where
  "ParseInt s =
     (let neg = (s \<noteq> [] \<and> hd s = CHR ''-'');
          body = (if s \<noteq> [] \<and> (hd s = CHR ''+'' \<or> hd s = CHR ''-'') then tl s else s)
      in case ParseUint body of
           None \<Rightarrow> (0, Some ErrSyntax)
         | Some un \<Rightarrow>
             if \<not> neg \<and> un \<ge> 2 ^ 63 then (word_of_int maxInt64, Some ErrRange)
             else if neg \<and> un > 2 ^ 63 then (word_of_int minInt64, Some ErrRange)
             else (word_of_int (if neg then - un else un), None))"

fun format_nat :: "nat \<Rightarrow> string" where
  "format_nat n = (if n < 10 then [digit_char n] else format_nat (n div 10) @ [digit_char (n mod 10)])"

declare format_nat.simps [simp del]

definition FormatInt :: "int64 \<Rightarrow> string" where
  "FormatInt i =
     (if sint i < 0 then CHR ''-'' # format_nat (nat (- sint i)) else format_nat (nat (sint i)))"

subsection \<open>Reading back what was formatted\<close>

lemma of_digit_char: "d < 10 \<Longrightarrow> (of_char (digit_char d) :: nat) = d + 48"
  by (simp add: digit_char_def)

lemma is_digit_digit_char: "d < 10 \<Longrightarrow> is_digit (digit_char d)"
  by (simp add: is_digit_def of_digit_char)

lemma digit_value_digit_char: "d < 10 \<Longrightarrow> digit_value (digit_char d) = int d"
  by (simp add: digit_value_def of_digit_char)

lemma digits_value_append:
  "digits_value acc (xs @ ys) =
     (case digits_value acc xs of None \<Rightarrow> None | Some a \<Rightarrow> digits_value a ys)"
  by (induction xs arbitrary: acc) simp_all

lemma format_nat_nonempty [simp]: "format_nat n \<noteq> []"
  by (subst format_nat.simps) simp

lemma digits_value_format_nat: "digits_value 0 (format_nat n) = Some (int n)"
proof (induction n rule: format_nat.induct)
  case (1 n)
  show ?case
  proof (cases "n < 10")
    case True
    then show ?thesis
      by (simp add: format_nat.simps [of n] is_digit_digit_char digit_value_digit_char)
  next
    case False
    then have "digits_value 0 (format_nat (n div 10)) = Some (int (n div 10))"
      by (rule "1.IH")
    moreover have "10 * int (n div 10) + int (n mod 10) = int n"
      by presburger
    ultimately show ?thesis
      using False by (simp add: format_nat.simps [of n] digits_value_append is_digit_digit_char
          digit_value_digit_char)
  qed
qed

lemma ParseUint_format_nat: "ParseUint (format_nat n) = Some (int n)"
  by (simp add: ParseUint_def digits_value_format_nat)

lemma format_nat_digits: "c \<in> set (format_nat n) \<Longrightarrow> is_digit c"
proof (induction n rule: format_nat.induct)
  case (1 n)
  then show ?case
    by (cases "n < 10") (auto simp: format_nat.simps [of n] is_digit_digit_char)
qed

lemma hd_format_nat: "is_digit (hd (format_nat n))"
  by (rule format_nat_digits [OF hd_in_set]) simp

lemma hd_format_nat_unsigned: "hd (format_nat n) \<noteq> CHR ''+''" "hd (format_nat n) \<noteq> CHR ''-''"
  using hd_format_nat [of n] by (auto simp: is_digit_def)

lemma ParseInt_format_nat:
  "n < 2 ^ 63 \<Longrightarrow> ParseInt (format_nat n) = (word_of_int (int n), None)"
  by (simp add: ParseInt_def hd_format_nat_unsigned ParseUint_format_nat)

lemma ParseInt_minus_format_nat:
  "n \<le> 2 ^ 63 \<Longrightarrow> ParseInt (CHR ''-'' # format_nat n) = (word_of_int (- int n), None)"
  by (simp add: ParseInt_def ParseUint_format_nat)

lemma ParseInt_FormatInt_eq: "ParseInt (FormatInt i) = (i, None)"
proof (cases "sint i < 0")
  case True
  then have "nat (- sint i) \<le> 2 ^ 63" "- int (nat (- sint i)) = sint i"
    using sint64_bounds(1) [of i] by simp_all
  then show ?thesis
    using True by (simp add: FormatInt_def ParseInt_minus_format_nat)
next
  case False
  then have "nat (sint i) < 2 ^ 63" "int (nat (sint i)) = sint i"
    using sint64_bounds(2) [of i] by simp_all
  then show ?thesis
    using False by (simp add: FormatInt_def ParseInt_format_nat)
qed

end
