(* ===== verification/Store_Spec.thy ===== *)
theory Store_Spec
  imports Zodiac_Prelude
begin

text \<open>
  What the store promises to its callers, without the three maps that implement it: a key holds a
  value and is owned by at most one lease; a lease is live or not; revoking a lease removes
  exactly the keys it owns. The locale \<open>lease_store\<close> is the interface a caller relies on; the
  lemmas in it follow from the laws alone. Theory \<open>DataStore\<close> interprets it.
\<close>

record store_spec =
  entries :: "string \<Rightarrow> (string \<times> int64 option) option"
  live :: "int64 set"

definition spec_get :: "string \<Rightarrow> store_spec \<Rightarrow> string \<times> bool" where
  "spec_get k s = (case entries s k of None \<Rightarrow> ('''', False) | Some (v, _) \<Rightarrow> (v, True))"

definition spec_put :: "string \<Rightarrow> string \<Rightarrow> int64 \<Rightarrow> store_spec \<Rightarrow> store_spec" where
  "spec_put k v lid s =
     s\<lparr>entries := (entries s)(k \<mapsto> (v, if lid \<noteq> 0 \<and> lid \<in> live s then Some lid else None))\<rparr>"

definition spec_append :: "string \<Rightarrow> string \<Rightarrow> store_spec \<Rightarrow> store_spec" where
  "spec_append k v s =
     s\<lparr>entries := (entries s)(k \<mapsto> (case entries s k of None \<Rightarrow> (v, None) | Some (w, l) \<Rightarrow> (w @ v, l)))\<rparr>"

definition spec_cas :: "string \<Rightarrow> string \<Rightarrow> string \<Rightarrow> store_spec \<Rightarrow> store_spec" where
  "spec_cas k c v s =
     (case entries s k of
        None \<Rightarrow> s
      | Some (w, l) \<Rightarrow> if w = c then s\<lparr>entries := (entries s)(k \<mapsto> (v, l))\<rparr> else s)"

definition spec_delete :: "string \<Rightarrow> store_spec \<Rightarrow> store_spec" where
  "spec_delete k s = s\<lparr>entries := (entries s)(k := None)\<rparr>"

definition owned_by :: "int64 \<Rightarrow> store_spec \<Rightarrow> string set" where
  "owned_by lid s = {k. \<exists>v. entries s k = Some (v, Some lid)}"

definition spec_grant :: "int64 \<Rightarrow> store_spec \<Rightarrow> store_spec" where
  "spec_grant lid s = s\<lparr>live := insert lid (live s)\<rparr>"

definition spec_revoke :: "int64 \<Rightarrow> store_spec \<Rightarrow> store_spec" where
  "spec_revoke lid s =
     s\<lparr>entries := (\<lambda>k. if k \<in> owned_by lid s then None else entries s k), live := live s - {lid}\<rparr>"

lemmas spec_defs = spec_get_def spec_put_def spec_append_def spec_cas_def spec_delete_def
  spec_grant_def spec_revoke_def owned_by_def

locale lease_store =
  fixes abs :: "'s \<Rightarrow> store_spec"
    and inv :: "'s \<Rightarrow> bool"
    and get :: "string \<Rightarrow> 's \<Rightarrow> string \<times> bool"
    and put :: "string \<Rightarrow> string \<Rightarrow> int64 \<Rightarrow> 's \<Rightarrow> (string \<times> bool) \<times> 's"
    and app :: "string \<Rightarrow> string \<Rightarrow> 's \<Rightarrow> (string \<times> bool) \<times> 's"
    and cas :: "string \<Rightarrow> string \<Rightarrow> string \<Rightarrow> 's \<Rightarrow> (string \<times> bool) \<times> 's"
    and del :: "string \<Rightarrow> 's \<Rightarrow> (string \<times> bool) \<times> 's"
    and revoke :: "int64 \<Rightarrow> 's \<Rightarrow> string list \<times> 's"
  assumes get_spec: "inv s \<Longrightarrow> get k s = spec_get k (abs s)"
    and put_spec: "inv s \<Longrightarrow> put k v lid s = (r, t) \<Longrightarrow>
          r = spec_get k (abs s) \<and> abs t = spec_put k v lid (abs s) \<and> inv t"
    and app_spec: "inv s \<Longrightarrow> app k v s = (r, t) \<Longrightarrow>
          r = spec_get k (abs s) \<and> abs t = spec_append k v (abs s) \<and> inv t"
    and cas_spec: "inv s \<Longrightarrow> cas k c v s = (r, t) \<Longrightarrow>
          r = spec_get k (abs s) \<and> abs t = spec_cas k c v (abs s) \<and> inv t"
    and del_spec: "inv s \<Longrightarrow> del k s = (r, t) \<Longrightarrow>
          r = spec_get k (abs s) \<and> abs t = spec_delete k (abs s) \<and> inv t"
    and revoke_spec: "inv s \<Longrightarrow> revoke lid s = (ks, t) \<Longrightarrow>
          set ks = owned_by lid (abs s) \<and> distinct ks \<and> abs t = spec_revoke lid (abs s) \<and> inv t"
begin

lemma read_your_write:
  assumes "inv s" and "put k v lid s = (r, t)"
  shows "get k' t = (if k' = k then (v, True) else get k' s)"
  using put_spec [OF assms] assms(1) by (simp add: get_spec spec_defs)

lemma append_extends:
  assumes "inv s" and "app k v s = (r, t)"
  shows "get k t = (fst (get k s) @ v, True)"
  using app_spec [OF assms] assms(1) by (auto simp: get_spec spec_defs split: option.splits)

lemma cas_swaps_on_match:
  assumes "inv s" and "cas k c v s = (r, t)"
  shows "get k t = (if get k s = (c, True) then (v, True) else get k s)"
  using cas_spec [OF assms] assms(1) by (auto simp: get_spec spec_defs split: option.splits)

lemma delete_removes:
  assumes "inv s" and "del k s = (r, t)"
  shows "get k' t = (if k' = k then ('''', False) else get k' s)"
  using del_spec [OF assms] assms(1) by (simp add: get_spec spec_defs)

lemma revoke_exactly_owned:
  assumes "inv s" and "revoke lid s = (ks, t)"
  shows "get k t = (if k \<in> set ks then ('''', False) else get k s)"
  using revoke_spec [OF assms] assms(1) by (simp add: get_spec spec_defs)

lemma revoke_deletes_attached:
  assumes "inv s" and "lid \<noteq> 0" and "lid \<in> live (abs s)"
    and p: "put k v lid s = (r, t)" and q: "revoke lid t = (ks, u)"
  shows "k \<in> set ks \<and> get k u = ('''', False)"
proof -
  have t: "abs t = spec_put k v lid (abs s)" "inv t"
    using put_spec [OF assms(1) p] by simp_all
  then have "k \<in> owned_by lid (abs t)"
    using assms(2,3) by (simp add: spec_defs)
  then show ?thesis
    using revoke_spec [OF t(2) q] revoke_exactly_owned [OF t(2) q, of k] by simp
qed

lemma rewrite_without_lease_survives_revoke:
  assumes "inv s" and p: "put k v 0 s = (r, t)" and q: "revoke lid t = (ks, u)"
  shows "k \<notin> set ks \<and> get k u = (v, True)"
proof -
  have t: "abs t = spec_put k v 0 (abs s)" "inv t"
    using put_spec [OF assms(1) p] by simp_all
  then have "k \<notin> owned_by lid (abs t)"
    by (simp add: spec_defs)
  moreover have "get k t = (v, True)"
    using read_your_write [OF assms(1) p] by simp
  ultimately show ?thesis
    using revoke_spec [OF t(2) q] revoke_exactly_owned [OF t(2) q, of k] by simp
qed

end

end
