(* ===== verification/DataStore.thy ===== *)
theory DataStore
  imports Api Strconv Store_Spec
begin

text \<open>
  The in-memory store of package \<open>kvservice\<close> (\<open>datastore.go\<close>): the key-value map, the leases and
  the map from a key to the lease it is attached to. Every exported method of the Go type holds
  the store's mutex from its first to its last statement and calls only the unexported
  \<open>...Locked\<close> methods inside, so each is one atomic operation on the record below.

  The invariant \<open>ds_wf\<close> ties the three maps together; every operation keeps it. \<open>ds_abs\<close> reads the
  store as a map from keys to a value and the lease that owns the key, and each operation
  implements the corresponding operation on that map (theory \<open>Store_Spec\<close>).
\<close>

subsection \<open>State\<close>

record Lease =
  ID :: int64
  TTL :: int64
  ExpiresAt :: time
  Keys :: "string fset"

record DataStore =
  data :: "(string, string) fmap"
  leases :: "(int64, Lease) fmap"
  keyLease :: "(string, int64) fmap"
  leaseIDSeq :: int64

record leaseSnapshot =
  ID :: int64
  TTL :: int64
  ExpiresAt :: time
  Keys :: "string list"

definition NewDataStore :: DataStore where
  "NewDataStore = \<lparr>data = fmempty, leases = fmempty, keyLease = fmempty, leaseIDSeq = 0\<rparr>"

subsection \<open>Keys\<close>

definition Get :: "string \<Rightarrow> DataStore \<Rightarrow> string \<times> bool" where
  "Get key ds = lookup_ok '''' (data ds) key"

definition detachKeyFromLease :: "string \<Rightarrow> DataStore \<Rightarrow> DataStore" where
  "detachKeyFromLease key ds =
     (case fmlookup (keyLease ds) key of
        None \<Rightarrow> ds
      | Some oldLeaseID \<Rightarrow>
          (let ds = ds\<lparr>keyLease := fmdrop key (keyLease ds)\<rparr>
           in case fmlookup (leases ds) oldLeaseID of
                None \<Rightarrow> ds
              | Some l \<Rightarrow>
                  ds\<lparr>leases := fmupd oldLeaseID (l\<lparr>Lease.Keys := Lease.Keys l |-| {|key|}\<rparr>) (leases ds)\<rparr>))"

definition attachKeyToLease :: "string \<Rightarrow> int64 \<Rightarrow> DataStore \<Rightarrow> DataStore" where
  "attachKeyToLease key leaseID ds =
     (let ds = detachKeyFromLease key ds
      in case fmlookup (leases ds) leaseID of
           None \<Rightarrow> ds
         | Some l \<Rightarrow>
             ds\<lparr>leases := fmupd leaseID (l\<lparr>Lease.Keys := finsert key (Lease.Keys l)\<rparr>) (leases ds),
                keyLease := fmupd key leaseID (keyLease ds)\<rparr>)"

definition putLocked :: "string \<Rightarrow> string \<Rightarrow> int64 \<Rightarrow> DataStore \<Rightarrow> (string \<times> bool) \<times> DataStore" where
  "putLocked key val leaseID ds =
     (let ds = detachKeyFromLease key ds;
          r = lookup_ok '''' (data ds) key;
          ds = ds\<lparr>data := fmupd key val (data ds)\<rparr>;
          ds = (if leaseID \<noteq> 0 then attachKeyToLease key leaseID ds else ds)
      in (r, ds))"

definition appendLocked :: "string \<Rightarrow> string \<Rightarrow> DataStore \<Rightarrow> (string \<times> bool) \<times> DataStore" where
  "appendLocked key val ds =
     (let r = lookup_ok '''' (data ds) key
      in (r, ds\<lparr>data := fmupd key (fst r @ val) (data ds)\<rparr>))"

definition casLocked :: "string \<Rightarrow> string \<Rightarrow> string \<Rightarrow> DataStore \<Rightarrow> (string \<times> bool) \<times> DataStore" where
  "casLocked key cmp val ds =
     (let (prevValue, ok) = lookup_ok '''' (data ds) key
      in ((prevValue, ok),
          if ok \<and> prevValue = cmp then ds\<lparr>data := fmupd key val (data ds)\<rparr> else ds))"

definition deleteLocked :: "string \<Rightarrow> DataStore \<Rightarrow> (string \<times> bool) \<times> DataStore" where
  "deleteLocked key ds =
     (let ds = detachKeyFromLease key ds;
          r = lookup_ok '''' (data ds) key
      in (r, ds\<lparr>data := fmdrop key (data ds)\<rparr>))"

definition Put :: "string \<Rightarrow> string \<Rightarrow> int64 \<Rightarrow> DataStore \<Rightarrow> (string \<times> bool) \<times> DataStore" where
  "Put key val leaseID ds = putLocked key val leaseID ds"

definition Append :: "string \<Rightarrow> string \<Rightarrow> DataStore \<Rightarrow> (string \<times> bool) \<times> DataStore" where
  "Append key val ds = appendLocked key val ds"

definition CAS :: "string \<Rightarrow> string \<Rightarrow> string \<Rightarrow> DataStore \<Rightarrow> (string \<times> bool) \<times> DataStore" where
  "CAS key cmp val ds = casLocked key cmp val ds"

definition Delete :: "string \<Rightarrow> DataStore \<Rightarrow> (string \<times> bool) \<times> DataStore" where
  "Delete key ds = deleteLocked key ds"

subsection \<open>Listing\<close>

definition List :: "string map_order \<Rightarrow> string \<Rightarrow> DataStore \<Rightarrow> (string, string) fmap" where
  "List ro pre ds =
     fold (\<lambda>k result. if HasPrefix k pre then fmupd k (fst (lookup_ok '''' (data ds) k)) result else result)
       (range_of ro (fmdom (data ds))) fmempty"

fun page_loop :: "(string, string) fmap \<Rightarrow> int \<Rightarrow> int \<Rightarrow> string list \<Rightarrow> (string, string) fmap
    \<Rightarrow> (string, string) fmap \<times> string" where
  "page_loop m limit i [] result = (result, '''')"
| "page_loop m limit i (k # ks) result =
     (if limit > 0 \<and> i \<ge> limit then (result, k)
      else page_loop m limit (i + 1) ks (fmupd k (fst (lookup_ok '''' m k)) result))"

definition ListPaged :: "string map_order \<Rightarrow> string \<Rightarrow> int \<Rightarrow> string \<Rightarrow> DataStore
    \<Rightarrow> (string, string) fmap \<times> string" where
  "ListPaged ro pre limit keyAfter ds =
     (let keys = filter (\<lambda>k. HasPrefix k pre \<and> k \<ge> keyAfter) (range_of ro (fmdom (data ds)))
      in page_loop (data ds) limit 0 (sort keys) fmempty)"

definition CopyAll :: "DataStore \<Rightarrow> (string, string) fmap" where
  "CopyAll ds = data ds"

definition RestoreAll :: "(string, string) fmap \<Rightarrow> DataStore \<Rightarrow> DataStore" where
  "RestoreAll m ds = ds\<lparr>data := m\<rparr>"

subsection \<open>Leases\<close>

text \<open>\<open>time.Now().Add(time.Duration(ttl) * time.Second)\<close>: the product is an int64 and wraps.\<close>

definition lease_deadline :: "time \<Rightarrow> int64 \<Rightarrow> time" where
  "lease_deadline now ttl = now + sint (ttl * 1000000000)"

definition GrantLease :: "time \<Rightarrow> int64 \<Rightarrow> DataStore \<Rightarrow> int64 \<times> DataStore" where
  "GrantLease now ttl ds =
     (let lid = leaseIDSeq ds + 1
      in (lid, ds\<lparr>leaseIDSeq := lid,
                 leases := fmupd lid \<lparr>Lease.ID = lid, TTL = ttl, ExpiresAt = lease_deadline now ttl,
                                     Keys = {||}\<rparr> (leases ds)\<rparr>))"

definition KeepAliveLease :: "time \<Rightarrow> int64 \<Rightarrow> DataStore \<Rightarrow> bool \<times> DataStore" where
  "KeepAliveLease now lid ds =
     (case fmlookup (leases ds) lid of
        None \<Rightarrow> (False, ds)
      | Some l \<Rightarrow>
          (True, ds\<lparr>leases := fmupd lid (l\<lparr>Lease.ExpiresAt := lease_deadline now (Lease.TTL l)\<rparr>) (leases ds)\<rparr>))"

definition RevokeLease :: "string map_order \<Rightarrow> int64 \<Rightarrow> DataStore \<Rightarrow> string list \<times> DataStore" where
  "RevokeLease ro lid ds =
     (case fmlookup (leases ds) lid of
        None \<Rightarrow> ([], ds)
      | Some l \<Rightarrow>
          (let keys = range_of ro (Lease.Keys l)
           in (keys, ds\<lparr>leases := fmdrop lid (leases ds),
                        data := fold fmdrop keys (data ds),
                        keyLease := fold fmdrop keys (keyLease ds)\<rparr>)))"

definition CheckExpiredLeases :: "int64 map_order \<Rightarrow> time \<Rightarrow> DataStore \<Rightarrow> int64 list" where
  "CheckExpiredLeases ro now ds =
     filter (\<lambda>lid. case fmlookup (leases ds) lid of None \<Rightarrow> False | Some l \<Rightarrow> now > Lease.ExpiresAt l)
       (range_of ro (fmdom (leases ds)))"

definition LeaseCount :: "DataStore \<Rightarrow> nat" where
  "LeaseCount ds = fcard (fmdom (leases ds))"

definition GetLeaseSnapshot :: "string map_order \<Rightarrow> DataStore
    \<Rightarrow> (int64, leaseSnapshot) fmap \<times> (string, int64) fmap \<times> int64" where
  "GetLeaseSnapshot ro ds =
     (fmmap (\<lambda>l. \<lparr>leaseSnapshot.ID = Lease.ID l, TTL = Lease.TTL l, ExpiresAt = Lease.ExpiresAt l,
                  Keys = range_of ro (Lease.Keys l)\<rparr>) (leases ds),
      keyLease ds, leaseIDSeq ds)"

definition RestoreFromLeaseSnapshot :: "(int64, leaseSnapshot) fmap \<Rightarrow> (string, int64) fmap \<Rightarrow> int64
    \<Rightarrow> DataStore \<Rightarrow> DataStore" where
  "RestoreFromLeaseSnapshot ls kl nextID ds =
     ds\<lparr>leases := fmmap (\<lambda>s. \<lparr>Lease.ID = leaseSnapshot.ID s, TTL = leaseSnapshot.TTL s,
                              ExpiresAt = leaseSnapshot.ExpiresAt s,
                              Keys = fset_of_list (leaseSnapshot.Keys s)\<rparr>) ls,
        keyLease := kl, leaseIDSeq := nextID\<rparr>"

subsection \<open>Transactions\<close>

definition evalCondition :: "DataStore \<Rightarrow> TxnCondition \<Rightarrow> bool" where
  "evalCondition ds c =
     (let (v, ok) = lookup_ok '''' (data ds) (TxnCondition.Key c);
          cv = TxnCondition.Value c
      in case TxnCondition.Compare c of
           CompareEQ \<Rightarrow> ok \<and> v = cv
         | CompareNEQ \<Rightarrow> \<not> ok \<or> v \<noteq> cv
         | CompareGTE \<Rightarrow>
             (if \<not> ok then False
              else let (vi, errV) = ParseInt v; (ci, errC) = ParseInt cv
                   in if errV \<noteq> None \<or> errC \<noteq> None then v \<ge> cv else ci <=s vi)
         | CompareLTE \<Rightarrow>
             (if \<not> ok then False
              else let (vi, errV) = ParseInt v; (ci, errC) = ParseInt cv
                   in if errV \<noteq> None \<or> errC \<noteq> None then v \<le> cv else vi <=s ci)
         | CompareExists \<Rightarrow> ok
         | CompareNotExists \<Rightarrow> \<not> ok
         | CompareUnknown _ \<Rightarrow> False)"

fun conditions_met :: "DataStore \<Rightarrow> TxnCondition list \<Rightarrow> bool" where
  "conditions_met ds [] = True"
| "conditions_met ds (c # cs) = (if \<not> evalCondition ds c then False else conditions_met ds cs)"

definition txn_op :: "TxnOp \<Rightarrow> DataStore \<Rightarrow> TxnOpResult \<times> DataStore" where
  "txn_op op ds =
     (let ((prev, found), ds) =
        (case TxnOp.Op op of
           TxnOpPut \<Rightarrow> putLocked (TxnOp.Key op) (TxnOp.Value op) (TxnOp.LeaseID op) ds
         | TxnOpDelete \<Rightarrow> deleteLocked (TxnOp.Key op) ds
         | TxnOpCAS \<Rightarrow> casLocked (TxnOp.Key op) (TxnOp.CompareValue op) (TxnOp.Value op) ds
         | TxnOpAppend \<Rightarrow> appendLocked (TxnOp.Key op) (TxnOp.Value op) ds
         | TxnOpUnknown _ \<Rightarrow> (('''', False), ds))
      in (\<lparr>TxnOpResult.Key = TxnOp.Key op, PrevValue = prev, KeyFound = found\<rparr>, ds))"

fun txn_ops :: "TxnOp list \<Rightarrow> DataStore \<Rightarrow> TxnOpResult list \<times> DataStore" where
  "txn_ops [] ds = ([], ds)"
| "txn_ops (op # ops) ds =
     (let (r, ds1) = txn_op op ds; (rs, ds2) = txn_ops ops ds1 in (r # rs, ds2))"

definition Txn :: "TxnCondition list \<Rightarrow> TxnOp list \<Rightarrow> TxnOp list \<Rightarrow> DataStore
    \<Rightarrow> (bool \<times> TxnOpResult list) \<times> DataStore" where
  "Txn conds success failure ds =
     (let allMet = conditions_met ds conds;
          branch = (if allMet then success else failure);
          (results, ds') = txn_ops branch ds
      in ((allMet, results), ds'))"

lemmas [op_defs] = Put_def Append_def CAS_def Delete_def putLocked_def appendLocked_def casLocked_def
  deleteLocked_def detachKeyFromLease_def attachKeyToLease_def GrantLease_def KeepAliveLease_def
  RevokeLease_def

subsection \<open>Invariant\<close>

text \<open>
  A lease is stored under its own id, and ids run from 1 to the sequence number. A key is recorded
  under a lease exactly when that lease lists it, so no two leases list the same key. A key that
  is attached to a lease is in the map.
\<close>

definition ds_wf :: "DataStore \<Rightarrow> bool" where
  "ds_wf ds \<longleftrightarrow>
     (\<forall>i l. fmlookup (leases ds) i = Some l \<longrightarrow>
        Lease.ID l = i \<and> 0 < sint i \<and> sint i \<le> sint (leaseIDSeq ds)) \<and>
     (\<forall>k i. fmlookup (keyLease ds) k = Some i \<longleftrightarrow>
        (\<exists>l. fmlookup (leases ds) i = Some l \<and> k |\<in>| Lease.Keys l)) \<and>
     (\<forall>k i. fmlookup (keyLease ds) k = Some i \<longrightarrow> fmlookup (data ds) k \<noteq> None) \<and>
     0 \<le> sint (leaseIDSeq ds)"

lemma ds_wf_leaseD:
  "ds_wf ds \<Longrightarrow> fmlookup (leases ds) i = Some l \<Longrightarrow>
     Lease.ID l = i \<and> 0 < sint i \<and> sint i \<le> sint (leaseIDSeq ds)"
  by (auto simp: ds_wf_def)

lemma ds_wf_keyLease_iff:
  "ds_wf ds \<Longrightarrow> fmlookup (keyLease ds) k = Some i \<longleftrightarrow>
     (\<exists>l. fmlookup (leases ds) i = Some l \<and> k |\<in>| Lease.Keys l)"
  by (auto simp: ds_wf_def)

lemma ds_wf_attached_present:
  "ds_wf ds \<Longrightarrow> fmlookup (keyLease ds) k = Some i \<Longrightarrow> \<exists>v. fmlookup (data ds) k = Some v"
  unfolding ds_wf_def by (metis not_None_eq)

lemma ds_wfI:
  assumes "\<And>i l. fmlookup (leases ds) i = Some l \<Longrightarrow>
      Lease.ID l = i \<and> 0 < sint i \<and> sint i \<le> sint (leaseIDSeq ds)"
    and "\<And>k i. fmlookup (keyLease ds) k = Some i \<longleftrightarrow>
      (\<exists>l. fmlookup (leases ds) i = Some l \<and> k |\<in>| Lease.Keys l)"
    and "\<And>k i. fmlookup (keyLease ds) k = Some i \<Longrightarrow> \<exists>v. fmlookup (data ds) k = Some v"
    and "0 \<le> sint (leaseIDSeq ds)"
  shows "ds_wf ds"
  unfolding ds_wf_def
proof (intro conjI allI)
  fix k i
  show "fmlookup (keyLease ds) k = Some i \<longrightarrow> fmlookup (data ds) k \<noteq> None"
    using assms(3) [of k i] by auto
qed (use assms(1,2,4) in \<open>blast+\<close>)

lemma ds_wf_seq: "ds_wf ds \<Longrightarrow> 0 \<le> sint (leaseIDSeq ds)"
  by (simp add: ds_wf_def)

lemma ds_wf_new: "ds_wf NewDataStore"
  by (simp add: ds_wf_def NewDataStore_def)

text \<open>
  In a well-formed store only one lease lists a key, so detaching the key takes it out of every
  lease's list, and attaching it adds it to one.
\<close>

definition drop_key :: "string \<Rightarrow> Lease \<Rightarrow> Lease" where
  "drop_key k l = l\<lparr>Lease.Keys := Lease.Keys l |-| {|k|}\<rparr>"

lemma drop_key_simps [simp]:
  "Lease.ID (drop_key k l) = Lease.ID l" "Lease.TTL (drop_key k l) = Lease.TTL l"
  "Lease.ExpiresAt (drop_key k l) = Lease.ExpiresAt l"
  "Lease.Keys (drop_key k l) = Lease.Keys l |-| {|k|}"
  by (simp_all add: drop_key_def)

lemma drop_key_idle: "k |\<notin>| Lease.Keys l \<Longrightarrow> drop_key k l = l"
  by (simp add: drop_key_def fset_eq_iff)

lemma detach_wf:
  assumes wf: "ds_wf ds"
  shows "detachKeyFromLease k ds =
    ds\<lparr>keyLease := fmdrop k (keyLease ds), leases := fmmap (drop_key k) (leases ds)\<rparr>"
proof (cases "fmlookup (keyLease ds) k")
  case None
  then have "\<And>i l. fmlookup (leases ds) i = Some l \<Longrightarrow> k |\<notin>| Lease.Keys l"
    using ds_wf_keyLease_iff [OF wf] by (metis option.distinct(1))
  then have "fmmap (drop_key k) (leases ds) = leases ds"
    by (intro fmap_ext) (auto simp: drop_key_idle split: option.splits
      intro!: option.map_ident_strong)
  with None show ?thesis
    by (simp add: detachKeyFromLease_def fmdrop_idle fmdom_notI)
next
  case (Some i)
  then obtain l where l: "fmlookup (leases ds) i = Some l" "k |\<in>| Lease.Keys l"
    using ds_wf_keyLease_iff [OF wf] by blast
  have others: "j = i" if "fmlookup (leases ds) j = Some m" "k |\<in>| Lease.Keys m" for j m
    using that Some ds_wf_keyLease_iff [OF wf, of k j] by simp
  have "fmupd i (drop_key k l) (leases ds) = fmmap (drop_key k) (leases ds)"
  proof (rule fmap_ext)
    fix j
    show "fmlookup (fmupd i (drop_key k l) (leases ds)) j = fmlookup (fmmap (drop_key k) (leases ds)) j"
      using l others [of j] by (cases "fmlookup (leases ds) j") (auto intro: drop_key_idle [symmetric])
  qed
  with Some l show ?thesis
    by (simp add: detachKeyFromLease_def drop_key_def)
qed

lemma ds_wf_detach: "ds_wf ds \<Longrightarrow> ds_wf (detachKeyFromLease k ds)"
  unfolding detach_wf by (fastforce simp: ds_wf_def)

lemma detach_frame [simp]:
  "data (detachKeyFromLease k ds) = data ds" "leaseIDSeq (detachKeyFromLease k ds) = leaseIDSeq ds"
  "fmdom (leases (detachKeyFromLease k ds)) = fmdom (leases ds)"
  by (auto simp: detachKeyFromLease_def Let_def split: option.splits dest: fmdomI)

subsection \<open>The store as a map from keys to a value and an owner\<close>

definition ds_abs :: "DataStore \<Rightarrow> store_spec" where
  "ds_abs ds =
     \<lparr>entries = (\<lambda>k. map_option (\<lambda>v. (v, fmlookup (keyLease ds) k)) (fmlookup (data ds) k)),
      live = fset (fmdom (leases ds))\<rparr>"

lemma entries_ds_abs [simp]:
  "entries (ds_abs ds) k = map_option (\<lambda>v. (v, fmlookup (keyLease ds) k)) (fmlookup (data ds) k)"
  by (simp add: ds_abs_def)

lemma live_ds_abs [simp]: "live (ds_abs ds) = fset (fmdom (leases ds))"
  by (simp add: ds_abs_def)

lemma store_specI: "(\<And>k. entries s k = entries t k) \<Longrightarrow> live s = live t \<Longrightarrow> s = (t :: store_spec)"
  by (cases s, cases t) auto

lemma ds_get_spec: "lookup_ok '''' (data ds) k = spec_get k (ds_abs ds)"
  by (simp add: spec_get_def lookup_ok_def split: option.splits)

lemma ds_put_unleased:
  assumes "ds_wf ds" and "t = (detachKeyFromLease k ds)\<lparr>data := fmupd k v (data ds)\<rparr>"
  shows "ds_abs t = spec_put k v 0 (ds_abs ds)" and "ds_wf t" and "fmlookup (keyLease t) k = None"
proof -
  show "ds_wf t" "fmlookup (keyLease t) k = None"
    unfolding assms(2) detach_wf [OF assms(1)] using assms(1) by (fastforce simp: ds_wf_def)+
  show "ds_abs t = spec_put k v 0 (ds_abs ds)"
    unfolding assms(2) detach_wf [OF assms(1)]
    by (rule store_specI) (auto simp: spec_put_def ds_abs_def)
qed

lemma attach_detached:
  assumes "ds_wf ds" and "fmlookup (keyLease ds) k = None"
  shows "attachKeyToLease k i ds =
    (case fmlookup (leases ds) i of
       None \<Rightarrow> ds
     | Some l \<Rightarrow> ds\<lparr>leases := fmupd i (l\<lparr>Lease.Keys := finsert k (Lease.Keys l)\<rparr>) (leases ds),
                  keyLease := fmupd k i (keyLease ds)\<rparr>)"
  using assms(2) by (simp add: attachKeyToLease_def detachKeyFromLease_def)

lemma ds_attach:
  assumes wf: "ds_wf ds" and k: "fmlookup (keyLease ds) k = None" "fmlookup (data ds) k = Some v"
  shows "ds_abs (attachKeyToLease k i ds) =
      (ds_abs ds)\<lparr>entries := (entries (ds_abs ds))
         (k \<mapsto> (v, if i \<in> live (ds_abs ds) then Some i else None))\<rparr>" (is ?abs)
    and "ds_wf (attachKeyToLease k i ds)" (is ?wf)
proof -
  have unlisted: "k |\<notin>| Lease.Keys m" if "fmlookup (leases ds) j = Some m" for j m
    using that k(1) ds_wf_keyLease_iff [OF wf, of k j] by auto
  show ?wf
    using wf k unlisted unfolding attach_detached [OF wf k(1)]
    by (cases "fmlookup (leases ds) i") (auto simp: ds_wf_def)
  show ?abs
    unfolding attach_detached [OF wf k(1)] using k
    by (intro store_specI) (auto simp: ds_abs_def split: option.splits intro: fmdomI)
qed

lemma ds_put_spec:
  assumes "ds_wf ds" and "putLocked k v lid ds = (r, t)"
  shows "r = spec_get k (ds_abs ds) \<and> ds_abs t = spec_put k v lid (ds_abs ds) \<and> ds_wf t"
proof -
  let ?u = "(detachKeyFromLease k ds)\<lparr>data := fmupd k v (data ds)\<rparr>"
  have r: "r = spec_get k (ds_abs ds)"
    and t: "t = (if lid \<noteq> 0 then attachKeyToLease k lid ?u else ?u)"
    using assms(2) by (auto simp: putLocked_def Let_def ds_get_spec [symmetric] split: if_splits)
  note u = ds_put_unleased [OF assms(1) refl, of k v]
  have "live (ds_abs ?u) = live (ds_abs ds)"
    unfolding u(1) by (simp add: spec_put_def)
  then show ?thesis
    using r t u ds_attach [OF u(2,3), of v lid] by (auto simp: spec_put_def)
qed

lemma ds_append_spec:
  assumes "ds_wf ds" and "appendLocked k v ds = (r, t)"
  shows "r = spec_get k (ds_abs ds) \<and> ds_abs t = spec_append k v (ds_abs ds) \<and> ds_wf t"
proof -
  have r: "r = spec_get k (ds_abs ds)" and t: "t = ds\<lparr>data := fmupd k (fst r @ v) (data ds)\<rparr>"
    using assms(2) by (auto simp: appendLocked_def Let_def ds_get_spec)
  have "fmlookup (keyLease ds) k = None" if "fmlookup (data ds) k = None"
    using that assms(1) ds_wf_attached_present by fastforce
  then have "ds_abs t = spec_append k v (ds_abs ds)"
    unfolding t r by (intro store_specI) (auto simp: spec_append_def spec_get_def split: option.splits)
  moreover have "ds_wf t"
    using assms(1) unfolding t by (auto simp: ds_wf_def)
  ultimately show ?thesis using r by simp
qed

lemma ds_cas_spec:
  assumes "ds_wf ds" and "casLocked k c v ds = (r, t)"
  shows "r = spec_get k (ds_abs ds) \<and> ds_abs t = spec_cas k c v (ds_abs ds) \<and> ds_wf t"
proof -
  have r: "r = lookup_ok '''' (data ds) k"
    and t: "t = (if snd r \<and> fst r = c then ds\<lparr>data := fmupd k v (data ds)\<rparr> else ds)"
    using assms(2) by (cases "lookup_ok '''' (data ds) k"; auto simp: casLocked_def)+
  have "ds_wf t"
    using assms(1) unfolding t by (auto simp: ds_wf_def)
  moreover have "ds_abs t = spec_cas k c v (ds_abs ds)"
    unfolding t r
    by (intro store_specI) (auto simp: spec_cas_def lookup_ok_def split: option.splits)
  ultimately show ?thesis using r by (simp add: ds_get_spec)
qed

lemma ds_delete_spec:
  assumes "ds_wf ds" and "deleteLocked k ds = (r, t)"
  shows "r = spec_get k (ds_abs ds) \<and> ds_abs t = spec_delete k (ds_abs ds) \<and> ds_wf t"
proof -
  have r: "r = spec_get k (ds_abs ds)"
    and t: "t = (detachKeyFromLease k ds)\<lparr>data := fmdrop k (data ds)\<rparr>"
    using assms(2) by (auto simp: deleteLocked_def Let_def ds_get_spec [symmetric])
  have "ds_wf t"
    unfolding t detach_wf [OF assms(1)] using assms(1) by (fastforce simp: ds_wf_def)
  moreover have "ds_abs t = spec_delete k (ds_abs ds)"
    unfolding t detach_wf [OF assms(1)]
    by (rule store_specI) (auto simp: spec_delete_def ds_abs_def)
  ultimately show ?thesis using r by simp
qed

lemma ds_revoke_unknown: "fmlookup (leases ds) lid = None \<Longrightarrow> RevokeLease ro lid ds = ([], ds)"
  by (simp add: RevokeLease_def)

lemma ds_revoke_known:
  assumes "fmlookup (leases ds) lid = Some l"
  shows "RevokeLease ro lid ds =
    (range_of ro (Lease.Keys l),
     ds\<lparr>leases := fmdrop lid (leases ds), data := fmdrop_fset (Lease.Keys l) (data ds),
        keyLease := fmdrop_fset (Lease.Keys l) (keyLease ds)\<rparr>)"
  using assms by (simp add: RevokeLease_def)

lemma owned_by_ds_abs:
  assumes "ds_wf ds"
  shows "owned_by lid (ds_abs ds) =
    (case fmlookup (leases ds) lid of None \<Rightarrow> {} | Some l \<Rightarrow> fset (Lease.Keys l))"
  using ds_wf_keyLease_iff [OF assms] ds_wf_attached_present [OF assms]
  by (fastforce simp: owned_by_def split: option.splits)

lemma ds_revoke_spec:
  assumes wf: "ds_wf ds" and "RevokeLease ro lid ds = (ks, t)"
  shows "set ks = owned_by lid (ds_abs ds) \<and> distinct ks \<and>
    ds_abs t = spec_revoke lid (ds_abs ds) \<and> ds_wf t"
proof (cases "fmlookup (leases ds) lid")
  case None
  then have "ds_abs ds = spec_revoke lid (ds_abs ds)"
    by (intro store_specI) (auto simp: spec_revoke_def owned_by_ds_abs [OF wf] fmdom_notI)
  with None assms show ?thesis
    by (simp add: ds_revoke_unknown owned_by_ds_abs)
next
  case (Some l)
  have t: "ks = range_of ro (Lease.Keys l)"
    "t = ds\<lparr>leases := fmdrop lid (leases ds), data := fmdrop_fset (Lease.Keys l) (data ds),
            keyLease := fmdrop_fset (Lease.Keys l) (keyLease ds)\<rparr>"
    using assms(2) ds_revoke_known [OF Some] by auto
  have mine: "k |\<in>| Lease.Keys l \<longleftrightarrow> fmlookup (keyLease ds) k = Some lid" for k
    using Some ds_wf_keyLease_iff [OF wf, of k lid] by auto
  have "ds_abs t = spec_revoke lid (ds_abs ds)"
    unfolding t(2) by (intro store_specI) (auto simp: spec_revoke_def owned_by_ds_abs [OF wf] Some)
  moreover have "ds_wf t"
  proof (rule ds_wfI)
    fix k i
    show "fmlookup (keyLease t) k = Some i \<longleftrightarrow>
        (\<exists>m. fmlookup (leases t) i = Some m \<and> k |\<in>| Lease.Keys m)"
      using mine [of k] ds_wf_keyLease_iff [OF wf, of k i] unfolding t(2) by auto
  qed (use ds_wf_leaseD [OF wf] ds_wf_attached_present [OF wf] ds_wf_seq [OF wf] in
      \<open>auto simp: t(2) split: if_splits\<close>)
  ultimately show ?thesis
    using t(1) Some by (simp add: owned_by_ds_abs [OF wf])
qed

interpretation ds: lease_store ds_abs ds_wf Get Put Append CAS Delete "RevokeLease ro"
  for ro :: "string map_order"
proof (unfold_locales, unfold Get_def Put_def Append_def CAS_def Delete_def)
  show "lookup_ok '''' (data s) k = spec_get k (ds_abs s)" for s k
    by (rule ds_get_spec)
qed (assumption | rule ds_put_spec ds_append_spec ds_cas_spec ds_delete_spec ds_revoke_spec)+

subsection \<open>Granting and renewing leases\<close>

lemma ds_grant:
  assumes wf: "ds_wf ds" and room: "sint (leaseIDSeq ds) < maxInt64"
    and g: "GrantLease now ttl ds = (lid, t)"
  shows "sint lid = sint (leaseIDSeq ds) + 1" and "lid \<notin> live (ds_abs ds)" and "lid \<noteq> 0"
    and "ds_abs t = spec_grant lid (ds_abs ds)" and "ds_wf t"
proof -
  have t: "lid = leaseIDSeq ds + 1"
    "t = ds\<lparr>leaseIDSeq := lid, leases := fmupd lid \<lparr>Lease.ID = lid, TTL = ttl,
        ExpiresAt = lease_deadline now ttl, Keys = {||}\<rparr> (leases ds)\<rparr>"
    using g by (auto simp: GrantLease_def Let_def)
  show s: "sint lid = sint (leaseIDSeq ds) + 1"
    unfolding t(1) by (rule sint64_inc [OF room])
  have pos: "0 < sint lid"
    using s wf by (simp add: ds_wf_def)
  then show "lid \<noteq> 0" by auto
  have unused: "fmlookup (leases ds) lid = None"
    using s ds_wf_leaseD [OF wf, of lid] by (cases "fmlookup (leases ds) lid") auto
  then show "lid \<notin> live (ds_abs ds)" by (auto simp: fmdom_notI)
  show "ds_abs t = spec_grant lid (ds_abs ds)"
    unfolding t(2) by (intro store_specI) (auto simp: spec_grant_def ds_abs_def)
  have older: "i \<noteq> lid" "sint i \<le> sint lid" if "fmlookup (leases ds) i = Some l" for i l
    using that unused s ds_wf_leaseD [OF wf that] by auto
  show "ds_wf t"
    using wf pos unused older unfolding t(2) by (fastforce simp: ds_wf_def)
qed

lemma ds_keepalive:
  assumes "ds_wf ds" and "KeepAliveLease now lid ds = (ok, t)"
  shows "ok \<longleftrightarrow> lid \<in> live (ds_abs ds)" and "ds_abs t = ds_abs ds" and "ds_wf t"
proof -
  show "ok \<longleftrightarrow> lid \<in> live (ds_abs ds)"
    using assms(2) by (auto simp: KeepAliveLease_def fmlookup_dom_iff split: option.splits)
  show "ds_abs t = ds_abs ds"
    using assms(2) by (auto simp: KeepAliveLease_def ds_abs_def fmdomI split: option.splits)
  show "ds_wf t"
  proof (cases "fmlookup (leases ds) lid")
    case None
    with assms show ?thesis by (simp add: KeepAliveLease_def)
  next
    case (Some l)
    then have t: "t = ds\<lparr>leases :=
        fmupd lid (l\<lparr>Lease.ExpiresAt := lease_deadline now (Lease.TTL l)\<rparr>) (leases ds)\<rparr>"
      using assms(2) by (simp add: KeepAliveLease_def)
    show ?thesis
    proof (rule ds_wfI)
      fix k i
      show "fmlookup (keyLease t) k = Some i \<longleftrightarrow>
          (\<exists>m. fmlookup (leases t) i = Some m \<and> k |\<in>| Lease.Keys m)"
        using Some ds_wf_keyLease_iff [OF assms(1), of k i] unfolding t by auto
    qed (use Some ds_wf_leaseD [OF assms(1)] ds_wf_attached_present [OF assms(1)]
        ds_wf_seq [OF assms(1)] in \<open>auto simp: t split: if_splits\<close>)
  qed
qed

lemma lease_deadline_no_wrap:
  "0 \<le> sint ttl \<Longrightarrow> sint ttl * 1000000000 \<le> maxInt64 \<Longrightarrow>
     lease_deadline now ttl = now + sint ttl * 1000000000"
proof -
  assume h: "0 \<le> sint ttl" "sint ttl * 1000000000 \<le> maxInt64"
  have "ttl * 1000000000 = word_of_int (sint ttl * 1000000000)"
    by simp
  then have "sint (ttl * 1000000000) = sint ttl * 1000000000"
    using h by (simp only: sint64_of_int)
  then show ?thesis
    by (simp add: lease_deadline_def)
qed

lemma set_CheckExpiredLeases:
  "set (CheckExpiredLeases ro now ds) =
     {i. \<exists>l. fmlookup (leases ds) i = Some l \<and> Lease.ExpiresAt l < now}"
  by (auto simp: CheckExpiredLeases_def fmdomI split: option.splits)

subsection \<open>Transactions run the abstract operations in order\<close>

definition spec_txn_op :: "TxnOp \<Rightarrow> store_spec \<Rightarrow> store_spec" where
  "spec_txn_op op s =
     (case TxnOp.Op op of
        TxnOpPut \<Rightarrow> spec_put (TxnOp.Key op) (TxnOp.Value op) (TxnOp.LeaseID op) s
      | TxnOpDelete \<Rightarrow> spec_delete (TxnOp.Key op) s
      | TxnOpCAS \<Rightarrow> spec_cas (TxnOp.Key op) (TxnOp.CompareValue op) (TxnOp.Value op) s
      | TxnOpAppend \<Rightarrow> spec_append (TxnOp.Key op) (TxnOp.Value op) s
      | TxnOpUnknown _ \<Rightarrow> s)"

lemma ds_txn_op:
  assumes "ds_wf ds" and "txn_op op ds = (r, t)"
  shows "ds_abs t = spec_txn_op op (ds_abs ds)" and "ds_wf t" and "TxnOpResult.Key r = TxnOp.Key op"
    and "\<forall>n. TxnOp.Op op \<noteq> TxnOpUnknown n \<Longrightarrow>
      (TxnOpResult.PrevValue r, TxnOpResult.KeyFound r) = spec_get (TxnOp.Key op) (ds_abs ds)"
  using assms ds_put_spec [OF assms(1)] ds_append_spec [OF assms(1)] ds_cas_spec [OF assms(1)]
    ds_delete_spec [OF assms(1)]
  by (auto simp: txn_op_def spec_txn_op_def split: prod.splits TxnOpType.splits)

lemma ds_txn_ops:
  assumes "ds_wf ds" and "txn_ops ops ds = (rs, t)"
  shows "ds_abs t = fold spec_txn_op ops (ds_abs ds) \<and> ds_wf t \<and>
    map TxnOpResult.Key rs = map TxnOp.Key ops"
  using assms
proof (induction ops arbitrary: ds rs t)
  case Nil
  then show ?case by simp
next
  case (Cons op ops)
  obtain r u where u: "txn_op op ds = (r, u)" by (cases "txn_op op ds")
  obtain rs' v where v: "txn_ops ops u = (rs', v)" by (cases "txn_ops ops u")
  have "rs = r # rs'" "t = v"
    using Cons.prems(2) u v by auto
  then show ?case
    using Cons.IH [OF ds_txn_op(2) [OF Cons.prems(1) u] v] ds_txn_op(1,3) [OF Cons.prems(1) u]
    by simp
qed

lemma ds_wf_Txn: "ds_wf ds \<Longrightarrow> Txn cs su fa ds = (r, t) \<Longrightarrow> ds_wf t"
  using ds_txn_ops by (fastforce simp: Txn_def Let_def split: prod.splits if_splits)

lemma conditions_met_iff: "conditions_met ds cs \<longleftrightarrow> (\<forall>c \<in> set cs. evalCondition ds c)"
  by (induction cs) auto

subsection \<open>Listing\<close>

lemma fold_fmupd_lookup:
  "fmlookup (fold (\<lambda>k r. if P k then fmupd k (f k) r else r) ks m) x =
     (if x \<in> set ks \<and> P x then Some (f x) else fmlookup m x)"
  by (induction ks arbitrary: m) auto

lemma List_eq: "List ro pre ds = fmfilter (\<lambda>k. HasPrefix k pre) (data ds)"
  by (intro fmap_ext)
    (auto simp: List_def fold_fmupd_lookup lookup_ok_def split: option.splits
      dest: fmdom_notD intro: fmdomI)

definition page_keys :: "string \<Rightarrow> string \<Rightarrow> DataStore \<Rightarrow> string list" where
  "page_keys pre keyAfter ds =
     sorted_list_of_set {k. fmlookup (data ds) k \<noteq> None \<and> HasPrefix k pre \<and> keyAfter \<le> k}"

lemma finite_page_keys [simp]:
  "finite {k. fmlookup (data ds) k \<noteq> None \<and> HasPrefix k pre \<and> keyAfter \<le> k}"
  by (rule finite_subset [OF _ finite_fset [of "fmdom (data ds)"]]) (auto simp: fmlookup_dom_iff)

lemma set_page_keys [simp]:
  "set (page_keys pre a ds) = {k. fmlookup (data ds) k \<noteq> None \<and> HasPrefix k pre \<and> a \<le> k}"
  unfolding page_keys_def by (rule set_sorted_list_of_set) (rule finite_page_keys)

lemma sorted_page_keys [simp]: "sorted_wrt (<) (page_keys pre a ds)"
  unfolding page_keys_def by (rule strict_sorted_list_of_set)

lemma sort_range_filter:
  "sort (filter (\<lambda>k. HasPrefix k pre \<and> k \<ge> a) (range_of ro (fmdom (data ds)))) = page_keys pre a ds"
proof (rule sorted_distinct_set_unique)
  show "sorted (page_keys pre a ds)" "distinct (page_keys pre a ds)"
    by (simp_all add: page_keys_def)
  show "set (sort (filter (\<lambda>k. HasPrefix k pre \<and> k \<ge> a) (range_of ro (fmdom (data ds))))) =
      set (page_keys pre a ds)"
    by (auto simp: fmlookup_dom_iff)
qed simp_all

definition pick :: "string list \<Rightarrow> (string, string) fmap \<Rightarrow> (string, string) fmap" where
  "pick ks m = fmfilter (\<lambda>k. k \<in> set ks) m"

lemma page_loop_take:
  assumes "0 < limit" and "i \<le> limit" and "set ks \<subseteq> fset (fmdom m)"
  shows "page_loop m limit i ks r =
    (fold (\<lambda>k r. fmupd k (fst (lookup_ok '''' m k)) r) (take (nat (limit - i)) ks) r,
     if nat (limit - i) < length ks then ks ! nat (limit - i) else '''')"
  using assms(2,3)
proof (induction ks arbitrary: i r)
  case Nil
  then show ?case by simp
next
  case (Cons k ks)
  show ?case
  proof (cases "i = limit")
    case True
    then show ?thesis using assms(1) by simp
  next
    case False
    with Cons.prems have "nat (limit - i) = Suc (nat (limit - (i + 1)))"
      by simp
    with False Cons show ?thesis by simp
  qed
qed

lemma fold_pick:
  assumes "set ks \<subseteq> fset (fmdom m)"
  shows "fold (\<lambda>k r. fmupd k (fst (lookup_ok '''' m k)) r) ks fmempty = pick ks m"
proof (rule fmap_ext)
  fix x
  have "fmlookup (fold (\<lambda>k r. if True then fmupd k (fst (lookup_ok '''' m k)) r else r) ks fmempty) x
      = (if x \<in> set ks \<and> True then Some (fst (lookup_ok '''' m x)) else fmlookup fmempty x)"
    by (rule fold_fmupd_lookup)
  then show "fmlookup (fold (\<lambda>k r. fmupd k (fst (lookup_ok '''' m k)) r) ks fmempty) x =
      fmlookup (pick ks m) x"
    using assms by (auto simp: pick_def fst_lookup_ok split: option.splits dest!: subsetD fmdom_notI)
qed

lemma ListPaged_eq:
  assumes "0 < limit"
  shows "ListPaged ro pre limit a ds =
    (let ks = page_keys pre a ds; n = nat limit
     in (pick (take n ks) (data ds), if n < length ks then ks ! n else ''''))"
proof -
  have sub: "set (page_keys pre a ds) \<subseteq> fset (fmdom (data ds))"
    by (auto simp: fmlookup_dom_iff)
  then have "set (take (nat limit) (page_keys pre a ds)) \<subseteq> fset (fmdom (data ds))"
    using set_take_subset by fastforce
  with assms sub show ?thesis
    by (simp add: ListPaged_def Let_def sort_range_filter page_loop_take fold_pick)
qed

subsection \<open>Snapshots of the leases\<close>

lemma restore_lease_snapshot:
  "GetLeaseSnapshot ro ds = (ls, kl, n) \<Longrightarrow>
     RestoreFromLeaseSnapshot ls kl n (RestoreAll (CopyAll ds) ds') = ds"
proof -
  assume g: "GetLeaseSnapshot ro ds = (ls, kl, n)"
  have "fset_of_list (range_of ro S) = S" for S
    by (simp add: fset_eq_iff fset_of_list.rep_eq)
  then have "fmmap (\<lambda>s. \<lparr>Lease.ID = leaseSnapshot.ID s, TTL = leaseSnapshot.TTL s,
      ExpiresAt = leaseSnapshot.ExpiresAt s, Keys = fset_of_list (leaseSnapshot.Keys s)\<rparr>) ls = leases ds"
    using g by (intro fmap_ext) (auto simp: GetLeaseSnapshot_def option.map_comp o_def
      intro!: option.map_ident_strong)
  then show ?thesis
    using g by (simp add: RestoreFromLeaseSnapshot_def RestoreAll_def CopyAll_def GetLeaseSnapshot_def)
qed

end
