(* ===== verification/Paging.thy ===== *)
theory Paging
  imports DataStore
begin

text \<open>
  Cursor pagination: a caller that starts at the empty cursor and passes each \<open>NextKey\<close> back as
  \<open>KeyAfter\<close> until it is empty, on a store that does not change meanwhile. \<open>pages\<close> is that loop; its
  fuel is the number of requests the caller is willing to send.
\<close>

fun pages :: "nat \<Rightarrow> string map_order \<Rightarrow> string \<Rightarrow> int \<Rightarrow> string \<Rightarrow> DataStore
    \<Rightarrow> (string, string) fmap list option" where
  "pages 0 ro pre limit keyAfter ds = None"
| "pages (Suc n) ro pre limit keyAfter ds =
     (let (pairs, nextKey) = ListPaged ro pre limit keyAfter ds
      in if nextKey = '''' then Some [pairs]
         else map_option ((#) pairs) (pages n ro pre limit nextKey ds))"

lemma sorted_wrt_hd_less_nth:
  "sorted_wrt (<) xs \<Longrightarrow> 0 < n \<Longrightarrow> n < length xs \<Longrightarrow> xs ! 0 < xs ! (n :: nat)"
  by (simp add: sorted_wrt_nth_less)

lemma next_key_nonempty:
  assumes "0 < limit" and "nat limit < length (page_keys pre a ds)"
  shows "page_keys pre a ds ! nat limit \<noteq> ''''"
proof -
  have "page_keys pre a ds ! 0 < page_keys pre a ds ! nat limit"
    using assms by (intro sorted_wrt_hd_less_nth) simp_all
  then show ?thesis by auto
qed

lemma page_keys_from_cursor:
  assumes "n < length (page_keys pre a ds)"
  shows "page_keys pre (page_keys pre a ds ! n) ds = drop n (page_keys pre a ds)"
proof (rule sorted_distinct_set_unique)
  let ?ks = "page_keys pre a ds"
  show "set (page_keys pre (?ks ! n) ds) = set (drop n ?ks)"
  proof (intro subset_antisym subsetI)
    fix k
    assume k: "k \<in> set (page_keys pre (?ks ! n) ds)"
    have "a \<le> ?ks ! n"
      using nth_mem [OF assms] by simp
    with k have "k \<in> set ?ks" by auto
    then obtain j where j: "j < length ?ks" "k = ?ks ! j"
      by (auto simp only: in_set_conv_nth)
    have "n \<le> j"
    proof (rule ccontr)
      assume "\<not> n \<le> j"
      then have "?ks ! j < ?ks ! n"
        using assms by (intro sorted_wrt_nth_less [OF sorted_page_keys]) simp_all
      with k j show False by auto
    qed
    then show "k \<in> set (drop n ?ks)"
      using j by (auto simp: in_set_conv_nth intro!: exI [of _ "j - n"])
  next
    fix k
    assume k: "k \<in> set (drop n ?ks)"
    then obtain m where "m < length (drop n ?ks)" "k = drop n ?ks ! m"
      unfolding in_set_conv_nth by blast
    then obtain j where j: "n \<le> j" "j < length ?ks" "k = ?ks ! j"
      using assms by (intro that [of "n + m"]) auto
    have "?ks ! n \<le> k"
      using j sorted_wrt_nth_less [OF sorted_page_keys, of n j pre a ds] by (cases "n = j") auto
    moreover have "k \<in> set ?ks"
      using k by (rule in_set_dropD)
    ultimately show "k \<in> set (page_keys pre (?ks ! n) ds)" by auto
  qed
  show "sorted (page_keys pre (?ks ! n) ds)" "distinct (page_keys pre (?ks ! n) ds)"
    "sorted (drop n ?ks)" "distinct (drop n ?ks)"
    by (simp_all add: page_keys_def sorted_wrt_drop)
qed

lemma pick_append: "pick (xs @ ys) m = pick xs m ++\<^sub>f pick ys m"
  by (intro fmap_ext) (auto simp: pick_def)

lemma fcard_pick: "fcard (fmdom (pick ks m)) \<le> length ks"
proof -
  have "fmdom (pick ks m) |\<subseteq>| fset_of_list ks"
    by (auto simp: pick_def fset_of_list.rep_eq)
  then have "fcard (fmdom (pick ks m)) \<le> fcard (fset_of_list ks)"
    by (rule fcard_mono)
  also have "\<dots> \<le> length ks"
    by (simp add: fcard.rep_eq fset_of_list.rep_eq card_length)
  finally show ?thesis .
qed

lemma page_keys_all: "pick (page_keys pre a ds) (data ds) =
    fmfilter (\<lambda>k. HasPrefix k pre \<and> a \<le> k) (data ds)"
  by (intro fmap_ext) (auto simp: pick_def)

text \<open>The pages are consecutive chunks of the sorted keys.\<close>

fun chunks :: "nat \<Rightarrow> 'a list \<Rightarrow> 'a list list" where
  "chunks n [] = [[]]"
| "chunks n (x # xs) = (if n = 0 \<or> length (x # xs) \<le> n then [x # xs]
     else take n (x # xs) # chunks n (drop n (x # xs)))"

lemma chunks_cases: "0 < n \<Longrightarrow>
    chunks n xs = (if length xs \<le> n then [xs] else take n xs # chunks n (drop n xs))"
  by (cases xs) auto

lemma concat_chunks: "concat (chunks n xs) = xs"
proof (induction n xs rule: chunks.induct)
  case (2 n x xs)
  show ?case
  proof (cases "n = 0 \<or> length (x # xs) \<le> n")
    case True
    then show ?thesis by auto
  next
    case False
    then have "concat (chunks n (drop n (x # xs))) = drop n (x # xs)"
      by (rule "2.IH")
    with False show ?thesis
      by (metis append_take_drop_id chunks.simps(2) concat.simps(2))
  qed
qed simp

lemma length_in_chunks: "0 < n \<Longrightarrow> c \<in> set (chunks n xs) \<Longrightarrow> length c \<le> n"
  by (induction n xs rule: chunks.induct) (auto split: if_splits)

lemma pages_eq_chunks:
  assumes "0 < limit"
  shows "length (page_keys pre a ds) < n \<Longrightarrow> pages n ro pre limit a ds =
    Some (map (\<lambda>ks. pick ks (data ds)) (chunks (nat limit) (page_keys pre a ds)))"
proof (induction n arbitrary: a)
  case 0
  then show ?case by simp
next
  case (Suc n)
  let ?ks = "page_keys pre a ds" and ?l = "nat limit"
  have l: "0 < ?l" using assms by simp
  show ?case
  proof (cases "?l < length ?ks")
    case False
    with assms l show ?thesis
      by (simp add: ListPaged_eq Let_def chunks_cases)
  next
    case True
    have rest: "page_keys pre (?ks ! ?l) ds = drop ?l ?ks"
      by (rule page_keys_from_cursor [OF True])
    with Suc.prems l True have "length (page_keys pre (?ks ! ?l) ds) < n"
      by simp
    then have "pages n ro pre limit (?ks ! ?l) ds =
        Some (map (\<lambda>ks. pick ks (data ds)) (chunks ?l (drop ?l ?ks)))"
      unfolding rest [symmetric] by (rule Suc.IH)
    with True l assms show ?thesis
      using next_key_nonempty [OF assms True]
      by (simp add: ListPaged_eq Let_def chunks_cases [of ?l ?ks])
  qed
qed

lemma sorted_wrt_concat:
  "sorted_wrt R (concat xss) \<Longrightarrow> sorted_wrt (\<lambda>c d. \<forall>x\<in>set c. \<forall>y\<in>set d. R x y) xss"
  by (induction xss) (auto simp: sorted_wrt_append)

lemma foldr_pick_chunks: "foldr (++\<^sub>f) (map (\<lambda>ks. pick ks m) kss) fmempty = pick (concat kss) m"
proof (induction kss)
  case Nil
  show ?case by (intro fmap_ext) (simp add: pick_def)
next
  case (Cons ks kss)
  then show ?case by (simp add: pick_append)
qed

lemma fmdom_pick_subset: "k |\<in>| fmdom (pick ks m) \<Longrightarrow> k \<in> set ks"
  by (auto simp: pick_def)

lemma length_page_keys: "length (page_keys pre a ds) \<le> fcard (fmdom (data ds))"
proof -
  have "length (page_keys pre a ds) = card (set (page_keys pre a ds))"
    by (rule distinct_card [symmetric]) (simp add: page_keys_def)
  also have "\<dots> \<le> card (fset (fmdom (data ds)))"
    by (rule card_mono) (auto simp: fmlookup_dom_iff)
  finally show ?thesis by (simp add: fcard.rep_eq)
qed

subsection \<open>Properties\<close>

text \<open>
  C21: paging through a prefix terminates and loses nothing. With a positive limit, following
  \<open>NextKey\<close> from the empty cursor ends after at most one request more than there are keys; the
  pages together are what the unpaged \<open>List\<close> returns, no page exceeds the limit, and every key of
  a page precedes every key of a later page, so no key is returned twice.
\<close>

theorem paging_complete:
  assumes "0 < limit"
  shows "\<exists>ps. pages (Suc (fcard (fmdom (data ds)))) ro pre limit '''' ds = Some ps \<and>
    foldr (++\<^sub>f) ps fmempty = List ro pre ds \<and>
    (\<forall>p\<in>set ps. fcard (fmdom p) \<le> nat limit) \<and>
    sorted_wrt (\<lambda>p q. \<forall>k k'. k |\<in>| fmdom p \<longrightarrow> k' |\<in>| fmdom q \<longrightarrow> k < k') ps"
proof -
  let ?kss = "chunks (nat limit) (page_keys pre '''' ds)"
  let ?ps = "map (\<lambda>ks. pick ks (data ds)) ?kss"
  have "pages (Suc (fcard (fmdom (data ds)))) ro pre limit '''' ds = Some ?ps"
    using length_page_keys [of pre "''''" ds] by (intro pages_eq_chunks [OF assms]) simp
  moreover have "foldr (++\<^sub>f) ?ps fmempty = List ro pre ds"
    by (simp add: foldr_pick_chunks concat_chunks page_keys_all List_eq)
  moreover have "\<forall>p\<in>set ?ps. fcard (fmdom p) \<le> nat limit"
    using assms length_in_chunks [of "nat limit"] fcard_pick by (fastforce intro: order_trans)
  moreover have "sorted_wrt (\<lambda>p q. \<forall>k k'. k |\<in>| fmdom p \<longrightarrow> k' |\<in>| fmdom q \<longrightarrow> k < k') ?ps"
  proof -
    have "sorted_wrt (\<lambda>c d. \<forall>x\<in>set c. \<forall>y\<in>set d. x < y) ?kss"
      by (rule sorted_wrt_concat) (simp add: concat_chunks)
    then show ?thesis
      unfolding sorted_wrt_map by (rule sorted_wrt_mono_rel [rotated]) (auto dest: fmdom_pick_subset)
  qed
  ultimately show ?thesis by blast
qed

theorem paging_complete_witness:
  "\<exists>ps. pages 4 ascending ''a'' 2 ''''
       (NewDataStore\<lparr>data := fmap_of_list [(''ab'', ''1''), (''b'', ''2''), (''aa'', ''3'')]\<rparr>) = Some ps \<and>
     foldr (++\<^sub>f) ps fmempty = fmap_of_list [(''ab'', ''1''), (''aa'', ''3'')]"
proof -
  let ?ds = "NewDataStore\<lparr>data := fmap_of_list [(''ab'', ''1''), (''b'', ''2''), (''aa'', ''3'')]\<rparr>"
  have "fcard (fmdom (data ?ds)) = 3"
    by code_simp
  moreover have "List ascending ''a'' ?ds = fmap_of_list [(''ab'', ''1''), (''aa'', ''3'')]"
    by code_simp
  moreover have "(0 :: int) < 2" by simp
  ultimately show ?thesis
    using paging_complete [of 2 ?ds ascending "''a''"] by (auto simp: eval_nat_numeral)
qed

end
