(* ===== verification/Command.thy ===== *)
theory Command
  imports DataStore
begin

text \<open>
  The command of the replicated log (\<open>command.go\<close>) and what executing one does to the store: the
  \<open>switch\<close> of \<open>handleCommand\<close> in \<open>kvservice.go\<close>. A nil map and an empty map are the same here.
\<close>

datatype CommandKind =
    CommandInvalid
  | CommandGet
  | CommandPut
  | CommandAppend
  | CommandCAS
  | CommandList
  | CommandTxn
  | CommandLeaseGrant
  | CommandLeaseKeepAlive
  | CommandLeaseRevoke
  | CommandLeaseExpiry

fun CommandKind_String :: "CommandKind \<Rightarrow> string" where
  "CommandKind_String CommandInvalid = ''invalid''"
| "CommandKind_String CommandGet = ''get''"
| "CommandKind_String CommandPut = ''put''"
| "CommandKind_String CommandAppend = ''append''"
| "CommandKind_String CommandCAS = ''cas''"
| "CommandKind_String CommandList = ''list''"
| "CommandKind_String CommandTxn = ''txn''"
| "CommandKind_String CommandLeaseGrant = ''lease-grant''"
| "CommandKind_String CommandLeaseKeepAlive = ''lease-keepalive''"
| "CommandKind_String CommandLeaseRevoke = ''lease-revoke''"
| "CommandKind_String CommandLeaseExpiry = ''lease-expiry''"

record TxnData =
  Conditions :: "TxnCondition list"
  Success :: "TxnOp list"
  Failure :: "TxnOp list"

record TxnApplyResult =
  Succeeded :: bool
  Results :: "TxnOpResult list"

record Command =
  Kind :: CommandKind
  Key :: string
  Value :: string
  CompareValue :: string
  ResultValue :: string
  ResultFound :: bool
  ResultPairs :: "(string, string) fmap"
  Revision :: int64
  TxnField :: "TxnData option"
  TxnResult :: "TxnApplyResult option"
  LeaseID :: int64
  LeaseTTL :: int64
  LeaseIDs :: "int64 list"
  Limit :: int
  KeyAfter :: string
  ServiceID :: int
  ClientID :: int64
  RequestID :: int64
  IsDuplicate :: bool

text \<open>The composite literal \<open>Command{Kind: k}\<close>: every other field has its zero value.\<close>

definition zeroCommand :: "CommandKind \<Rightarrow> Command" where
  "zeroCommand k =
     \<lparr>Kind = k, Key = '''', Value = '''', CompareValue = '''', ResultValue = '''', ResultFound = False,
      ResultPairs = fmempty, Revision = 0, TxnField = None, TxnResult = None, LeaseID = 0, LeaseTTL = 0,
      LeaseIDs = [], Limit = 0, KeyAfter = '''', ServiceID = 0, ClientID = 0, RequestID = 0,
      IsDuplicate = False\<rparr>"

subsection \<open>Execution\<close>

definition exec_get :: "Command \<Rightarrow> DataStore \<Rightarrow> Command" where
  "exec_get cmd ds =
     (let (v, found) = Get (Command.Key cmd) ds in cmd\<lparr>ResultValue := v, ResultFound := found\<rparr>)"

definition exec_list :: "string map_order \<Rightarrow> Command \<Rightarrow> DataStore \<Rightarrow> Command" where
  "exec_list ro cmd ds =
     (if Command.Limit cmd > 0 then
        (let (pairs, next) =
           ListPaged ro (Command.Key cmd) (Command.Limit cmd) (Command.KeyAfter cmd) ds
         in cmd\<lparr>ResultPairs := pairs, ResultValue := next\<rparr>)
      else cmd\<lparr>ResultPairs := List ro (Command.Key cmd) ds\<rparr>)"

definition mark_deleted :: "string list \<Rightarrow> (string, string) fmap \<Rightarrow> (string, string) fmap" where
  "mark_deleted ks pairs = fold (\<lambda>k m. fmupd k '''' m) ks pairs"

fun expire_loop :: "string map_order \<Rightarrow> int64 list \<Rightarrow> (string, string) fmap \<Rightarrow> DataStore
    \<Rightarrow> (string, string) fmap \<times> DataStore" where
  "expire_loop ro [] pairs ds = (pairs, ds)"
| "expire_loop ro (lid # lids) pairs ds =
     (let (deletedKeys, ds') = RevokeLease ro lid ds
      in expire_loop ro lids (mark_deleted deletedKeys pairs) ds')"

definition with_result :: "Command \<Rightarrow> (string \<times> bool) \<times> DataStore \<Rightarrow> (DataStore, Command) outcome" where
  "with_result cmd x =
     (case x of ((v, found), ds) \<Rightarrow> Returns ds (cmd\<lparr>ResultValue := v, ResultFound := found\<rparr>))"

definition execute :: "string map_order \<Rightarrow> time \<Rightarrow> Command \<Rightarrow> DataStore \<Rightarrow> (DataStore, Command) outcome" where
  "execute ro now cmd ds =
     (case Kind cmd of
        CommandGet \<Rightarrow> Returns ds (exec_get cmd ds)
      | CommandPut \<Rightarrow> with_result cmd (Put (Command.Key cmd) (Command.Value cmd) (Command.LeaseID cmd) ds)
      | CommandAppend \<Rightarrow> with_result cmd (Append (Command.Key cmd) (Command.Value cmd) ds)
      | CommandCAS \<Rightarrow>
          with_result cmd (CAS (Command.Key cmd) (Command.CompareValue cmd) (Command.Value cmd) ds)
      | CommandTxn \<Rightarrow>
          (case TxnField cmd of
             None \<Rightarrow> Panics ds ''nil pointer dereference''
           | Some td \<Rightarrow>
               (let ((succeeded, results), ds') =
                  Txn (TxnData.Conditions td) (TxnData.Success td) (TxnData.Failure td) ds
                in Returns ds' (cmd\<lparr>TxnResult :=
                     Some \<lparr>TxnApplyResult.Succeeded = succeeded, Results = results\<rparr>\<rparr>)))
      | CommandList \<Rightarrow> Returns ds (exec_list ro cmd ds)
      | CommandLeaseGrant \<Rightarrow>
          (let (lid, ds') = GrantLease now (LeaseTTL cmd) ds
           in Returns ds' (cmd\<lparr>ResultValue := FormatInt lid\<rparr>))
      | CommandLeaseKeepAlive \<Rightarrow>
          (let (ok, ds') = KeepAliveLease now (Command.LeaseID cmd) ds
           in Returns ds' (cmd\<lparr>ResultFound := ok\<rparr>))
      | CommandLeaseRevoke \<Rightarrow>
          (let (deletedKeys, ds') = RevokeLease ro (Command.LeaseID cmd) ds
           in Returns ds' (cmd\<lparr>ResultPairs := mark_deleted deletedKeys fmempty\<rparr>))
      | CommandLeaseExpiry \<Rightarrow>
          (let (pairs, ds') = expire_loop ro (LeaseIDs cmd) (ResultPairs cmd) ds
           in Returns ds' (cmd\<lparr>ResultPairs := pairs\<rparr>))
      | CommandInvalid \<Rightarrow> Panics ds ''unexpected command'')"

text \<open>What a duplicate of an already applied request still computes: reads are answered again.\<close>

definition execute_duplicate :: "string map_order \<Rightarrow> Command \<Rightarrow> DataStore \<Rightarrow> Command" where
  "execute_duplicate ro cmd ds =
     (let cmd = (if Kind cmd = CommandGet then exec_get cmd ds
                 else if Kind cmd = CommandList then exec_list ro cmd ds
                 else cmd)
      in cmd\<lparr>IsDuplicate := True\<rparr>)"

text \<open>Kinds that move the revision.\<close>

definition is_write :: "CommandKind \<Rightarrow> bool" where
  "is_write k \<longleftrightarrow> k \<in> {CommandPut, CommandAppend, CommandCAS, CommandTxn, CommandLeaseRevoke, CommandLeaseExpiry}"

subsection \<open>What the service puts into the log\<close>

definition submitted :: "Command \<Rightarrow> bool" where
  "submitted cmd \<longleftrightarrow> Kind cmd \<noteq> CommandInvalid \<and> \<not> IsDuplicate cmd \<and>
     (Kind cmd = CommandTxn \<longrightarrow> TxnField cmd \<noteq> None)"

text \<open>The lease sequence number has not reached the largest int64.\<close>

definition lease_ids_left :: "DataStore \<Rightarrow> bool" where
  "lease_ids_left ds \<longleftrightarrow> sint (leaseIDSeq ds) < maxInt64"

lemma ds_wf_expire_loop:
  "ds_wf ds \<Longrightarrow> expire_loop ro lids pairs ds = (pairs', ds') \<Longrightarrow> ds_wf ds'"
proof (induction lids arbitrary: pairs ds)
  case (Cons lid lids)
  obtain ks t where r: "RevokeLease ro lid ds = (ks, t)" by (cases "RevokeLease ro lid ds")
  then have "ds_wf t"
    using ds_revoke_spec [OF Cons.prems(1)] by blast
  with r Cons.prems(2) show ?case
    using Cons.IH by simp
qed simp

lemma with_result_eq: "with_result cmd x =
    Returns (snd x) (cmd\<lparr>ResultValue := fst (fst x), ResultFound := snd (fst x)\<rparr>)"
  by (simp add: with_result_def split: prod.splits)

lemma execute_returns:
  assumes "submitted cmd"
  shows "\<exists>ds' cmd'. execute ro now cmd ds = Returns ds' cmd'"
  using assms by (cases "Kind cmd")
    (auto simp: submitted_def execute_def with_result_eq split: prod.splits)

lemma exec_get_frame [simp]:
  "Kind (exec_get cmd ds) = Kind cmd" "IsDuplicate (exec_get cmd ds) = IsDuplicate cmd"
  "TxnField (exec_get cmd ds) = TxnField cmd" "ServiceID (exec_get cmd ds) = ServiceID cmd"
  "Command.ClientID (exec_get cmd ds) = Command.ClientID cmd"
  "Command.RequestID (exec_get cmd ds) = Command.RequestID cmd"
  by (simp_all add: exec_get_def split: prod.splits)

lemma exec_list_frame [simp]:
  "Kind (exec_list ro cmd ds) = Kind cmd" "IsDuplicate (exec_list ro cmd ds) = IsDuplicate cmd"
  "TxnField (exec_list ro cmd ds) = TxnField cmd" "ServiceID (exec_list ro cmd ds) = ServiceID cmd"
  "Command.ClientID (exec_list ro cmd ds) = Command.ClientID cmd"
  "Command.RequestID (exec_list ro cmd ds) = Command.RequestID cmd"
  by (simp_all add: exec_list_def split: prod.splits)

lemma execute_frame:
  assumes "execute ro now cmd ds = Returns ds' cmd'"
  shows "Kind cmd' = Kind cmd \<and> IsDuplicate cmd' = IsDuplicate cmd \<and> TxnField cmd' = TxnField cmd \<and>
    ServiceID cmd' = ServiceID cmd \<and> Command.ClientID cmd' = Command.ClientID cmd \<and>
    Command.RequestID cmd' = Command.RequestID cmd"
  using assms by (cases "Kind cmd")
    (auto simp: execute_def with_result_eq split: prod.splits option.splits)

lemma execute_wf:
  assumes wf: "ds_wf ds" and room: "Kind cmd = CommandLeaseGrant \<Longrightarrow> lease_ids_left ds"
    and x: "execute ro now cmd ds = Returns ds' cmd'"
  shows "ds_wf ds'"
proof (cases "Kind cmd")
  case CommandTxn
  then obtain td where td: "TxnField cmd = Some td"
    using x by (auto simp: execute_def split: option.splits)
  obtain ok rs t where T: "Txn (TxnData.Conditions td) (TxnData.Success td) (TxnData.Failure td) ds
      = ((ok, rs), t)"
    by (metis surj_pair)
  with CommandTxn td x have "ds' = t"
    by (simp add: execute_def)
  with ds_wf_Txn [OF wf T] show ?thesis by simp
next
  case CommandLeaseGrant
  then obtain lid where "GrantLease now (LeaseTTL cmd) ds = (lid, ds')"
    using x by (auto simp: execute_def split: prod.splits)
  with CommandLeaseGrant room show ?thesis
    using ds_grant(5) [OF wf] by (simp add: lease_ids_left_def)
next
  case CommandLeaseKeepAlive
  then show ?thesis
    using x ds_keepalive(3) [OF wf] by (auto simp: execute_def split: prod.splits)
next
  case CommandLeaseRevoke
  then show ?thesis
    using x ds_revoke_spec [OF wf] by (auto simp: execute_def split: prod.splits)
next
  case CommandLeaseExpiry
  then show ?thesis
    using x ds_wf_expire_loop [OF wf] by (auto simp: execute_def split: prod.splits)
qed (use x wf ds.put_spec [OF wf, OF surjective_pairing] ds.app_spec [OF wf, OF surjective_pairing]
    ds.cas_spec [OF wf, OF surjective_pairing] in \<open>auto simp: execute_def with_result_eq\<close>)

lemma length_txn_ops: "txn_ops ops ds = (rs, t) \<Longrightarrow> length rs = length ops"
  by (induction ops arbitrary: ds rs t) (auto split: prod.splits)

lemma Txn_results:
  "Txn cs su fa ds = ((ok, rs), t) \<Longrightarrow> length rs = length (if ok then su else fa)"
  by (auto simp: Txn_def Let_def dest: length_txn_ops split: prod.splits if_splits)

end
