(* ===== verification/Watch.thy ===== *)
theory Watch
  imports Api Strconv
begin

text \<open>
  The watch subsystem of package \<open>kvservice\<close> (\<open>watch.go\<close>): the ring buffer of recent events, the
  subscriptions with their buffered channels, the delivery of an event and the opening of a
  watch stream. The fields of \<open>KVService\<close> the subsystem uses are the record \<open>watcher\<close>, which the
  service's record extends. The SSE text of the stream is in theory \<open>SSE\<close>.

  The locale \<open>bounded_log\<close> states what a caller may expect of an event buffer: it keeps the newest
  events, in order, up to its capacity. The ring buffer is an interpretation of it.
\<close>

subsection \<open>The ring buffer\<close>

definition eventBufferSize :: nat where
  "eventBufferSize = 1000"

record eventBuffer =
  events :: "WatchEvent list"
  start :: nat
  count :: nat
  bsize :: nat

definition newEventBuffer :: "nat \<Rightarrow> eventBuffer" where
  "newEventBuffer n = \<lparr>events = [], start = 0, count = 0, bsize = n\<rparr>"

definition Push :: "WatchEvent \<Rightarrow> eventBuffer \<Rightarrow> (eventBuffer, unit) outcome" where
  "Push e eb =
     (if count eb = bsize eb then
        (if start eb < length (events eb)
         then Returns (eb\<lparr>events := (events eb)[start eb := e],
                          start := (start eb + 1) mod bsize eb\<rparr>) ()
         else Panics eb ''index out of range'')
      else if bsize eb = 0 then Panics eb ''integer divide by zero''
      else
        (let idx = (start eb + count eb) mod bsize eb;
             eb = (if idx \<ge> length (events eb) then eb\<lparr>events := events eb @ [e]\<rparr>
                   else eb\<lparr>events := (events eb)[idx := e]\<rparr>)
         in Returns (eb\<lparr>count := count eb + 1\<rparr>) ()))"

fun replay_loop :: "eventBuffer \<Rightarrow> int64 \<Rightarrow> nat list \<Rightarrow> WatchEvent list
    \<Rightarrow> (eventBuffer, WatchEvent list) outcome" where
  "replay_loop eb since [] result = Returns eb result"
| "replay_loop eb since (i # is) result =
     (if bsize eb = 0 then Panics eb ''integer divide by zero''
      else let idx = (start eb + i) mod bsize eb
           in if idx < length (events eb)
              then replay_loop eb since is
                     (if since <s WatchEvent.Revision (events eb ! idx)
                      then result @ [events eb ! idx] else result)
              else Panics eb ''index out of range'')"

definition Replay :: "int64 \<Rightarrow> eventBuffer \<Rightarrow> (eventBuffer, WatchEvent list) outcome" where
  "Replay since eb = replay_loop eb since [0..<count eb] []"

subsection \<open>Subscriptions\<close>

record watchSub =
  sub_prefix :: string
  ch :: "WatchEvent gochan"

definition newWatchSub :: "string \<Rightarrow> nat \<Rightarrow> watchSub" where
  "newWatchSub pre bufsize = \<lparr>sub_prefix = pre, ch = make_chan bufsize\<rparr>"

record watcher =
  eventBuf :: eventBuffer
  watchSubs :: "(int64, watchSub) fmap"
  watchSeq :: int64

definition subscribeWatch :: "string \<Rightarrow> 'a watcher_scheme \<Rightarrow> int64 \<times> 'a watcher_scheme" where
  "subscribeWatch pre w =
     (let sid = watchSeq w + 1
      in (sid, w\<lparr>watchSeq := sid, watchSubs := fmupd sid (newWatchSub pre 64) (watchSubs w)\<rparr>))"

text \<open>
  \<open>unsubscribeWatch\<close> closes the channel and forgets the subscription under one lock, so no channel
  in \<open>watchSubs\<close> is closed; closing only matters to the handler that still holds the channel, and
  that handler is the one that unsubscribes.
\<close>

definition unsubscribeWatch :: "int64 \<Rightarrow> 'a watcher_scheme \<Rightarrow> 'a watcher_scheme" where
  "unsubscribeWatch sid w =
     (case fmlookup (watchSubs w) sid of
        None \<Rightarrow> w
      | Some sub \<Rightarrow> w\<lparr>watchSubs := fmdrop sid (watchSubs w)\<rparr>)"

definition getWatchChan :: "int64 \<Rightarrow> 'a watcher_scheme \<Rightarrow> WatchEvent gochan" where
  "getWatchChan sid w =
     (case fmlookup (watchSubs w) sid of
        Some sub \<Rightarrow> ch sub
      | None \<Rightarrow> (make_chan 0)\<lparr>closed := True\<rparr>)"

definition sub_matches :: "WatchEvent \<Rightarrow> watchSub \<Rightarrow> bool" where
  "sub_matches e sub \<longleftrightarrow> sub_prefix sub = '''' \<or> HasPrefix (WatchEvent.Key e) (sub_prefix sub)"

definition deliver :: "WatchEvent \<Rightarrow> watchSub \<Rightarrow> watchSub" where
  "deliver e sub = (if sub_matches e sub then sub\<lparr>ch := try_send e (ch sub)\<rparr> else sub)"

text \<open>
  The subscribers are independent of each other, so the order of the loop over them does not
  matter. A send on a closed channel panics.
\<close>

definition pushWatchEvent :: "WatchEvent \<Rightarrow> 'a watcher_scheme \<Rightarrow> ('a watcher_scheme, unit) outcome" where
  "pushWatchEvent e w =
     (case Push e (eventBuf w) of
        Panics eb msg \<Rightarrow> Panics (w\<lparr>eventBuf := eb\<rparr>) msg
      | Blocks eb \<Rightarrow> Blocks (w\<lparr>eventBuf := eb\<rparr>)
      | Returns eb _ \<Rightarrow>
          (let w = w\<lparr>eventBuf := eb\<rparr>
           in if fmpred (\<lambda>_ sub. sub_matches e sub \<longrightarrow> \<not> closed (ch sub)) (watchSubs w)
              then Returns (w\<lparr>watchSubs := fmmap (deliver e) (watchSubs w)\<rparr>) ()
              else Panics w ''send on closed channel''))"

fun pushWatchEvents :: "WatchEvent list \<Rightarrow> 'a watcher_scheme \<Rightarrow> ('a watcher_scheme, unit) outcome" where
  "pushWatchEvents [] w = Returns w ()"
| "pushWatchEvents (e # es) w = and_then (pushWatchEvent e w) (\<lambda>w _. pushWatchEvents es w)"

subsection \<open>The handler of \<open>GET /watch/\<close>\<close>

text \<open>
  Opening a stream: the two query parameters and the \<open>Last-Event-ID\<close> header (empty when absent),
  whether the response writer can flush, and then either an HTTP error or a subscription and the
  replayed events. The stream then forwards what arrives on the channel (\<open>handleWatch_next\<close>)
  until the request is cancelled (\<open>handleWatch_close\<close>).
\<close>

datatype watch_opened =
    WatchError int string
  | WatchStream int64 "WatchEvent list"

definition watch_since :: "string \<Rightarrow> string \<Rightarrow> int64 option" where
  "watch_since sinceParam lastEventID =
     (let sinceStr =
        (if lastEventID \<noteq> '''' \<and> (case ParseInt lastEventID of (r, err) \<Rightarrow> err = None \<and> 0 <s r)
         then lastEventID else sinceParam)
      in if sinceStr \<noteq> '''' then
           (case ParseInt sinceStr of (n, err) \<Rightarrow> if err \<noteq> None then None else Some n)
         else Some 0)"

definition handleWatch_open :: "string \<Rightarrow> string \<Rightarrow> string \<Rightarrow> bool \<Rightarrow> 'a watcher_scheme
    \<Rightarrow> ('a watcher_scheme, watch_opened) outcome" where
  "handleWatch_open pre sinceParam lastEventID canFlush w =
     (case watch_since sinceParam lastEventID of
        None \<Rightarrow> Returns w (WatchError 400 ''invalid since parameter'')
      | Some since \<Rightarrow>
          if \<not> canFlush then Returns w (WatchError 500 ''streaming not supported'')
          else
            (let (subID, w) = subscribeWatch pre w
             in case Replay since (eventBuf w) of
                  Returns eb evs \<Rightarrow> Returns w (WatchStream subID evs)
                | Panics eb msg \<Rightarrow> Panics (unsubscribeWatch subID w) msg
                | Blocks eb \<Rightarrow> Blocks w))"

definition handleWatch_next :: "int64 \<Rightarrow> 'a watcher_scheme \<Rightarrow> WatchEvent received \<times> 'a watcher_scheme" where
  "handleWatch_next subID w =
     (case fmlookup (watchSubs w) subID of
        None \<Rightarrow> (ClosedChan, w)
      | Some sub \<Rightarrow>
          (case recv (ch sub) of
             (r, c) \<Rightarrow> (r, w\<lparr>watchSubs := fmupd subID (sub\<lparr>ch := c\<rparr>) (watchSubs w)\<rparr>)))"

definition handleWatch_close :: "int64 \<Rightarrow> 'a watcher_scheme \<Rightarrow> 'a watcher_scheme" where
  "handleWatch_close subID w = unsubscribeWatch subID w"

subsection \<open>A bounded log\<close>

locale bounded_log =
  fixes cap :: "'b \<Rightarrow> nat"
    and contents :: "'b \<Rightarrow> 'e list"
    and inv :: "'b \<Rightarrow> bool"
    and push :: "'e \<Rightarrow> 'b \<Rightarrow> 'b"
  assumes inv_push: "inv b \<Longrightarrow> inv (push e b)"
    and cap_push: "inv b \<Longrightarrow> cap (push e b) = cap b"
    and contents_push: "inv b \<Longrightarrow>
      contents (push e b) = drop (length (contents b) + 1 - cap b) (contents b @ [e])"
    and contents_bound: "inv b \<Longrightarrow> length (contents b) \<le> cap b"
begin

lemma inv_pushes: "inv b \<Longrightarrow> inv (fold push es b)"
  by (induction es arbitrary: b) (simp_all add: inv_push)

lemma cap_pushes: "inv b \<Longrightarrow> cap (fold push es b) = cap b"
  by (induction es arbitrary: b) (simp_all add: inv_push cap_push)

lemma newest_kept:
  "inv b \<Longrightarrow> contents (fold push es b) =
     drop (length (contents b) + length es - cap b) (contents b @ es)"
proof (induction es rule: rev_induct)
  case Nil
  then show ?case by (simp add: contents_bound)
next
  case (snoc e es)
  let ?b = "fold push es b" and ?c = "contents b @ es"
  have c: "contents ?b = drop (length ?c - cap b) ?c"
    using snoc by simp
  have "contents (fold push (es @ [e]) b) = drop (length (contents ?b) + 1 - cap b) (contents ?b @ [e])"
    using snoc.prems by (simp add: contents_push inv_pushes cap_pushes)
  also have "contents ?b @ [e] = drop (length ?c - cap b) (?c @ [e])"
    unfolding c by simp
  also have "drop (length (contents ?b) + 1 - cap b) (drop (length ?c - cap b) (?c @ [e])) =
      drop (length ?c + 1 - cap b) (?c @ [e])"
    unfolding c length_drop drop_drop by (rule arg_cong [where f = "\<lambda>n. drop n _"]) arith
  finally show ?case by simp
qed

end

subsection \<open>The ring buffer is a bounded log\<close>

text \<open>
  Until the buffer is full, the oldest event is at index 0 and the slice holds exactly the
  events pushed; once full, the slice has its final length and \<open>start\<close> walks around it.
\<close>

definition eb_wf :: "eventBuffer \<Rightarrow> bool" where
  "eb_wf eb \<longleftrightarrow> 0 < bsize eb \<and> start eb < bsize eb \<and> count eb \<le> bsize eb \<and>
     length (events eb) = count eb \<and> (count eb < bsize eb \<longrightarrow> start eb = 0)"

definition eb_list :: "eventBuffer \<Rightarrow> WatchEvent list" where
  "eb_list eb = rotate (start eb) (events eb)"

definition eb_push :: "WatchEvent \<Rightarrow> eventBuffer \<Rightarrow> eventBuffer" where
  "eb_push e eb = outcome_state (Push e eb)"

lemma eb_wf_new: "0 < n \<Longrightarrow> eb_wf (newEventBuffer n)"
  by (simp add: eb_wf_def newEventBuffer_def)

lemma eb_list_new [simp]: "eb_list (newEventBuffer n) = []"
  by (simp add: eb_list_def newEventBuffer_def)

lemma length_eb_list [simp]: "length (eb_list eb) = length (events eb)"
  by (simp add: eb_list_def)

lemma nth_eb_list:
  assumes "eb_wf eb" and "i < count eb"
  shows "(start eb + i) mod bsize eb < length (events eb)"
    and "eb_list eb ! i = events eb ! ((start eb + i) mod bsize eb)"
proof -
  have m: "(start eb + i) mod bsize eb = (start eb + i) mod length (events eb)"
    using assms by (cases "count eb < bsize eb") (auto simp: eb_wf_def)
  show "(start eb + i) mod bsize eb < length (events eb)"
    unfolding m using assms by (simp add: eb_wf_def)
  show "eb_list eb ! i = events eb ! ((start eb + i) mod bsize eb)"
    unfolding m eb_list_def using assms by (simp add: nth_rotate eb_wf_def add.commute)
qed

lemma rotate_overwrite:
  assumes "s < length xs"
  shows "rotate (Suc s mod length xs) (xs[s := e]) = tl (rotate s xs) @ [e]"
proof -
  have "rotate (Suc s mod length xs) (xs[s := e]) = rotate1 (rotate s (xs[s := e]))"
    by (metis length_list_update rotate_Suc rotate_conv_mod)
  also have "rotate s (xs[s := e]) = e # drop (Suc s) xs @ take s xs"
    using assms by (simp add: rotate_drop_take Cons_nth_drop_Suc [symmetric])
  also have "tl (rotate s xs) = drop (Suc s) xs @ take s xs"
    using assms by (simp add: rotate_drop_take Cons_nth_drop_Suc [symmetric])
  ultimately show ?thesis by simp
qed

lemma Push_full:
  assumes "eb_wf eb" and "count eb = bsize eb"
  shows "Push e eb = Returns (eb\<lparr>events := (events eb)[start eb := e],
      start := Suc (start eb) mod bsize eb\<rparr>) ()"
  using assms by (simp add: Push_def eb_wf_def)

lemma Push_room:
  assumes "eb_wf eb" and "count eb < bsize eb"
  shows "Push e eb = Returns (eb\<lparr>events := events eb @ [e], count := Suc (count eb)\<rparr>) ()"
  using assms by (simp add: Push_def eb_wf_def Let_def)

lemma Push_returns:
  assumes "eb_wf eb"
  shows "Push e eb = Returns (eb_push e eb) ()"
  using assms Push_full [OF assms] Push_room [OF assms]
  by (cases "count eb = bsize eb") (auto simp: eb_push_def eb_wf_def)

lemma eb_push_wf:
  assumes "eb_wf eb"
  shows "eb_wf (eb_push e eb)" and "bsize (eb_push e eb) = bsize eb"
    and "eb_list (eb_push e eb) = drop (length (eb_list eb) + 1 - bsize eb) (eb_list eb @ [e])"
proof -
  have "eb_wf (eb_push e eb) \<and> bsize (eb_push e eb) = bsize eb \<and>
      eb_list (eb_push e eb) = drop (length (eb_list eb) + 1 - bsize eb) (eb_list eb @ [e])"
  proof (cases "count eb = bsize eb")
    case True
    have ne: "eb_list eb \<noteq> []" "start eb < length (events eb)" "length (events eb) = bsize eb"
      using assms True by (auto simp: eb_wf_def eb_list_def)
    have "eb_list (eb_push e eb) = tl (eb_list eb) @ [e]"
      using rotate_overwrite [OF ne(2), of e] ne(3)
      by (simp add: eb_push_def Push_full [OF assms True] eb_list_def)
    also have "\<dots> = drop (length (eb_list eb) + 1 - bsize eb) (eb_list eb @ [e])"
      using ne assms by (simp add: drop_Suc eb_wf_def)
    finally show ?thesis
      using assms True by (simp add: eb_push_def Push_full [OF assms True] eb_wf_def)
  next
    case False
    then have room: "count eb < bsize eb"
      using assms by (simp add: eb_wf_def)
    then show ?thesis
      using assms by (simp add: eb_push_def Push_room [OF assms room] eb_wf_def eb_list_def)
  qed
  then show "eb_wf (eb_push e eb)" "bsize (eb_push e eb) = bsize eb"
    "eb_list (eb_push e eb) = drop (length (eb_list eb) + 1 - bsize eb) (eb_list eb @ [e])"
    by simp_all
qed

interpretation ring: bounded_log bsize eb_list eb_wf eb_push
proof unfold_locales
  fix b e
  assume wf: "eb_wf b"
  show "eb_wf (eb_push e b)" "bsize (eb_push e b) = bsize b"
    "eb_list (eb_push e b) = drop (length (eb_list b) + 1 - bsize b) (eb_list b @ [e])"
    by (rule eb_push_wf [OF wf])+
  show "length (eb_list b) \<le> bsize b"
    using wf by (simp add: eb_wf_def)
qed

lemma replay_loop_eq:
  assumes wf: "eb_wf eb"
  shows "set is \<subseteq> {..<count eb} \<Longrightarrow> replay_loop eb since is acc =
    Returns eb (acc @ filter (\<lambda>e. since <s WatchEvent.Revision e) (map (\<lambda>i. eb_list eb ! i) is))"
proof (induction "is" arbitrary: acc)
  case Nil
  then show ?case by simp
next
  case (Cons i "is")
  then have "i < count eb" "0 < bsize eb"
    using wf by (auto simp: eb_wf_def)
  then show ?case
    using Cons nth_eb_list [OF wf, of i] by (simp add: Let_def)
qed

lemma Replay_eq:
  assumes "eb_wf eb"
  shows "Replay since eb = Returns eb (filter (\<lambda>e. since <s WatchEvent.Revision e) (eb_list eb))"
proof -
  have "map (\<lambda>i. eb_list eb ! i) [0..<count eb] = eb_list eb"
    using assms map_nth [of "eb_list eb"] by (simp add: eb_wf_def)
  then show ?thesis
    using replay_loop_eq [OF assms, of "[0..<count eb]" since "[]"]
    by (simp add: Replay_def atLeast0LessThan)
qed

subsection \<open>Delivery\<close>

text \<open>Well-formed watch state: a sound ring buffer, open channels within their capacity.\<close>

definition watch_wf :: "'a watcher_scheme \<Rightarrow> bool" where
  "watch_wf w \<longleftrightarrow> eb_wf (eventBuf w) \<and>
     fmpred (\<lambda>_ sub. \<not> closed (ch sub) \<and> length (buffered (ch sub)) \<le> capacity (ch sub)) (watchSubs w)"

definition push_event :: "WatchEvent \<Rightarrow> 'a watcher_scheme \<Rightarrow> 'a watcher_scheme" where
  "push_event e w = w\<lparr>eventBuf := eb_push e (eventBuf w), watchSubs := fmmap (deliver e) (watchSubs w)\<rparr>"

lemma pushWatchEvent_returns:
  assumes "watch_wf w"
  shows "pushWatchEvent e w = Returns (push_event e w) ()"
  using assms by (auto simp: watch_wf_def pushWatchEvent_def push_event_def Push_returns fmpred_iff)

lemma deliver_simps [simp]:
  "sub_prefix (deliver e sub) = sub_prefix sub" "closed (ch (deliver e sub)) = closed (ch sub)"
  "capacity (ch (deliver e sub)) = capacity (ch sub)"
  by (simp_all add: deliver_def)

lemma deliver_bound:
  "length (buffered (ch sub)) \<le> capacity (ch sub) \<Longrightarrow>
     length (buffered (ch (deliver e sub))) \<le> capacity (ch sub)"
  using try_send_bound [of "ch sub" e] by (simp add: deliver_def)

lemma push_event_wf: "watch_wf w \<Longrightarrow> watch_wf (push_event e w)"
  by (auto simp: watch_wf_def push_event_def eb_push_wf fmpred_iff deliver_bound)

lemma push_event_simps [simp]:
  "eventBuf (push_event e w) = eb_push e (eventBuf w)"
  "watchSubs (push_event e w) = fmmap (deliver e) (watchSubs w)"
  "watchSeq (push_event e w) = watchSeq w" "watcher.more (push_event e w) = watcher.more w"
  by (simp_all add: push_event_def)

lemma pushWatchEvents_returns:
  "watch_wf w \<Longrightarrow> pushWatchEvents es w = Returns (fold push_event es w) ()"
  by (induction es arbitrary: w) (simp_all add: pushWatchEvent_returns push_event_wf)

lemma fold_push_event_wf: "watch_wf w \<Longrightarrow> watch_wf (fold push_event es w)"
  by (induction es arbitrary: w) (simp_all add: push_event_wf)

lemma fold_push_event_simps [simp]:
  "eventBuf (fold push_event es w) = fold eb_push es (eventBuf w)"
  "fmlookup (watchSubs (fold push_event es w)) i =
     map_option (fold deliver es) (fmlookup (watchSubs w) i)"
  "watchSeq (fold push_event es w) = watchSeq w"
  "watcher.more (fold push_event es w) = watcher.more w"
  by (induction es arbitrary: w) (simp_all add: option.map_comp o_def option.map_id0)

lemma fold_deliver_prefix [simp]: "sub_prefix (fold deliver es sub) = sub_prefix sub"
  by (induction es arbitrary: sub) simp_all

lemma fold_deliver_buffered:
  "length (buffered (ch sub)) \<le> capacity (ch sub) \<Longrightarrow>
   buffered (ch (fold deliver es sub)) =
     take (capacity (ch sub)) (buffered (ch sub) @ filter (\<lambda>e. sub_matches e sub) es)"
proof (induction es arbitrary: sub)
  case Nil
  then show ?case by simp
next
  case (Cons e es)
  have m: "sub_matches x (deliver e sub) = sub_matches x sub" for x
    by (simp add: sub_matches_def)
  have "buffered (ch (deliver e sub)) =
      (if sub_matches e sub \<and> length (buffered (ch sub)) < capacity (ch sub)
       then buffered (ch sub) @ [e] else buffered (ch sub))"
    by (simp add: deliver_def try_send_def)
  then show ?case
    using Cons.prems Cons.IH [of "deliver e sub"] deliver_bound [OF Cons.prems, of e]
    by (auto simp: m take_Cons')
qed

lemma watch_wf_subscribe:
  assumes "watch_wf w" and "subscribeWatch pre w = (sid, w')"
  shows "watch_wf w'" and "fmlookup (watchSubs w') sid = Some (newWatchSub pre 64)"
  using assms
  by (auto simp: subscribeWatch_def watch_wf_def newWatchSub_def make_chan_def fmpred_iff Let_def
      split: if_splits)

lemma subscribe_frame:
  "subscribeWatch pre w = (sid, w') \<Longrightarrow> eventBuf w' = eventBuf w \<and> watcher.more w' = watcher.more w"
  by (auto simp: subscribeWatch_def Let_def)

fun push_all :: "WatchEvent list \<Rightarrow> eventBuffer \<Rightarrow> (eventBuffer, unit) outcome" where
  "push_all [] eb = Returns eb ()"
| "push_all (e # es) eb = and_then (Push e eb) (\<lambda>eb _. push_all es eb)"

lemma push_all_returns: "eb_wf eb \<Longrightarrow> push_all es eb = Returns (fold eb_push es eb) ()"
  by (induction es arbitrary: eb) (simp_all add: Push_returns eb_push_wf)

lemma handleWatch_open_stream:
  assumes "watch_wf w" and "watch_since sinceParam lastEventID = Some since"
    and "subscribeWatch pre w = (sid, w')"
  shows "handleWatch_open pre sinceParam lastEventID True w =
    Returns w' (WatchStream sid (filter (\<lambda>e. since <s WatchEvent.Revision e) (eb_list (eventBuf w))))"
  using assms watch_wf_subscribe(1) [OF assms(1,3)] subscribe_frame [OF assms(3)]
  by (simp add: handleWatch_open_def Replay_eq watch_wf_def)

subsection \<open>Properties\<close>

text \<open>
  C27: the ring buffer keeps the newest events. After any sequence of pushes into a new buffer of
  positive size n no push has panicked, and \<open>Replay(since)\<close> returns, oldest first, exactly those of
  the last n events whose revision is greater than \<open>since\<close>.
\<close>

theorem ring_buffer_replays_newest:
  assumes "0 < n"
  shows "\<exists>eb. push_all es (newEventBuffer n) = Returns eb () \<and>
    Replay since eb = Returns eb
      (filter (\<lambda>e. since <s WatchEvent.Revision e) (drop (length es - n) es))"
proof -
  have wf: "eb_wf (newEventBuffer n)"
    using assms by (rule eb_wf_new)
  let ?eb = "fold eb_push es (newEventBuffer n)"
  have "eb_list ?eb = drop (length es - n) es"
    using ring.newest_kept [OF wf, of es] by (simp add: newEventBuffer_def eb_list_def)
  then show ?thesis
    using push_all_returns [OF wf, of es] Replay_eq [OF ring.inv_pushes [OF wf], of since es] by simp
qed

theorem ring_buffer_replays_newest_witness:
  "\<exists>eb. push_all
      [\<lparr>WatchEvent.Key = ''a'', Value = ''x'', Revision = 1, Type = EventPut\<rparr>,
       \<lparr>WatchEvent.Key = ''b'', Value = ''y'', Revision = 2, Type = EventPut\<rparr>,
       \<lparr>WatchEvent.Key = ''c'', Value = ''z'', Revision = 3, Type = EventPut\<rparr>] (newEventBuffer 2) = Returns eb () \<and>
     Replay 2 eb = Returns eb [\<lparr>WatchEvent.Key = ''c'', Value = ''z'', Revision = 3, Type = EventPut\<rparr>]"
  using ring_buffer_replays_newest [of 2
      "[\<lparr>WatchEvent.Key = ''a'', Value = ''x'', Revision = 1, Type = EventPut\<rparr>,
        \<lparr>WatchEvent.Key = ''b'', Value = ''y'', Revision = 2, Type = EventPut\<rparr>,
        \<lparr>WatchEvent.Key = ''c'', Value = ''z'', Revision = 3, Type = EventPut\<rparr>]" 2]
  by simp

text \<open>
  C28: what a watcher receives. Opening a stream on a sound watch state succeeds for every valid
  \<open>since\<close>; the events pushed afterwards never panic, and the stream's channel then holds, in order,
  the pushed events whose key has the requested prefix, the first 64 of them when nothing is read:
  nothing else is delivered live and nothing is dropped while fewer than 64 are pending.
\<close>

theorem watch_delivers_matching:
  assumes "watch_wf w" and "watch_since sinceParam lastEventID = Some since"
  shows "\<exists>sid w1 evs w2.
    handleWatch_open pre sinceParam lastEventID True w = Returns w1 (WatchStream sid evs) \<and>
    pushWatchEvents es w1 = Returns w2 () \<and>
    buffered (getWatchChan sid w2) =
      take 64 (filter (\<lambda>e. pre = '''' \<or> HasPrefix (WatchEvent.Key e) pre) es)"
proof -
  obtain sid w1 where s: "subscribeWatch pre w = (sid, w1)"
    by (cases "subscribeWatch pre w")
  note wf1 = watch_wf_subscribe [OF assms(1) s]
  have "buffered (ch (fold deliver es (newWatchSub pre 64))) =
      take 64 (filter (\<lambda>e. pre = '''' \<or> HasPrefix (WatchEvent.Key e) pre) es)"
    using fold_deliver_buffered [of "newWatchSub pre 64" es]
    by (simp add: newWatchSub_def make_chan_def sub_matches_def)
  then show ?thesis
    using handleWatch_open_stream [OF assms s] pushWatchEvents_returns [OF wf1(1), of es] wf1(2)
    by (simp add: getWatchChan_def)
qed

definition quiet_watcher :: watcher where
  "quiet_watcher = \<lparr>eventBuf = newEventBuffer eventBufferSize, watchSubs = fmempty, watchSeq = 0\<rparr>"

lemma quiet_watcher_wf: "watch_wf quiet_watcher"
  by (simp add: watch_wf_def quiet_watcher_def eb_wf_new eventBufferSize_def)

theorem watch_delivers_matching_witness:
  "\<exists>sid w1 evs w2.
    handleWatch_open ''/p/'' ''7'' '''' True quiet_watcher = Returns w1 (WatchStream sid evs) \<and>
    pushWatchEvents
      [\<lparr>WatchEvent.Key = ''/q/1'', Value = ''x'', Revision = 8, Type = EventPut\<rparr>,
       \<lparr>WatchEvent.Key = ''/p/1'', Value = ''y'', Revision = 9, Type = EventPut\<rparr>] w1 = Returns w2 () \<and>
    buffered (getWatchChan sid w2) = [\<lparr>WatchEvent.Key = ''/p/1'', Value = ''y'', Revision = 9, Type = EventPut\<rparr>]"
proof -
  have "watch_since ''7'' '''' = Some 7"
    by code_simp
  from watch_delivers_matching [OF quiet_watcher_wf this, of "''/p/''"
      "[\<lparr>WatchEvent.Key = ''/q/1'', Value = ''x'', Revision = 8, Type = EventPut\<rparr>,
        \<lparr>WatchEvent.Key = ''/p/1'', Value = ''y'', Revision = 9, Type = EventPut\<rparr>]"]
  show ?thesis by (simp add: HasPrefix_def)
qed

text \<open>
  The replay that precedes the live stream does not look at the prefix. Whatever prefix the
  request names, the replayed events are all buffered events above \<open>since\<close>; and a request without
  \<open>since\<close> replays from revision 0, so a new watcher first receives the whole buffer, including the
  events of keys it did not ask for.
\<close>

lemma watch_replay_ignores_prefix:
  assumes "watch_wf w"
  shows "\<exists>sid w'. handleWatch_open pre '''' '''' True w =
    Returns w' (WatchStream sid (filter (\<lambda>e. 0 <s WatchEvent.Revision e) (eb_list (eventBuf w))))"
proof -
  obtain sid w' where "subscribeWatch pre w = (sid, w')"
    by (cases "subscribeWatch pre w")
  moreover have "watch_since '''' '''' = Some 0"
    by (simp add: watch_since_def)
  ultimately show ?thesis
    using handleWatch_open_stream [OF assms] by blast
qed

lemma watch_replay_ignores_prefix_witness:
  "\<exists>sid w'. handleWatch_open ''/pods/'' '''' '''' True
      (push_event \<lparr>WatchEvent.Key = ''/nodes/1'', Value = ''up'', Revision = 1, Type = EventPut\<rparr> quiet_watcher) =
    Returns w' (WatchStream sid [\<lparr>WatchEvent.Key = ''/nodes/1'', Value = ''up'', Revision = 1, Type = EventPut\<rparr>]) \<and>
    \<not> HasPrefix ''/nodes/1'' ''/pods/''"
proof -
  let ?e = "\<lparr>WatchEvent.Key = ''/nodes/1'', Value = ''up'', Revision = 1, Type = EventPut\<rparr>"
  have "eb_list (eventBuf (push_event ?e quiet_watcher)) = [?e]"
    using eb_push_wf(3) [of "eventBuf quiet_watcher" ?e] quiet_watcher_wf
    by (simp add: watch_wf_def quiet_watcher_def newEventBuffer_def eventBufferSize_def eb_list_def)
  then show ?thesis
    using watch_replay_ignores_prefix [OF push_event_wf [OF quiet_watcher_wf], of "''/pods/''" ?e]
    by (simp add: HasPrefix_def word_sless_alt)
qed

end
