(* ===== verification/KVService.thy ===== *)
theory KVService
  imports Command Watch
begin

text \<open>
  The service of package \<open>kvservice\<close> (\<open>kvservice.go\<close>): its state, the application of a committed
  command, the commit subscriptions that connect a waiting HTTP handler with the entry it
  submitted, and snapshots.

  The Raft module is not part of the repository. What it hands to the service (a committed entry
  with its index and term, a snapshot to restore) is an argument; the one call the apply loop
  makes back, \<open>rs.InstallSnapshot\<close>, appends to the field \<open>installed\<close>. The service's mutex is the
  field \<open>locked\<close>: \<open>kvs.Lock()\<close> on a held mutex blocks. The channels of \<open>commitSubs\<close> are shared
  between the apply loop and a handler, so they live in a store \<open>chans\<close> and are referred to by
  address. The encoder \<open>encoding/gob\<close> is taken at the level of values: bytes are either the
  encoding of a snapshot or something that does not decode.
\<close>

subsection \<open>State\<close>

record peerInfo =
  RaftAddr :: string
  HTTPAddr :: string

record kvSnapshot =
  Store :: "(string, string) fmap"
  LastRequestIDPerClient :: "(int64, int64) fmap"
  CurrentRevision :: int64
  Leases :: "(int64, leaseSnapshot) fmap"
  KeyLease :: "(string, int64) fmap"
  NextLeaseID :: int64

datatype gob_bytes = GobOf kvSnapshot | GobGarbage string

record KVService = watcher +
  service_id :: int
  locked :: bool
  commitSubs :: "(int, nat) fmap"
  chans :: "(nat, Command gochan) fmap"
  next_chan :: nat
  dstore :: DataStore
  lastRequestIDPerClient :: "(int64, int64) fmap"
  currentRevision :: int64
  delayNextHTTPResponse :: bool
  lastSnapshotIndex :: int
  peers :: "(int, peerInfo) fmap"
  peerIDs :: "int list"
  pendingJoinAddrs :: "(int, peerInfo) fmap"
  installed :: "(int \<times> int \<times> gob_bytes) list"

definition snapshotThreshold :: int where
  "snapshotThreshold = 100"

text \<open>\<open>New\<close>, before \<open>loadPeers\<close> reads the storage and the two background loops start.\<close>

definition New :: "int \<Rightarrow> int list \<Rightarrow> KVService" where
  "New i peerIds =
     \<lparr>eventBuf = newEventBuffer eventBufferSize, watchSubs = fmempty, watchSeq = 0,
      service_id = i, locked = False, commitSubs = fmempty, chans = fmempty, next_chan = 0,
      dstore = NewDataStore, lastRequestIDPerClient = fmempty, currentRevision = 0,
      delayNextHTTPResponse = False, lastSnapshotIndex = - 1, peers = fmempty, peerIDs = peerIds,
      pendingJoinAddrs = fmempty, installed = []\<rparr>"

definition lockKV :: "KVService \<Rightarrow> (KVService, unit) outcome" where
  "lockKV s = (if locked s then Blocks s else Returns (s\<lparr>locked := True\<rparr>) ())"

definition unlockKV :: "KVService \<Rightarrow> KVService" where
  "unlockKV s = s\<lparr>locked := False\<rparr>"

text \<open>\<open>kvs.Lock(); defer kvs.Unlock()\<close> around a body: the lock is released on a panic, too.\<close>

fun defer_unlock :: "(KVService, 'a) outcome \<Rightarrow> (KVService, 'a) outcome" where
  "defer_unlock (Returns s a) = Returns (unlockKV s) a"
| "defer_unlock (Panics s msg) = Panics (unlockKV s) msg"
| "defer_unlock (Blocks s) = Blocks s"

definition locking :: "(KVService \<Rightarrow> (KVService, 'a) outcome) \<Rightarrow> KVService \<Rightarrow> (KVService, 'a) outcome" where
  "locking body s = and_then (lockKV s) (\<lambda>s _. defer_unlock (body s))"

subsection \<open>Commit subscriptions\<close>

definition createCommitSubscription :: "int \<Rightarrow> KVService \<Rightarrow> (KVService, nat) outcome" where
  "createCommitSubscription logIndex = locking (\<lambda>s.
     if fmlookup (commitSubs s) logIndex \<noteq> None
     then Panics s ''duplicate commit subscription''
     else let c = next_chan s
          in Returns (s\<lparr>chans := fmupd c (make_chan 1) (chans s), next_chan := c + 1,
                        commitSubs := fmupd logIndex c (commitSubs s)\<rparr>) c)"

definition popCommitSubscriptionLocked :: "int \<Rightarrow> KVService \<Rightarrow> nat option \<times> KVService" where
  "popCommitSubscriptionLocked logIndex s =
     (fmlookup (commitSubs s) logIndex, s\<lparr>commitSubs := fmdrop logIndex (commitSubs s)\<rparr>)"

text \<open>\<open>sub <- cmd; close(sub)\<close>: a send panics on a closed channel and waits while the buffer is full.\<close>

definition send_and_close :: "nat \<Rightarrow> Command \<Rightarrow> KVService \<Rightarrow> (KVService, unit) outcome" where
  "send_and_close c cmd s =
     (case fmlookup (chans s) c of
        None \<Rightarrow> Blocks s
      | Some cn \<Rightarrow>
          if closed cn then Panics s ''send on closed channel''
          else if length (buffered cn) \<ge> capacity cn then Blocks s
          else Returns (s\<lparr>chans := fmupd c (cn\<lparr>buffered := buffered cn @ [cmd], closed := True\<rparr>) (chans s)\<rparr>) ())"

text \<open>What a handler's \<open>commitCmd, ok := <-sub\<close> yields.\<close>

definition receive_commit :: "nat \<Rightarrow> KVService \<Rightarrow> Command received \<times> KVService" where
  "receive_commit c s =
     (case fmlookup (chans s) c of
        None \<Rightarrow> (WouldWait, s)
      | Some cn \<Rightarrow> (case recv cn of (r, cn') \<Rightarrow> (r, s\<lparr>chans := fmupd c cn' (chans s)\<rparr>)))"

subsection \<open>Snapshots\<close>

definition encodeSnapshot :: "string map_order \<Rightarrow> KVService \<Rightarrow> string + gob_bytes" where
  "encodeSnapshot ro s =
     (let (ls, kl, nextLeaseID) = GetLeaseSnapshot ro (dstore s)
      in Inr (GobOf \<lparr>Store = CopyAll (dstore s),
                     LastRequestIDPerClient = lastRequestIDPerClient s,
                     CurrentRevision = currentRevision s,
                     Leases = ls, KeyLease = kl, NextLeaseID = nextLeaseID\<rparr>))"

fun decodeSnapshot :: "gob_bytes \<Rightarrow> string + kvSnapshot" where
  "decodeSnapshot (GobOf snap) = Inr snap"
| "decodeSnapshot (GobGarbage msg) = Inl msg"

definition maybeSnapshot :: "string map_order \<Rightarrow> int \<Rightarrow> int \<Rightarrow> KVService \<Rightarrow> (KVService, unit) outcome" where
  "maybeSnapshot ro index trm = locking (\<lambda>s.
     if index - lastSnapshotIndex s < snapshotThreshold then Returns s ()
     else case encodeSnapshot ro s of
            Inl err \<Rightarrow> Returns s ()
          | Inr bytes \<Rightarrow>
              Returns (s\<lparr>lastSnapshotIndex := index, installed := installed s @ [(index, trm, bytes)]\<rparr>) ())"

definition close_covered :: "int \<Rightarrow> KVService \<Rightarrow> KVService" where
  "close_covered index s =
     (let covered = fmran (fmfilter (\<lambda>idx. idx \<le> index) (commitSubs s))
      in s\<lparr>chans := fmmap_keys (\<lambda>c cn. if c |\<in>| covered then cn\<lparr>closed := True\<rparr> else cn) (chans s),
           commitSubs := fmfilter (\<lambda>idx. \<not> idx \<le> index) (commitSubs s)\<rparr>)"

text \<open>\<open>handleSnapshot\<close> of the updater: restore a snapshot that the Raft layer received.\<close>

definition handleSnapshot :: "int \<Rightarrow> gob_bytes \<Rightarrow> KVService \<Rightarrow> (KVService, unit) outcome" where
  "handleSnapshot index bytes s =
     (case decodeSnapshot bytes of
        Inl err \<Rightarrow> Returns s ()
      | Inr snap \<Rightarrow>
          and_then (lockKV s) (\<lambda>s _.
            let ds = RestoreAll (Store snap) (dstore s);
                ds = RestoreFromLeaseSnapshot (Leases snap) (KeyLease snap) (NextLeaseID snap) ds;
                s = s\<lparr>dstore := ds, lastRequestIDPerClient := LastRequestIDPerClient snap,
                      currentRevision := CurrentRevision snap, lastSnapshotIndex := index\<rparr>
            in Returns (unlockKV (close_covered index s)) ()))"

subsection \<open>Applying a committed command\<close>

definition is_duplicate :: "Command \<Rightarrow> KVService \<Rightarrow> bool" where
  "is_duplicate cmd s \<longleftrightarrow> Command.ClientID cmd \<noteq> 0 \<and>
     (case fmlookup (lastRequestIDPerClient s) (Command.ClientID cmd) of
        None \<Rightarrow> False
      | Some lastReqID \<Rightarrow> Command.RequestID cmd <=s lastReqID)"

definition record_request :: "Command \<Rightarrow> KVService \<Rightarrow> KVService" where
  "record_request cmd s =
     (if Command.ClientID cmd \<noteq> 0
      then s\<lparr>lastRequestIDPerClient :=
              fmupd (Command.ClientID cmd) (Command.RequestID cmd) (lastRequestIDPerClient s)\<rparr>
      else s)"

definition apply_command :: "string map_order \<Rightarrow> time \<Rightarrow> Command \<Rightarrow> KVService \<Rightarrow> (KVService, Command) outcome" where
  "apply_command ro now cmd s =
     (if is_duplicate cmd s then Returns s (execute_duplicate ro cmd (dstore s))
      else
        (let s = record_request cmd s
         in case execute ro now cmd (dstore s) of
              Returns ds' cmd' \<Rightarrow> Returns (s\<lparr>dstore := ds'\<rparr>) cmd'
            | Panics ds' msg \<Rightarrow> Panics (s\<lparr>dstore := ds'\<rparr>) msg
            | Blocks ds' \<Rightarrow> Blocks (s\<lparr>dstore := ds'\<rparr>)))"

definition assign_revision :: "Command \<Rightarrow> KVService \<Rightarrow> Command \<times> KVService" where
  "assign_revision cmd s =
     (let s = (if is_write (Kind cmd) \<and> \<not> IsDuplicate cmd
               then s\<lparr>currentRevision := currentRevision s + 1\<rparr> else s)
      in (cmd\<lparr>Command.Revision := currentRevision s\<rparr>, s))"

definition put_event :: "string \<Rightarrow> string \<Rightarrow> int64 \<Rightarrow> WatchEvent" where
  "put_event k v r = \<lparr>WatchEvent.Key = k, Value = v, Revision = r, Type = EventPut\<rparr>"

definition delete_event :: "string \<Rightarrow> string \<Rightarrow> int64 \<Rightarrow> WatchEvent" where
  "delete_event k v r = \<lparr>WatchEvent.Key = k, Value = v, Revision = r, Type = EventDelete\<rparr>"

text \<open>
  The events of one transaction result; \<open>branch[i]\<close> is paired with result i. A result without an
  operation would be an index out of range, and \<open>txn_events\<close> is None there.
\<close>

definition txn_op_events :: "int64 \<Rightarrow> DataStore \<Rightarrow> TxnOp \<Rightarrow> TxnOpResult \<Rightarrow> WatchEvent list" where
  "txn_op_events revn ds op r =
     (case TxnOp.Op op of
        TxnOpDelete \<Rightarrow> [delete_event (TxnOpResult.Key r) (TxnOpResult.PrevValue r) revn]
      | TxnOpCAS \<Rightarrow>
          (if TxnOpResult.KeyFound r \<and> TxnOpResult.PrevValue r = TxnOp.CompareValue op
           then [put_event (TxnOp.Key op) (fst (Get (TxnOp.Key op) ds)) revn] else [])
      | TxnOpAppend \<Rightarrow> [put_event (TxnOp.Key op) (fst (Get (TxnOp.Key op) ds)) revn]
      | _ \<Rightarrow> [put_event (TxnOp.Key op) (TxnOp.Value op) revn])"

fun txn_events :: "int64 \<Rightarrow> DataStore \<Rightarrow> TxnOp list \<Rightarrow> TxnOpResult list \<Rightarrow> WatchEvent list option" where
  "txn_events revn ds branch [] = Some []"
| "txn_events revn ds [] (r # rs) = None"
| "txn_events revn ds (op # ops) (r # rs) =
     map_option ((@) (txn_op_events revn ds op r)) (txn_events revn ds ops rs)"

definition command_events :: "string map_order \<Rightarrow> DataStore \<Rightarrow> Command \<Rightarrow> WatchEvent list option" where
  "command_events ro ds cmd =
     (let revn = Command.Revision cmd
      in if IsDuplicate cmd then Some []
         else case Kind cmd of
           CommandPut \<Rightarrow> Some [put_event (Command.Key cmd) (Command.Value cmd) revn]
         | CommandAppend \<Rightarrow> Some [put_event (Command.Key cmd) (fst (Get (Command.Key cmd) ds)) revn]
         | CommandCAS \<Rightarrow>
             (if ResultFound cmd \<and> ResultValue cmd = Command.CompareValue cmd
              then Some [put_event (Command.Key cmd) (fst (Get (Command.Key cmd) ds)) revn]
              else Some [])
         | CommandLeaseRevoke \<Rightarrow>
             Some (map (\<lambda>k. delete_event k '''' revn) (range_of ro (fmdom (ResultPairs cmd))))
         | CommandLeaseExpiry \<Rightarrow>
             Some (map (\<lambda>k. delete_event k '''' revn) (range_of ro (fmdom (ResultPairs cmd))))
         | CommandTxn \<Rightarrow>
             (case (TxnResult cmd, TxnField cmd) of
                (Some tr, Some td) \<Rightarrow>
                  txn_events revn ds
                    (if TxnApplyResult.Succeeded tr then TxnData.Success td else TxnData.Failure td)
                    (TxnApplyResult.Results tr)
              | (Some tr, None) \<Rightarrow> None
              | (None, _) \<Rightarrow> Some [])
         | _ \<Rightarrow> Some [])"

definition notify_subscriber :: "nat option \<Rightarrow> Command \<Rightarrow> KVService \<Rightarrow> (KVService, unit) outcome" where
  "notify_subscriber sub cmd s =
     (case sub of None \<Rightarrow> Returns s () | Some c \<Rightarrow> send_and_close c cmd s)"

definition publish_events :: "string map_order \<Rightarrow> Command \<Rightarrow> KVService \<Rightarrow> (KVService, unit) outcome" where
  "publish_events ro cmd s =
     (case command_events ro (dstore s) cmd of
        None \<Rightarrow> Panics s ''index out of range''
      | Some es \<Rightarrow> pushWatchEvents es s)"

text \<open>
  The locked first half of \<open>handleCommand\<close>. The panic on an unexpected command releases the lock
  first; the one on a nil transaction does not.
\<close>

definition apply_locked :: "string map_order \<Rightarrow> time \<Rightarrow> Command \<Rightarrow> int \<Rightarrow> KVService
    \<Rightarrow> (KVService, Command \<times> nat option) outcome" where
  "apply_locked ro now cmd index s =
     and_then (lockKV s) (\<lambda>s _.
       case apply_command ro now cmd s of
         Panics s msg \<Rightarrow> Panics (if Kind cmd = CommandInvalid then unlockKV s else s) msg
       | Blocks s \<Rightarrow> Blocks s
       | Returns s cmd \<Rightarrow>
           let (cmd, s) = assign_revision cmd s;
               (sub, s) = popCommitSubscriptionLocked index s
           in Returns (unlockKV s) (cmd, sub))"

definition handleCommand :: "string map_order \<Rightarrow> time \<Rightarrow> Command \<Rightarrow> int \<Rightarrow> int \<Rightarrow> KVService
    \<Rightarrow> (KVService, Command) outcome" where
  "handleCommand ro now cmd index trm s =
     and_then (apply_locked ro now cmd index s) (\<lambda>s (cmd, sub).
     and_then (notify_subscriber sub cmd s) (\<lambda>s _.
     and_then (publish_events ro cmd s) (\<lambda>s _.
     and_then (if lastSnapshotIndex s \<ge> 0 then maybeSnapshot ro index trm s else Returns s ()) (\<lambda>s _.
     Returns s cmd))))"

subsection \<open>Invariant\<close>

text \<open>
  Between two steps of the apply loop the mutex is free; the store and the watch state are sound;
  every channel registered for a commit is open, empty and of capacity one, and is registered
  for one index only.
\<close>

definition subs_wf :: "KVService \<Rightarrow> bool" where
  "subs_wf s \<longleftrightarrow>
     (\<forall>i c. fmlookup (commitSubs s) i = Some c \<longrightarrow> fmlookup (chans s) c = Some (make_chan 1)) \<and>
     (\<forall>i j c. fmlookup (commitSubs s) i = Some c \<longrightarrow> fmlookup (commitSubs s) j = Some c \<longrightarrow> i = j) \<and>
     (\<forall>c cn. fmlookup (chans s) c = Some cn \<longrightarrow> c < next_chan s)"

definition kv_wf :: "KVService \<Rightarrow> bool" where
  "kv_wf s \<longleftrightarrow> \<not> locked s \<and> ds_wf (dstore s) \<and> watch_wf s \<and> subs_wf s"

lemma watch_wf_cong:
  "eventBuf (s :: KVService) = eventBuf t \<Longrightarrow> watchSubs s = watchSubs t \<Longrightarrow> watch_wf s = watch_wf (t :: KVService)"
  by (simp add: watch_wf_def)

lemma subs_wf_cong:
  "commitSubs s = commitSubs t \<Longrightarrow> chans s = chans t \<Longrightarrow> next_chan s = next_chan t \<Longrightarrow>
     subs_wf s = subs_wf t"
  by (simp add: subs_wf_def)

lemma kv_wf_New: "kv_wf (New i ps)"
  by (simp add: kv_wf_def New_def ds_wf_new watch_wf_def eb_wf_new eventBufferSize_def subs_wf_def)

lemma locking_free: "\<not> locked s \<Longrightarrow> locking body s = defer_unlock (body (s\<lparr>locked := True\<rparr>))"
  by (simp add: locking_def lockKV_def)

lemma locking_held: "locked s \<Longrightarrow> locking body s = Blocks s"
  by (simp add: locking_def lockKV_def)

lemma unlockKV_simps [simp]:
  "locked (unlockKV s) = False" "dstore (unlockKV s) = dstore s" "commitSubs (unlockKV s) = commitSubs s"
  "chans (unlockKV s) = chans s" "next_chan (unlockKV s) = next_chan s"
  "eventBuf (unlockKV s) = eventBuf s" "watchSubs (unlockKV s) = watchSubs s"
  "watchSeq (unlockKV s) = watchSeq s"
  "lastRequestIDPerClient (unlockKV s) = lastRequestIDPerClient s"
  "currentRevision (unlockKV s) = currentRevision s" "lastSnapshotIndex (unlockKV s) = lastSnapshotIndex s"
  "installed (unlockKV s) = installed s" "service_id (unlockKV s) = service_id s"
  "peers (unlockKV s) = peers s" "peerIDs (unlockKV s) = peerIDs s"
  "pendingJoinAddrs (unlockKV s) = pendingJoinAddrs s"
  by (simp_all add: unlockKV_def)

subsection \<open>The state that is replicated\<close>

text \<open>
  The part of the service that the log determines: the store, the deduplication table and the
  revision. \<open>machine_step\<close> is what a committed command does to it.
\<close>

record machine =
  m_ds :: DataStore
  m_last :: "(int64, int64) fmap"
  m_rev :: int64

definition machine_of :: "KVService \<Rightarrow> machine" where
  "machine_of s = \<lparr>m_ds = dstore s, m_last = lastRequestIDPerClient s, m_rev = currentRevision s\<rparr>"

lemma machine_of_simps [simp]:
  "m_ds (machine_of s) = dstore s" "m_last (machine_of s) = lastRequestIDPerClient s"
  "m_rev (machine_of s) = currentRevision s"
  by (simp_all add: machine_of_def)

lemma machine_of_update [simp]:
  "machine_of (s\<lparr>commitSubs := cs\<rparr>) = machine_of s" "machine_of (s\<lparr>locked := b\<rparr>) = machine_of s"
  "machine_of (s\<lparr>chans := cn\<rparr>) = machine_of s" "machine_of (s\<lparr>next_chan := n\<rparr>) = machine_of s"
  "machine_of (s\<lparr>lastSnapshotIndex := i\<rparr>) = machine_of s" "machine_of (unlockKV s) = machine_of s"
  by (simp_all add: machine_of_def unlockKV_def)

definition m_duplicate :: "Command \<Rightarrow> (int64, int64) fmap \<Rightarrow> bool" where
  "m_duplicate cmd tab \<longleftrightarrow> Command.ClientID cmd \<noteq> 0 \<and>
     (case fmlookup tab (Command.ClientID cmd) of
        None \<Rightarrow> False
      | Some lastReqID \<Rightarrow> Command.RequestID cmd <=s lastReqID)"

definition m_record :: "Command \<Rightarrow> (int64, int64) fmap \<Rightarrow> (int64, int64) fmap" where
  "m_record cmd tab =
     (if Command.ClientID cmd \<noteq> 0 then fmupd (Command.ClientID cmd) (Command.RequestID cmd) tab else tab)"

definition m_bump :: "CommandKind \<Rightarrow> int64 \<Rightarrow> int64" where
  "m_bump k r = (if is_write k then r + 1 else r)"

definition machine_step :: "string map_order \<Rightarrow> time \<Rightarrow> Command \<Rightarrow> machine \<Rightarrow> machine \<times> Command" where
  "machine_step ro now cmd m =
     (if m_duplicate cmd (m_last m)
      then (m, (execute_duplicate ro cmd (m_ds m))\<lparr>Command.Revision := m_rev m\<rparr>)
      else case execute ro now cmd (m_ds m) of
             Returns ds' cmd' \<Rightarrow>
               (\<lparr>m_ds = ds', m_last = m_record cmd (m_last m), m_rev = m_bump (Kind cmd) (m_rev m)\<rparr>,
                cmd'\<lparr>Command.Revision := m_bump (Kind cmd) (m_rev m)\<rparr>)
           | _ \<Rightarrow> (m, cmd))"

lemma is_duplicate_machine: "is_duplicate cmd s = m_duplicate cmd (m_last (machine_of s))"
  by (simp add: is_duplicate_def m_duplicate_def)

lemma execute_duplicate_frame [simp]:
  "Kind (execute_duplicate ro cmd ds) = Kind cmd" "IsDuplicate (execute_duplicate ro cmd ds)"
  "ServiceID (execute_duplicate ro cmd ds) = ServiceID cmd"
  "Command.ClientID (execute_duplicate ro cmd ds) = Command.ClientID cmd"
  "Command.RequestID (execute_duplicate ro cmd ds) = Command.RequestID cmd"
  by (simp_all add: execute_duplicate_def Let_def)

lemma machine_step_IsDuplicate:
  assumes "submitted cmd" and "machine_step ro now cmd m = (m', cmd')"
  shows "IsDuplicate cmd' \<longleftrightarrow> m_duplicate cmd (m_last m)"
    and "Kind cmd' = Kind cmd" and "ServiceID cmd' = ServiceID cmd"
proof -
  obtain ds' c where x: "execute ro now cmd (m_ds m) = Returns ds' c"
    using execute_returns [OF assms(1)] by blast
  show "IsDuplicate cmd' \<longleftrightarrow> m_duplicate cmd (m_last m)"
    "Kind cmd' = Kind cmd" "ServiceID cmd' = ServiceID cmd"
    using assms x execute_frame [OF x] by (auto simp: machine_step_def submitted_def split: if_splits)
qed

subsection \<open>One committed command, step by step\<close>

definition put_machine :: "machine \<Rightarrow> KVService \<Rightarrow> KVService" where
  "put_machine m s =
     s\<lparr>dstore := m_ds m, lastRequestIDPerClient := m_last m, currentRevision := m_rev m\<rparr>"

definition notified :: "nat option \<Rightarrow> Command \<Rightarrow> KVService \<Rightarrow> KVService" where
  "notified sub cmd s =
     (case sub of
        None \<Rightarrow> s
      | Some c \<Rightarrow> s\<lparr>chans := fmupd c \<lparr>buffered = [cmd], capacity = 1, closed = True\<rparr> (chans s)\<rparr>)"

definition snapshot_bytes :: "string map_order \<Rightarrow> KVService \<Rightarrow> gob_bytes" where
  "snapshot_bytes ro s = projr (encodeSnapshot ro s)"

definition after_snapshot :: "string map_order \<Rightarrow> int \<Rightarrow> int \<Rightarrow> KVService \<Rightarrow> KVService" where
  "after_snapshot ro index trm s =
     (if lastSnapshotIndex s \<ge> 0 \<and> index - lastSnapshotIndex s \<ge> snapshotThreshold
      then s\<lparr>lastSnapshotIndex := index, installed := installed s @ [(index, trm, snapshot_bytes ro s)]\<rparr>
      else s)"

lemma apply_command_eq:
  assumes "submitted cmd" and "machine_step ro now cmd (machine_of s) = (m', cmd')"
  shows "\<exists>c s'. apply_command ro now cmd s = Returns s' c \<and>
    assign_revision c s' = (cmd', put_machine m' s)"
proof (cases "is_duplicate cmd s")
  case True
  then show ?thesis
    using assms(2)
    by (auto simp: apply_command_def machine_step_def is_duplicate_machine assign_revision_def
        put_machine_def Let_def)
next
  case False
  obtain ds' c where x: "execute ro now cmd (dstore s) = Returns ds' c"
    using execute_returns [OF assms(1)] by blast
  with False execute_frame [OF x] assms show ?thesis
    by (auto simp: apply_command_def machine_step_def is_duplicate_machine assign_revision_def
        put_machine_def Let_def record_request_def m_record_def m_bump_def submitted_def)
qed

lemma apply_locked_eq:
  assumes "\<not> locked s" and "submitted cmd" and "machine_step ro now cmd (machine_of s) = (m', cmd')"
  shows "apply_locked ro now cmd index s =
    Returns ((put_machine m' s)\<lparr>commitSubs := fmdrop index (commitSubs s)\<rparr>)
      (cmd', fmlookup (commitSubs s) index)"
proof -
  let ?s = "s\<lparr>locked := True\<rparr>"
  have "machine_step ro now cmd (machine_of ?s) = (m', cmd')"
    using assms(3) by (simp add: machine_of_def)
  from apply_command_eq [OF assms(2) this] obtain c t where "apply_command ro now cmd ?s = Returns t c"
    "assign_revision c t = (cmd', put_machine m' ?s)"
    by blast
  then show ?thesis
    using assms(1) by (simp add: apply_locked_def lockKV_def popCommitSubscriptionLocked_def
        put_machine_def unlockKV_def)
qed

lemma notify_subscriber_eq:
  assumes "\<And>c. sub = Some c \<Longrightarrow> fmlookup (chans s) c = Some (make_chan 1)"
  shows "notify_subscriber sub cmd s = Returns (notified sub cmd s) ()"
  using assms by (cases sub)
    (simp_all add: notify_subscriber_def notified_def send_and_close_def make_chan_def)

lemma txn_events_defined:
  "length rs \<le> length ops \<Longrightarrow> \<exists>es. txn_events r ds ops rs = Some es"
proof (induction ops arbitrary: rs)
  case Nil
  then show ?case by simp
next
  case (Cons op ops)
  then show ?case by (cases rs) auto
qed

lemma execute_Txn:
  assumes "Kind cmd = CommandTxn" and "execute ro now cmd ds = Returns ds' c"
  obtains td ok rs where "TxnField cmd = Some td"
    "Txn (TxnData.Conditions td) (TxnData.Success td) (TxnData.Failure td) ds = ((ok, rs), ds')"
    "c = cmd\<lparr>TxnResult := Some \<lparr>TxnApplyResult.Succeeded = ok, Results = rs\<rparr>\<rparr>"
proof -
  obtain td where td: "TxnField cmd = Some td"
    using assms by (auto simp: execute_def split: option.splits)
  obtain ok rs t where T: "Txn (TxnData.Conditions td) (TxnData.Success td) (TxnData.Failure td) ds
      = ((ok, rs), t)"
    by (metis surj_pair)
  with assms td that show thesis
    by (simp add: execute_def)
qed

lemma command_events_defined:
  assumes "submitted cmd" and "machine_step ro now cmd m = (m', cmd')"
  shows "\<exists>es. command_events ro' ds cmd' = Some es"
proof (cases "m_duplicate cmd (m_last m)")
  case True
  then show ?thesis
    using machine_step_IsDuplicate(1) [OF assms] by (simp add: command_events_def)
next
  case False
  obtain ds' c where x: "execute ro now cmd (m_ds m) = Returns ds' c"
    using execute_returns [OF assms(1)] by blast
  with False assms(2) have c: "cmd' = c\<lparr>Command.Revision := m_bump (Kind cmd) (m_rev m)\<rparr>"
    by (simp add: machine_step_def)
  show ?thesis
  proof (cases "Kind cmd = CommandTxn")
    case True
    then obtain td ok rs where td: "TxnField cmd = Some td"
      and T: "Txn (TxnData.Conditions td) (TxnData.Success td) (TxnData.Failure td) (m_ds m) = ((ok, rs), ds')"
      and r: "c = cmd\<lparr>TxnResult := Some \<lparr>TxnApplyResult.Succeeded = ok, Results = rs\<rparr>\<rparr>"
      by (rule execute_Txn [OF _ x])
    have "\<exists>es. txn_events n ds (if ok then TxnData.Success td else TxnData.Failure td) rs = Some es" for n
      using Txn_results [OF T] by (intro txn_events_defined) simp
    with True td show ?thesis
      unfolding c r by (simp add: command_events_def Let_def)
  next
    case False
    then have "Kind cmd' \<noteq> CommandTxn"
      using machine_step_IsDuplicate(2) [OF assms] by simp
    then show ?thesis
      by (cases "Kind cmd'") (auto simp: command_events_def Let_def)
  qed
qed

lemma push_event_frame [simp]:
  "locked (push_event e s) = locked s" "dstore (push_event e s) = dstore s"
  "commitSubs (push_event e s) = commitSubs s" "chans (push_event e s) = chans s"
  "next_chan (push_event e s) = next_chan s" "lastSnapshotIndex (push_event e s) = lastSnapshotIndex s"
  "installed (push_event e s) = installed s" "machine_of (push_event e s) = machine_of s"
  "service_id (push_event e s) = service_id s" "peers (push_event e s) = peers s"
  "lastRequestIDPerClient (push_event e s) = lastRequestIDPerClient s"
  "currentRevision (push_event e s) = currentRevision s"
  by (simp_all add: push_event_def machine_of_def)

lemma fold_push_event_frame [simp]:
  "locked (fold push_event es s) = locked s" "dstore (fold push_event es s) = dstore s"
  "commitSubs (fold push_event es s) = commitSubs s" "chans (fold push_event es s) = chans s"
  "next_chan (fold push_event es s) = next_chan s"
  "lastSnapshotIndex (fold push_event es s) = lastSnapshotIndex s"
  "installed (fold push_event es s) = installed s" "machine_of (fold push_event es s) = machine_of s"
  "service_id (fold push_event es s) = service_id s" "peers (fold push_event es s) = peers s"
  "lastRequestIDPerClient (fold push_event es s) = lastRequestIDPerClient s"
  "currentRevision (fold push_event es s) = currentRevision s"
  by (induction es arbitrary: s) simp_all

lemma put_machine_simps [simp]:
  "dstore (put_machine m s) = m_ds m" "lastRequestIDPerClient (put_machine m s) = m_last m"
  "currentRevision (put_machine m s) = m_rev m" "machine_of (put_machine m s) = m"
  "locked (put_machine m s) = locked s" "commitSubs (put_machine m s) = commitSubs s"
  "chans (put_machine m s) = chans s" "next_chan (put_machine m s) = next_chan s"
  "eventBuf (put_machine m s) = eventBuf s" "watchSubs (put_machine m s) = watchSubs s"
  "lastSnapshotIndex (put_machine m s) = lastSnapshotIndex s" "installed (put_machine m s) = installed s"
  "service_id (put_machine m s) = service_id s"
  by (simp_all add: put_machine_def machine_of_def)

lemma notified_simps [simp]:
  "dstore (notified sub c s) = dstore s" "machine_of (notified sub c s) = machine_of s"
  "locked (notified sub c s) = locked s" "commitSubs (notified sub c s) = commitSubs s"
  "next_chan (notified sub c s) = next_chan s" "eventBuf (notified sub c s) = eventBuf s"
  "watchSubs (notified sub c s) = watchSubs s" "lastSnapshotIndex (notified sub c s) = lastSnapshotIndex s"
  "installed (notified sub c s) = installed s" "service_id (notified sub c s) = service_id s"
  "fmlookup (chans (notified sub c s)) i =
     (if sub = Some i then Some \<lparr>buffered = [c], capacity = 1, closed = True\<rparr> else fmlookup (chans s) i)"
  by (auto simp: notified_def machine_of_def split: option.splits)

lemma after_snapshot_simps [simp]:
  "dstore (after_snapshot ro i t s) = dstore s" "machine_of (after_snapshot ro i t s) = machine_of s"
  "locked (after_snapshot ro i t s) = locked s" "commitSubs (after_snapshot ro i t s) = commitSubs s"
  "chans (after_snapshot ro i t s) = chans s" "next_chan (after_snapshot ro i t s) = next_chan s"
  "eventBuf (after_snapshot ro i t s) = eventBuf s" "watchSubs (after_snapshot ro i t s) = watchSubs s"
  "service_id (after_snapshot ro i t s) = service_id s"
  by (simp_all add: after_snapshot_def machine_of_def)

lemma maybeSnapshot_eq:
  assumes "\<not> locked s"
  shows "(if lastSnapshotIndex s \<ge> 0 then maybeSnapshot ro index trm s else Returns s ()) =
    Returns (after_snapshot ro index trm s) ()"
  using assms by (auto simp: maybeSnapshot_def locking_free after_snapshot_def unlockKV_def
      snapshot_bytes_def encodeSnapshot_def Let_def split: prod.splits)

text \<open>The state after a committed command, as a function of what the replicated machine does.\<close>

definition committed :: "string map_order \<Rightarrow> int \<Rightarrow> int \<Rightarrow> machine \<Rightarrow> Command \<Rightarrow> WatchEvent list
    \<Rightarrow> KVService \<Rightarrow> KVService" where
  "committed ro index trm m' cmd' es s =
     after_snapshot ro index trm (fold push_event es
       (notified (fmlookup (commitSubs s) index) cmd'
         ((put_machine m' s)\<lparr>commitSubs := fmdrop index (commitSubs s)\<rparr>)))"

lemma handleCommand_eq:
  assumes wf: "kv_wf s" and sub: "submitted cmd"
    and ms: "machine_step ro now cmd (machine_of s) = (m', cmd')"
  obtains es where "command_events ro (m_ds m') cmd' = Some es"
    and "handleCommand ro now cmd index trm s = Returns (committed ro index trm m' cmd' es s) cmd'"
proof -
  from wf have free: "\<not> locked s" and "watch_wf s" and subs: "subs_wf s"
    by (simp_all add: kv_wf_def)
  let ?t = "(put_machine m' s)\<lparr>commitSubs := fmdrop index (commitSubs s)\<rparr>"
  let ?n = "notified (fmlookup (commitSubs s) index) cmd' ?t"
  obtain es where es: "command_events ro (m_ds m') cmd' = Some es"
    using command_events_defined [OF sub ms] by blast
  have n: "notify_subscriber (fmlookup (commitSubs s) index) cmd' ?t = Returns ?n ()"
    using subs by (intro notify_subscriber_eq) (auto simp: subs_wf_def)
  have "watch_wf ?n"
    using \<open>watch_wf s\<close> by (subst watch_wf_cong [of _ s]) simp_all
  then have p: "publish_events ro cmd' ?n = Returns (fold push_event es ?n) ()"
    using es by (simp add: publish_events_def pushWatchEvents_returns)
  have "handleCommand ro now cmd index trm s = Returns (committed ro index trm m' cmd' es s) cmd'"
    using maybeSnapshot_eq [of "fold push_event es ?n" ro index trm] free n p
    by (simp add: handleCommand_def apply_locked_eq [OF free sub ms] committed_def)
  with es show thesis by (rule that)
qed

lemma machine_step_wf:
  assumes "ds_wf (m_ds m)" and "submitted cmd"
    and "Kind cmd = CommandLeaseGrant \<Longrightarrow> lease_ids_left (m_ds m)"
    and "machine_step ro now cmd m = (m', cmd')"
  shows "ds_wf (m_ds m')"
proof -
  obtain ds' c where x: "execute ro now cmd (m_ds m) = Returns ds' c"
    using execute_returns [OF assms(2)] by blast
  then have "ds_wf ds'"
    using assms(1,3) by (blast intro: execute_wf)
  with assms(1,4) x show ?thesis
    by (auto simp: machine_step_def split: if_splits)
qed

lemma subs_wf_committed:
  assumes "subs_wf s"
  shows "subs_wf (committed ro index trm m' cmd' es s)"
  using assms by (fastforce simp: subs_wf_def committed_def)

lemma kv_wf_committed:
  assumes "kv_wf s" and "ds_wf (m_ds m')"
  shows "kv_wf (committed ro index trm m' cmd' es s)"
proof -
  let ?n = "notified (fmlookup (commitSubs s) index) cmd'
    ((put_machine m' s)\<lparr>commitSubs := fmdrop index (commitSubs s)\<rparr>)"
  have "watch_wf ?n"
    using assms(1) unfolding kv_wf_def by (subst watch_wf_cong [of _ s]) simp_all
  from fold_push_event_wf [OF this, of es] have "watch_wf (committed ro index trm m' cmd' es s)"
    unfolding committed_def by (subst watch_wf_cong) simp_all
  with assms subs_wf_committed [of s] show ?thesis
    by (simp add: kv_wf_def committed_def)
qed

lemma committed_simps [simp]:
  "machine_of (committed ro index trm m' cmd' es s) = m'"
  "dstore (committed ro index trm m' cmd' es s) = m_ds m'"
  "locked (committed ro index trm m' cmd' es s) = locked s"
  "commitSubs (committed ro index trm m' cmd' es s) = fmdrop index (commitSubs s)"
  "service_id (committed ro index trm m' cmd' es s) = service_id s"
  "eventBuf (committed ro index trm m' cmd' es s) = fold eb_push es (eventBuf s)"
  by (simp_all add: committed_def)

subsection \<open>Subscriptions\<close>

lemma createCommitSubscription_fresh:
  assumes "kv_wf s" and "fmlookup (commitSubs s) i = None"
  shows "createCommitSubscription i s =
    Returns (s\<lparr>chans := fmupd (next_chan s) (make_chan 1) (chans s), next_chan := next_chan s + 1,
               commitSubs := fmupd i (next_chan s) (commitSubs s)\<rparr>) (next_chan s)"
  using assms by (simp add: createCommitSubscription_def locking_free kv_wf_def Let_def unlockKV_def)

lemma createCommitSubscription_Returns:
  assumes "kv_wf s" and "createCommitSubscription i s = Returns s' c"
  shows "fmlookup (commitSubs s) i = None" and "c = next_chan s"
    and "s' = s\<lparr>chans := fmupd (next_chan s) (make_chan 1) (chans s), next_chan := next_chan s + 1,
               commitSubs := fmupd i (next_chan s) (commitSubs s)\<rparr>"
  using assms by (auto simp: createCommitSubscription_def locking_free kv_wf_def Let_def unlockKV_def
      split: if_splits)

lemma fresh_chan_unused:
  assumes "kv_wf s" shows "fmlookup (commitSubs s) i \<noteq> Some (next_chan s)"
  using assms by (fastforce simp: kv_wf_def subs_wf_def)

lemma kv_wf_createCommitSubscription:
  assumes wf: "kv_wf s" and "createCommitSubscription i s = Returns s' c"
  shows "kv_wf s'"
proof -
  note s' = createCommitSubscription_Returns(3) [OF assms]
  have "subs_wf s'"
    using wf fresh_chan_unused [OF wf] unfolding kv_wf_def subs_wf_def s'
    by (auto split: if_splits)
  moreover have "watch_wf s'"
    using wf unfolding kv_wf_def s' by (subst watch_wf_cong [of _ s]) simp_all
  ultimately show ?thesis
    using wf by (simp add: kv_wf_def s')
qed

lemma receive_commit_committed:
  assumes "fmlookup (commitSubs s) index = Some c"
  shows "fst (receive_commit c (committed ro index trm m' cmd' es s)) = Received cmd'"
  using assms by (simp add: receive_commit_def committed_def recv_def)

lemma receive_commit_other:
  assumes "subs_wf s" and "fmlookup (commitSubs s) i = Some c" and "i \<noteq> index"
  shows "fst (receive_commit c (committed ro index trm m' cmd' es s)) = WouldWait"
proof -
  have "fmlookup (commitSubs s) index \<noteq> Some c" "fmlookup (chans s) c = Some (make_chan 1)"
    using assms unfolding subs_wf_def by blast+
  then show ?thesis
    by (simp add: receive_commit_def committed_def recv_def make_chan_def)
qed

lemma locked_commit_blocks:
  "locked s \<Longrightarrow> handleCommand ro now cmd index trm s = Blocks s"
  by (simp add: handleCommand_def apply_locked_def lockKV_def)

end
