(* ===== verification/Replica.thy ===== *)
theory Replica
  imports KVService
begin

text \<open>
  What the log makes of a replica. Two replicas apply the same committed commands, each with its
  own clock and its own map iteration orders. The locale \<open>deterministic_up_to\<close> is the contract of
  a replicated machine: a step may read its environment, but neither what it makes of the visible
  part of the state nor its answer may depend on it. \<open>machine_step\<close> satisfies the contract, the
  visible part being everything but the deadlines of the leases. The second half is about
  deduplication: the log without the requests that the service recognises as repeated, applied
  with no deduplication at all, gives the same store.
\<close>

subsection \<open>Running a log\<close>

fun run_log :: "('e \<Rightarrow> 'c \<Rightarrow> 'm \<Rightarrow> 'm \<times> 'r) \<Rightarrow> ('e \<times> 'c) list \<Rightarrow> 'm \<Rightarrow> 'm \<times> 'r list" where
  "run_log step [] m = (m, [])"
| "run_log step ((e, c) # xs) m =
     (let (m1, r) = step e c m; (m2, rs) = run_log step xs m1 in (m2, r # rs))"

lemma run_log_append:
  "run_log step (xs @ ys) m =
     (let (m1, rs) = run_log step xs m; (m2, qs) = run_log step ys m1 in (m2, rs @ qs))"
  by (induction step xs m rule: run_log.induct) (simp_all split: prod.splits)

lemma run_log_Cons:
  "fst (run_log step ((e, c) # xs) m) = fst (run_log step xs (fst (step e c m)))"
  "snd (run_log step ((e, c) # xs) m) = snd (step e c m) # snd (run_log step xs (fst (step e c m)))"
  by (simp_all split: prod.splits)

lemma length_run_log: "length (snd (run_log step xs m)) = length xs"
  by (induction xs arbitrary: m) (auto simp: run_log_Cons simp del: run_log.simps(2))

locale deterministic_up_to =
  fixes step :: "'e \<Rightarrow> 'c \<Rightarrow> 'm \<Rightarrow> 'm \<times> 'r"
    and view :: "'m \<Rightarrow> 'v"
  assumes step_view: "view m = view n \<Longrightarrow>
    view (fst (step e c m)) = view (fst (step e' c n)) \<and> snd (step e c m) = snd (step e' c n)"
begin

lemma run_view:
  assumes "map snd xs = map snd ys" and "view m = view n"
  shows "view (fst (run_log step xs m)) = view (fst (run_log step ys n)) \<and>
    snd (run_log step xs m) = snd (run_log step ys n)"
  using assms
proof (induction xs arbitrary: ys m n)
  case Nil
  then show ?case by simp
next
  case (Cons x xs)
  obtain e c where x: "x = (e, c)" by (cases x)
  from Cons.prems(1) x obtain e' zs where ys: "ys = (e', c) # zs" and zs: "map snd xs = map snd zs"
    by (cases ys) auto
  have "view (fst (step e c m)) = view (fst (step e' c n))" "snd (step e c m) = snd (step e' c n)"
    using step_view [OF Cons.prems(2)] by auto
  with Cons.IH [OF zs] show ?case
    unfolding x ys run_log_Cons by auto
qed

lemma recovered_from_prefix:
  assumes "view n = view (fst (run_log step xs m))"
  shows "view (fst (run_log step ys n)) = view (fst (run_log step (xs @ ys) m))"
  using run_view [OF refl assms, of ys] by (simp add: run_log_append split: prod.splits)

end

subsection \<open>Everything but the deadlines\<close>

definition undated :: "Lease \<Rightarrow> Lease" where
  "undated l = l\<lparr>Lease.ExpiresAt := 0\<rparr>"

definition forget_deadlines :: "DataStore \<Rightarrow> DataStore" where
  "forget_deadlines ds = ds\<lparr>leases := fmmap undated (leases ds)\<rparr>"

definition replicated_view :: "machine \<Rightarrow> machine" where
  "replicated_view m = m\<lparr>m_ds := forget_deadlines (m_ds m)\<rparr>"

lemma undated_simps [simp]:
  "Lease.Keys (undated l) = Lease.Keys l" "Lease.TTL (undated l) = Lease.TTL l"
  "undated (l\<lparr>Lease.Keys := K\<rparr>) = (undated l)\<lparr>Lease.Keys := K\<rparr>"
  "undated (l\<lparr>Lease.ExpiresAt := t\<rparr>) = undated l" "undated (undated l) = undated l"
  "undated \<lparr>Lease.ID = i, TTL = ttl, ExpiresAt = t, Keys = ks\<rparr> =
     \<lparr>Lease.ID = i, TTL = ttl, ExpiresAt = 0, Keys = ks\<rparr>"
  by (simp_all add: undated_def)

lemma forget_simps [simp]:
  "data (forget_deadlines ds) = data ds" "keyLease (forget_deadlines ds) = keyLease ds"
  "leaseIDSeq (forget_deadlines ds) = leaseIDSeq ds"
  "fmlookup (leases (forget_deadlines ds)) i = map_option undated (fmlookup (leases ds) i)"
  by (simp_all add: forget_deadlines_def)


lemma fmmap_upd: "fmmap f (fmupd k v m) = fmupd k (f v) (fmmap f m)"
  by (intro fmap_ext) simp

lemma fmmap_undated [simp]: "fmmap undated (fmmap undated m) = fmmap undated m"
  by (intro fmap_ext) (simp add: option.map_comp o_def)

lemma forget_detach:
  "detachKeyFromLease k (forget_deadlines ds) = forget_deadlines (detachKeyFromLease k ds)"
  by (simp add: detachKeyFromLease_def forget_deadlines_def Let_def fmmap_upd split: option.splits)

lemma forget_attach:
  "attachKeyToLease k i (forget_deadlines ds) = forget_deadlines (attachKeyToLease k i ds)"
  unfolding attachKeyToLease_def forget_detach Let_def
  by (simp add: forget_deadlines_def fmmap_upd split: option.splits)

lemma forget_update [simp]:
  "forget_deadlines (ds\<lparr>data := d\<rparr>) = (forget_deadlines ds)\<lparr>data := d\<rparr>"
  by (simp add: forget_deadlines_def)

lemma forget_put:
  "putLocked k v lid (forget_deadlines ds) = apsnd forget_deadlines (putLocked k v lid ds)"
  by (simp add: putLocked_def Let_def forget_detach forget_attach forget_update [symmetric]
      del: forget_update)

lemma forget_append:
  "appendLocked k v (forget_deadlines ds) = apsnd forget_deadlines (appendLocked k v ds)"
  by (simp add: appendLocked_def Let_def)

lemma forget_cas:
  "casLocked k c v (forget_deadlines ds) = apsnd forget_deadlines (casLocked k c v ds)"
  by (simp add: casLocked_def split: prod.splits)

lemma forget_delete:
  "deleteLocked k (forget_deadlines ds) = apsnd forget_deadlines (deleteLocked k ds)"
  by (simp add: deleteLocked_def Let_def forget_detach)

lemma forget_txn_op: "txn_op op (forget_deadlines ds) = apsnd forget_deadlines (txn_op op ds)"
  by (simp add: txn_op_def forget_put forget_append forget_cas forget_delete
      split: prod.splits TxnOpType.splits)

lemma forget_txn_ops: "txn_ops ops (forget_deadlines ds) = apsnd forget_deadlines (txn_ops ops ds)"
  by (induction ops arbitrary: ds) (simp_all add: forget_txn_op split: prod.splits)

lemma forget_conditions: "conditions_met (forget_deadlines ds) cs = conditions_met ds cs"
  by (induction cs) (simp_all add: evalCondition_def)

lemma forget_Txn: "Txn cs su fa (forget_deadlines ds) = apsnd forget_deadlines (Txn cs su fa ds)"
  by (simp add: Txn_def Let_def forget_conditions forget_txn_ops split: prod.splits)

text \<open>The lease operations: the clock only moves deadlines, the iteration order only reorders keys.\<close>

lemma forget_grant:
  "forget_deadlines (snd (GrantLease now ttl ds)) =
     forget_deadlines (snd (GrantLease now' ttl (forget_deadlines ds)))"
  "fst (GrantLease now ttl ds) = fst (GrantLease now' ttl (forget_deadlines ds))"
  by (simp_all add: GrantLease_def forget_deadlines_def Let_def fmmap_upd)

lemma forget_keepalive:
  "forget_deadlines (snd (KeepAliveLease now lid ds)) =
     forget_deadlines (snd (KeepAliveLease now' lid (forget_deadlines ds)))"
  "fst (KeepAliveLease now lid ds) = fst (KeepAliveLease now' lid (forget_deadlines ds))"
  by (auto simp: KeepAliveLease_def forget_deadlines_def fmmap_upd split: option.splits)

lemma forget_revoke:
  "forget_deadlines (snd (RevokeLease ro lid ds)) = snd (RevokeLease ro' lid (forget_deadlines ds))"
  "set (fst (RevokeLease ro lid ds)) = set (fst (RevokeLease ro' lid (forget_deadlines ds)))"
  by (auto simp: RevokeLease_def forget_deadlines_def Let_def split: option.splits)

lemma lookup_mark_deleted:
  "fmlookup (mark_deleted ks pairs) k = (if k \<in> set ks then Some '''' else fmlookup pairs k)"
  unfolding mark_deleted_def by (induction ks arbitrary: pairs) auto

lemma mark_deleted_cong: "set ks = set ls \<Longrightarrow> mark_deleted ks pairs = mark_deleted ls pairs"
  by (rule fmap_ext) (simp add: lookup_mark_deleted)

lemma forget_expire_loop:
  "forget_deadlines (snd (expire_loop ro lids pairs ds)) =
     snd (expire_loop ro' lids pairs (forget_deadlines ds)) \<and>
   fst (expire_loop ro lids pairs ds) = fst (expire_loop ro' lids pairs (forget_deadlines ds))"
proof (induction lids arbitrary: pairs ds)
  case (Cons lid lids)
  obtain ks t where r: "RevokeLease ro lid ds = (ks, t)" by (cases "RevokeLease ro lid ds")
  obtain ks' t' where r': "RevokeLease ro' lid (forget_deadlines ds) = (ks', t')"
    by (cases "RevokeLease ro' lid (forget_deadlines ds)")
  have "t' = forget_deadlines t" "set ks = set ks'"
    using forget_revoke [of ro lid ds ro'] by (simp_all add: r r')
  with Cons.IH mark_deleted_cong [of ks ks' pairs] show ?case by (simp add: r r')
qed simp

lemma forget_exec_get: "exec_get cmd (forget_deadlines ds) = exec_get cmd ds"
  by (simp add: exec_get_def Get_def)

lemma listing_cong:
  assumes "data ds = data ds'"
  shows "List ro pre ds = List ro' pre ds'"
    and "0 < limit \<Longrightarrow> ListPaged ro pre limit a ds = ListPaged ro' pre limit a ds'"
  by (simp_all only: List_eq ListPaged_eq page_keys_def assms)

lemma forget_exec_list: "exec_list ro' cmd (forget_deadlines ds) = exec_list ro cmd ds"
proof -
  have d: "data (forget_deadlines ds) = data ds" by simp
  show ?thesis
    by (cases "0 < Command.Limit cmd")
      (simp_all only: exec_list_def if_True if_False listing_cong(1) [OF d, of ro' _ ro]
        listing_cong(2) [OF d, of _ ro' _ _ ro])
qed

lemma forget_execute_duplicate:
  "execute_duplicate ro' cmd (forget_deadlines ds) = execute_duplicate ro cmd ds"
  by (simp add: execute_duplicate_def forget_exec_get forget_exec_list [of ro' _ _ ro])

lemma forget_execute:
  "rel_outcome (\<lambda>ds' ds''. forget_deadlines ds' = forget_deadlines ds'') (=)
     (execute ro now cmd ds) (execute ro' now' cmd (forget_deadlines ds))"
proof -
  note ops = Put_def Append_def CAS_def with_result_eq forget_put forget_append forget_cas forget_Txn
    forget_exec_get forget_exec_list [of ro' _ _ ro]
  have [simp]: "forget_deadlines (forget_deadlines t) = forget_deadlines t" for t
    by (simp add: forget_deadlines_def)
  show ?thesis
  proof (cases "Kind cmd")
    case CommandLeaseGrant
    then show ?thesis
      using forget_grant [of now "LeaseTTL cmd" ds now'] by (auto simp: execute_def split: prod.splits)
  next
    case CommandLeaseKeepAlive
    then show ?thesis
      using forget_keepalive [of now "Command.LeaseID cmd" ds now']
      by (auto simp: execute_def split: prod.splits)
  next
    case CommandLeaseRevoke
    then show ?thesis
      using forget_revoke [of ro "Command.LeaseID cmd" ds ro']
      by (auto simp: execute_def split: prod.splits dest: mark_deleted_cong [of _ _ fmempty])
  next
    case CommandLeaseExpiry
    then show ?thesis
      using forget_expire_loop [of ro "LeaseIDs cmd" "ResultPairs cmd" ds ro']
      by (auto simp: execute_def split: prod.splits)
  next
    case CommandTxn
    then show ?thesis
      by (auto simp: execute_def ops split: prod.splits option.splits)
  qed (simp_all add: execute_def ops)
qed

lemma machine_step_view:
  "replicated_view (fst (machine_step ro now cmd m)) =
     replicated_view (fst (machine_step ro' now' cmd (replicated_view m)))"
  "snd (machine_step ro now cmd m) = snd (machine_step ro' now' cmd (replicated_view m))"
proof -
  have idem: "forget_deadlines (forget_deadlines t) = forget_deadlines t" for t
    by (simp add: forget_deadlines_def)
  note x = forget_execute [of ro now cmd "m_ds m" ro' now']
  note d = forget_execute_duplicate [of ro' cmd "m_ds m" ro]
  have "replicated_view (fst (machine_step ro now cmd m)) =
      replicated_view (fst (machine_step ro' now' cmd (replicated_view m))) \<and>
    snd (machine_step ro now cmd m) = snd (machine_step ro' now' cmd (replicated_view m))"
  proof (cases "m_duplicate cmd (m_last m)")
    case True
    then show ?thesis
      by (simp add: machine_step_def replicated_view_def idem d)
  next
    case False
    from x show ?thesis
      by (cases rule: outcome.rel_cases)
        (use False in \<open>simp_all add: machine_step_def replicated_view_def idem\<close>)
  qed
  then show "replicated_view (fst (machine_step ro now cmd m)) =
      replicated_view (fst (machine_step ro' now' cmd (replicated_view m)))"
    "snd (machine_step ro now cmd m) = snd (machine_step ro' now' cmd (replicated_view m))"
    by blast+
qed

interpretation zodiac: deterministic_up_to "\<lambda>(ro, now). machine_step ro now" replicated_view
proof
  fix m n :: machine and e e' :: "string map_order \<times> time" and c
  assume v: "replicated_view m = replicated_view n"
  obtain ro now ro' now' where e: "e = (ro, now)" "e' = (ro', now')"
    by (cases e, cases e')
  note a = machine_step_view [of ro now c m ascending 0] and b = machine_step_view [of ro' now' c n ascending 0]
  show "replicated_view (fst ((case e of (ro, now) \<Rightarrow> machine_step ro now) c m)) =
      replicated_view (fst ((case e' of (ro, now) \<Rightarrow> machine_step ro now) c n)) \<and>
    snd ((case e of (ro, now) \<Rightarrow> machine_step ro now) c m) =
      snd ((case e' of (ro, now) \<Rightarrow> machine_step ro now) c n)"
    unfolding e prod.case a b v by blast
qed

subsection \<open>Applying a log to the service\<close>

text \<open>
  The commands of a log as the updater hands them to \<open>handleCommand\<close>, one after the other; each
  with the environment it meets on this replica, and with its index and term.
\<close>

type_synonym env = "string map_order \<times> time"

fun apply_entries :: "(env \<times> Command \<times> int \<times> int) list \<Rightarrow> KVService \<Rightarrow> (KVService, Command list) outcome" where
  "apply_entries [] s = Returns s []"
| "apply_entries ((e, cmd, index, trm) # es) s =
     and_then (handleCommand (fst e) (snd e) cmd index trm s) (\<lambda>s c.
     and_then (apply_entries es s) (\<lambda>s cs. Returns s (c # cs)))"

definition lease_room :: "Command list \<Rightarrow> DataStore \<Rightarrow> bool" where
  "lease_room cs ds \<longleftrightarrow>
     sint (leaseIDSeq ds) + int (length (filter (\<lambda>c. Kind c = CommandLeaseGrant) cs)) \<le> maxInt64"

abbreviation zstep :: "env \<Rightarrow> Command \<Rightarrow> machine \<Rightarrow> machine \<times> Command" where
  "zstep \<equiv> \<lambda>(ro, now). machine_step ro now"

abbreviation log_of :: "(env \<times> Command \<times> int \<times> int) list \<Rightarrow> (env \<times> Command) list" where
  "log_of es \<equiv> map (\<lambda>x. (fst x, fst (snd x))) es"

lemma attach_seq [simp]: "leaseIDSeq (attachKeyToLease k i ds) = leaseIDSeq ds"
  by (simp add: attachKeyToLease_def Let_def split: option.splits)

lemma locked_ops_seq [simp]:
  "leaseIDSeq (snd (putLocked k v lid ds)) = leaseIDSeq ds"
  "leaseIDSeq (snd (appendLocked k v ds)) = leaseIDSeq ds"
  "leaseIDSeq (snd (casLocked k c v ds)) = leaseIDSeq ds"
  "leaseIDSeq (snd (deleteLocked k ds)) = leaseIDSeq ds"
  by (simp_all add: putLocked_def appendLocked_def casLocked_def deleteLocked_def Let_def split: prod.splits)

lemma txn_op_seq: "txn_op op ds = (r, t) \<Longrightarrow> leaseIDSeq t = leaseIDSeq ds"
  by (auto simp: txn_op_def split: prod.splits TxnOpType.splits
      dest!: arg_cong [where f = "\<lambda>x. leaseIDSeq (snd x)"])

lemma txn_ops_seq: "txn_ops ops ds = (rs, t) \<Longrightarrow> leaseIDSeq t = leaseIDSeq ds"
  by (induction ops arbitrary: ds rs t) (auto dest: txn_op_seq split: prod.splits)

lemma revoke_seq: "leaseIDSeq (snd (RevokeLease ro lid ds)) = leaseIDSeq ds"
  by (simp add: RevokeLease_def Let_def split: option.splits)

lemma expire_loop_seq: "leaseIDSeq (snd (expire_loop ro lids p ds)) = leaseIDSeq ds"
proof (induction lids arbitrary: p ds)
  case (Cons lid lids)
  then show ?case
    by (cases "RevokeLease ro lid ds") (use revoke_seq [of ro lid ds] in simp)
qed simp

lemma execute_seq:
  assumes "execute ro now cmd ds = Returns ds' cmd'"
  shows "leaseIDSeq ds' = (if Kind cmd = CommandLeaseGrant then leaseIDSeq ds + 1 else leaseIDSeq ds)"
proof (cases "Kind cmd")
  case CommandTxn
  obtain td ok rs where "TxnField cmd = Some td"
    "Txn (TxnData.Conditions td) (TxnData.Success td) (TxnData.Failure td) ds = ((ok, rs), ds')"
    "cmd' = cmd\<lparr>TxnResult := Some \<lparr>TxnApplyResult.Succeeded = ok, Results = rs\<rparr>\<rparr>"
    by (rule execute_Txn [OF CommandTxn assms])
  with CommandTxn show ?thesis
    by (auto simp: Txn_def Let_def dest: txn_ops_seq split: prod.splits if_splits)
next
  case CommandLeaseRevoke
  then show ?thesis
    using assms revoke_seq [of ro "Command.LeaseID cmd" ds] by (auto simp: execute_def split: prod.splits)
next
  case CommandLeaseExpiry
  then show ?thesis
    using assms expire_loop_seq [of ro "LeaseIDs cmd" "ResultPairs cmd" ds]
    by (auto simp: execute_def split: prod.splits)
next
  case CommandLeaseKeepAlive
  then show ?thesis
    using assms by (auto simp: execute_def KeepAliveLease_def split: prod.splits option.splits)
qed (use assms in \<open>auto simp: execute_def with_result_eq Put_def Append_def CAS_def GrantLease_def Let_def\<close>)

lemma lease_room_step:
  assumes room: "lease_room (cmd # cs) (m_ds m)" and sub: "submitted cmd"
    and step: "machine_step ro now cmd m = (m', cmd')"
  shows "lease_room cs (m_ds m')" and "Kind cmd = CommandLeaseGrant \<Longrightarrow> lease_ids_left (m_ds m)"
proof -
  show left: "lease_ids_left (m_ds m)" if "Kind cmd = CommandLeaseGrant"
    using room that by (simp add: lease_room_def lease_ids_left_def)
  obtain ds' c where x: "execute ro now cmd (m_ds m) = Returns ds' c"
    using execute_returns [OF sub] by blast
  show "lease_room cs (m_ds m')"
  proof (cases "m_duplicate cmd (m_last m)")
    case True
    with step room show ?thesis
      by (auto simp: machine_step_def lease_room_def split: if_splits)
  next
    case False
    with step x have "m_ds m' = ds'" by (auto simp: machine_step_def)
    with execute_seq [OF x] room left show ?thesis
      by (auto simp: lease_room_def lease_ids_left_def sint64_inc split: if_splits)
  qed
qed

lemma apply_entries_run:
  assumes "kv_wf s" and "\<forall>x \<in> set es. submitted (fst (snd x))"
    and "lease_room (map snd (log_of es)) (dstore s)"
  shows "\<exists>s'. apply_entries es s = Returns s' (snd (run_log zstep (log_of es) (machine_of s))) \<and>
    machine_of s' = fst (run_log zstep (log_of es) (machine_of s)) \<and> kv_wf s'"
  using assms
proof (induction es arbitrary: s)
  case Nil
  then show ?case by simp
next
  case (Cons x es)
  obtain ro now cmd i t where x: "x = ((ro, now), cmd, i, t)" by (cases x) auto
  obtain m' cmd' where ms: "machine_step ro now cmd (machine_of s) = (m', cmd')"
    by (cases "machine_step ro now cmd (machine_of s)")
  have sub: "submitted cmd" using Cons.prems(2) x by auto
  have room: "lease_room (cmd # map snd (log_of es)) (m_ds (machine_of s))"
    using Cons.prems(3) x by simp
  obtain ev where h: "handleCommand ro now cmd i t s = Returns (committed ro i t m' cmd' ev s) cmd'"
    using handleCommand_eq [OF Cons.prems(1) sub ms] by blast
  have "ds_wf (m_ds m')"
    using machine_step_wf [OF _ sub _ ms] lease_room_step(2) [OF room sub ms] Cons.prems(1)
    by (simp add: kv_wf_def)
  then have wf: "kv_wf (committed ro i t m' cmd' ev s)"
    by (rule kv_wf_committed [OF Cons.prems(1)])
  have "\<forall>x \<in> set es. submitted (fst (snd x))"
    using Cons.prems(2) by simp
  moreover have "lease_room (map snd (log_of es)) (dstore (committed ro i t m' cmd' ev s))"
    using lease_room_step(1) [OF room sub ms] by simp
  ultimately show ?case
    using Cons.IH [OF wf] by (auto simp: x h ms split: prod.splits)
qed

abbreviation commands :: "(env \<times> Command \<times> int \<times> int) list \<Rightarrow> Command list" where
  "commands es \<equiv> map (\<lambda>x. fst (snd x)) es"

lemma commands_log_of: "map snd (log_of es) = commands es"
  by (induction es) auto

lemma submitted_commands: "(\<forall>x \<in> set es. submitted (fst (snd x))) \<longleftrightarrow> list_all submitted (commands es)"
  by (auto simp: list_all_iff)

lemma apply_entries_total:
  assumes "kv_wf s" and "list_all submitted (commands es)" and "lease_room (commands es) (dstore s)"
  obtains s' where "apply_entries es s = Returns s' (snd (run_log zstep (log_of es) (machine_of s)))"
    and "machine_of s' = fst (run_log zstep (log_of es) (machine_of s))" and "kv_wf s'"
  using apply_entries_run [OF assms(1), of es] assms(2,3)
  unfolding commands_log_of submitted_commands by blast

lemma replicated_view_seq:
  "replicated_view m = replicated_view n \<Longrightarrow> leaseIDSeq (m_ds m) = leaseIDSeq (m_ds n)"
  by (cases m, cases n) (auto simp: replicated_view_def dest!: arg_cong [where f = leaseIDSeq])

lemma entries_converge:
  assumes wf: "kv_wf s" "kv_wf t" and view: "replicated_view (machine_of s) = replicated_view (machine_of t)"
    and log: "commands es = commands fs" and sub: "list_all submitted (commands es)"
    and room: "lease_room (commands es) (dstore s)"
  shows "\<exists>s' t' rs. apply_entries es s = Returns s' rs \<and> apply_entries fs t = Returns t' rs \<and>
    replicated_view (machine_of s') = replicated_view (machine_of t') \<and> kv_wf s' \<and> kv_wf t'"
proof -
  have room': "lease_room (commands fs) (dstore t)" and sub': "list_all submitted (commands fs)"
    using room sub replicated_view_seq [OF view] by (simp_all add: lease_room_def log)
  obtain s' where s': "apply_entries es s = Returns s' (snd (run_log zstep (log_of es) (machine_of s)))"
    "machine_of s' = fst (run_log zstep (log_of es) (machine_of s))" "kv_wf s'"
    using apply_entries_total [OF wf(1) sub room] .
  obtain t' where t': "apply_entries fs t = Returns t' (snd (run_log zstep (log_of fs) (machine_of t)))"
    "machine_of t' = fst (run_log zstep (log_of fs) (machine_of t))" "kv_wf t'"
    using apply_entries_total [OF wf(2) sub' room'] .
  have "map snd (log_of es) = map snd (log_of fs)"
    using log by (simp only: commands_log_of)
  from zodiac.run_view [OF this view] show ?thesis
    using s' t' by auto
qed

subsection \<open>Repeated requests\<close>

fun fresh_log :: "(int64, int64) fmap \<Rightarrow> ('e \<times> Command) list \<Rightarrow> ('e \<times> Command) list" where
  "fresh_log tab [] = []"
| "fresh_log tab ((e, c) # xs) =
     (if m_duplicate c tab then fresh_log tab xs else (e, c) # fresh_log (m_record c tab) xs)"

definition raw_step :: "env \<Rightarrow> Command \<Rightarrow> DataStore \<times> int64 \<Rightarrow> DataStore \<times> int64" where
  "raw_step e c x =
     (outcome_state (execute (fst e) (snd e) c (fst x)), m_bump (Kind c) (snd x))"

definition stored :: "machine \<Rightarrow> DataStore \<times> int64" where
  "stored m = (m_ds m, m_rev m)"

lemma machine_step_dup: "m_duplicate c (m_last m) \<Longrightarrow> fst (machine_step ro now c m) = m"
  by (simp add: machine_step_def)

lemma machine_step_fresh:
  assumes "\<not> m_duplicate c (m_last m)" and "submitted c"
  shows "stored (fst (machine_step ro now c m)) = raw_step (ro, now) c (stored m)"
    and "m_last (fst (machine_step ro now c m)) = m_record c (m_last m)"
proof -
  obtain ds' c' where "execute ro now c (m_ds m) = Returns ds' c'"
    using execute_returns [OF assms(2)] by blast
  with assms(1) show "stored (fst (machine_step ro now c m)) = raw_step (ro, now) c (stored m)"
    "m_last (fst (machine_step ro now c m)) = m_record c (m_last m)"
    by (simp_all add: machine_step_def stored_def raw_step_def)
qed

lemma run_fresh_log:
  assumes "list_all submitted (map snd xs)"
  shows "stored (fst (run_log zstep xs m)) = fold (\<lambda>(e, c). raw_step e c) (fresh_log (m_last m) xs) (stored m)"
  using assms
proof (induction xs arbitrary: m)
  case Nil
  then show ?case by simp
next
  case (Cons x xs)
  obtain ro now c where x: "x = ((ro, now), c)" by (cases x) auto
  show ?case
  proof (cases "m_duplicate c (m_last m)")
    case True
    with Cons show ?thesis
      unfolding x run_log_Cons by (simp add: machine_step_dup)
  next
    case False
    with Cons.prems have "submitted c" by (simp add: x)
    with False Cons show ?thesis
      unfolding x run_log_Cons by (simp add: machine_step_fresh [OF False])
  qed
qed

text \<open>Whatever is in the table for a client is an upper bound of the ids it has had applied.\<close>

lemma fresh_log_above:
  assumes "fmlookup tab cl = Some r" and "cl \<noteq> 0" and "(e, c) \<in> set (fresh_log tab xs)"
    and "Command.ClientID c = cl"
  shows "r <s Command.RequestID c"
  using assms
proof (induction tab xs arbitrary: r rule: fresh_log.induct)
  case (2 tab e' d xs)
  show ?case
  proof (cases "m_duplicate d tab")
    case True
    with 2 show ?thesis by simp
  next
    case fresh: False
    show ?thesis
    proof (cases "Command.ClientID d = cl")
      case True
      with fresh 2(3,4) have lt: "r <s Command.RequestID d"
        by (simp add: m_duplicate_def word_sle_eq word_sless_alt)
      show ?thesis
      proof (cases "c = d")
        case False
        with 2(5) fresh have "(e, c) \<in> set (fresh_log (m_record d tab) xs)" by auto
        with 2(2) [OF fresh] True 2(4,6) have "Command.RequestID d <s Command.RequestID c"
          by (simp add: m_record_def)
        with lt show ?thesis by (simp add: word_sless_alt)
      qed (use lt in simp)
    next
      case False
      with 2(5,6) fresh have "(e, c) \<in> set (fresh_log (m_record d tab) xs)" by auto
      with 2(2) [OF fresh] False 2(3,4,6) show ?thesis
        by (simp add: m_record_def)
    qed
  qed
qed simp

lemma fresh_log_increasing:
  assumes "cl \<noteq> 0"
  shows "sorted_wrt (<s) (map (Command.RequestID \<circ> snd)
    (filter (\<lambda>x. Command.ClientID (snd x) = cl) (fresh_log tab xs)))"
proof (induction tab xs rule: fresh_log.induct)
  case (2 tab e c xs)
  show ?case
  proof (cases "m_duplicate c tab")
    case True
    with 2 show ?thesis by simp
  next
    case False
    have "Command.RequestID c <s Command.RequestID (snd y)"
      if "y \<in> set (fresh_log (m_record c tab) xs)" "Command.ClientID (snd y) = cl" "Command.ClientID c = cl" for y
      using that assms fresh_log_above [of "m_record c tab" cl "Command.RequestID c" "fst y" "snd y" xs]
      by (simp add: m_record_def)
    with False 2(2) show ?thesis by auto
  qed
qed simp

lemma machine_step_last:
  assumes "submitted c"
  shows "m_last (fst (machine_step ro now c m)) =
    (if m_duplicate c (m_last m) then m_last m else m_record c (m_last m))"
  using assms machine_step_dup machine_step_fresh(2) by simp

lemma m_record_mono:
  assumes "\<not> m_duplicate c tab" and "fmlookup tab cl = Some r"
  shows "\<exists>r'. fmlookup (m_record c tab) cl = Some r' \<and> r <=s r'"
  using assms by (auto simp: m_record_def m_duplicate_def word_sle_eq)

lemma run_last_mono:
  assumes "list_all submitted (map snd xs)" and "fmlookup (m_last m) cl = Some r"
  shows "\<exists>r'. fmlookup (m_last (fst (run_log zstep xs m))) cl = Some r' \<and> r <=s r'"
  using assms
proof (induction xs arbitrary: m r)
  case Nil
  then show ?case by simp
next
  case (Cons x xs)
  obtain ro now c where x: "x = ((ro, now), c)" by (cases x) auto
  have "submitted c" using Cons.prems(1) by (simp add: x)
  then obtain r' where "fmlookup (m_last (fst (machine_step ro now c m))) cl = Some r'" "r <=s r'"
    using m_record_mono [of c "m_last m" cl r] Cons.prems(2)
    by (cases "m_duplicate c (m_last m)") (auto simp: machine_step_last)
  with Cons show ?case
    unfolding x run_log_Cons by (fastforce simp: word_sle_eq)
qed

lemma run_last_covers:
  assumes "list_all submitted (map snd xs)" and "(e, c) \<in> set xs" and "Command.ClientID c \<noteq> 0"
  shows "\<exists>r. fmlookup (m_last (fst (run_log zstep xs m))) (Command.ClientID c) = Some r \<and>
    Command.RequestID c <=s r"
  using assms(1,2)
proof (induction xs arbitrary: m)
  case Nil
  then show ?case by simp
next
  case (Cons x xs)
  obtain ro now d where x: "x = ((ro, now), d)" by (cases x) auto
  show ?case
  proof (cases "(e, c) = x")
    case False
    with Cons.prems have "(e, c) \<in> set xs" "list_all submitted (map snd xs)" by auto
    with Cons.IH show ?thesis
      unfolding x run_log_Cons by blast
  next
    case True
    with Cons.prems(1) have d: "d = c" "submitted c" by (auto simp: x)
    then obtain r where "fmlookup (m_last (fst (machine_step ro now c m))) (Command.ClientID c) = Some r"
      "Command.RequestID c <=s r"
      using assms(3) by (cases "m_duplicate c (m_last m)")
        (auto simp: machine_step_last m_record_def m_duplicate_def split: option.splits)
    moreover have "list_all submitted (map snd xs)" using Cons.prems(1) by simp
    ultimately show ?thesis
      using run_last_mono [of xs "fst (machine_step ro now c m)"]
      unfolding x run_log_Cons by (fastforce simp: d word_sle_eq)
  qed
qed


subsection \<open>Properties of a replica\<close>

definition put_k :: "string \<Rightarrow> int64 \<Rightarrow> Command" where
  "put_k v r = (zeroCommand CommandPut)\<lparr>Command.Key := ''k'', Value := v, ClientID := 7, RequestID := r\<rparr>"

definition grant_60 :: Command where
  "grant_60 = (zeroCommand CommandLeaseGrant)\<lparr>LeaseTTL := 60\<rparr>"

lemma sample_commands [simp]: "submitted (put_k v r)" "submitted grant_60"
  "Kind (put_k v r) = CommandPut" "Kind grant_60 = CommandLeaseGrant"
  "Command.ClientID (put_k v r) = 7" "Command.RequestID (put_k v r) = r" "Command.ClientID grant_60 = 0"
  "Command.Key (put_k v r) = ''k''" "Command.Value (put_k v r) = v" "Command.LeaseID (put_k v r) = 0"
  by (simp_all add: submitted_def put_k_def grant_60_def zeroCommand_def)

lemma New_simps [simp]:
  "dstore (New i ps) = NewDataStore" "leaseIDSeq NewDataStore = 0"
  "machine_of (New i ps) = \<lparr>m_ds = NewDataStore, m_last = fmempty, m_rev = 0\<rparr>"
  "lastSnapshotIndex (New i ps) = - 1" "installed (New i ps) = []" "commitSubs (New i ps) = fmempty"
  "lastRequestIDPerClient (New i ps) = fmempty" "currentRevision (New i ps) = 0"
  "service_id (New i ps) = i" "locked (New i ps) = False"
  by (simp_all add: New_def NewDataStore_def machine_of_def)

text \<open>
  C2: replicas converge. Two replicas in the same visible state (the store, its leases without
  their deadlines, the deduplication table and the revision) that apply the same committed
  commands, each with its own clock, map iteration orders, waiting handlers and watchers, both
  get through the whole log without a panic or a wait, give every command the same answer, and end
  in the same visible state with their invariants intact.
\<close>
theorem replicas_converge:
  assumes "kv_wf s" and "kv_wf t"
    and "replicated_view (machine_of s) = replicated_view (machine_of t)"
    and "commands es = commands fs" and "list_all submitted (commands es)"
    and "lease_room (commands es) (dstore s)"
  shows "\<exists>s' t' rs. apply_entries es s = Returns s' rs \<and> apply_entries fs t = Returns t' rs \<and>
    replicated_view (machine_of s') = replicated_view (machine_of t') \<and> kv_wf s' \<and> kv_wf t'"
  using assms by (rule entries_converge)

theorem replicas_converge_witness:
  "\<exists>s' t' rs.
     apply_entries [((ascending, 5), grant_60, 0, 1), ((ascending, 6), put_k ''v'' 1, 1, 1)] (New 0 [1]) = Returns s' rs \<and>
     apply_entries [((ascending, 90), grant_60, 0, 1), ((ascending, 95), put_k ''v'' 1, 1, 1)] (New 1 [0]) = Returns t' rs \<and>
     replicated_view (machine_of s') = replicated_view (machine_of t') \<and> kv_wf s' \<and> kv_wf t'"
  by (rule replicas_converge) (simp_all add: kv_wf_New lease_room_def)

text \<open>
  C3: every request takes effect at most once. What a replica stores after a log is what executing
  the log without its repeated requests gives, with no deduplication involved; and among the
  requests executed for one client the request ids strictly increase, so no request of a client
  is executed twice.
\<close>
theorem requests_take_effect_at_most_once:
  assumes "kv_wf s" and "list_all submitted (commands es)" and "lease_room (commands es) (dstore s)"
  shows "\<exists>s' rs. apply_entries es s = Returns s' rs \<and>
    stored (machine_of s') =
      fold (\<lambda>(e, c). raw_step e c) (fresh_log (lastRequestIDPerClient s) (log_of es)) (stored (machine_of s)) \<and>
    (\<forall>cl. cl = 0 \<or> sorted_wrt (<s) (map (Command.RequestID \<circ> snd)
      (filter (\<lambda>x. Command.ClientID (snd x) = cl) (fresh_log (lastRequestIDPerClient s) (log_of es)))))"
proof -
  obtain s' where s': "apply_entries es s = Returns s' (snd (run_log zstep (log_of es) (machine_of s)))"
    "machine_of s' = fst (run_log zstep (log_of es) (machine_of s))"
    using apply_entries_total [OF assms] .
  have "list_all submitted (map snd (log_of es))"
    using assms(2) by (simp only: commands_log_of)
  from run_fresh_log [OF this, of "machine_of s"] s' fresh_log_increasing show ?thesis
    by (intro exI [of _ s'] exI conjI) auto
qed

theorem requests_take_effect_at_most_once_witness:
  "\<exists>s' rs. apply_entries [((ascending, 5), put_k ''v'' 1, 0, 1), ((ascending, 6), put_k ''v'' 1, 1, 1)] (New 0 []) = Returns s' rs \<and>
    stored (machine_of s') = raw_step (ascending, 5) (put_k ''v'' 1) (NewDataStore, 0)"
  using requests_take_effect_at_most_once [OF kv_wf_New, of
      "[((ascending, 5), put_k ''v'' 1, 0, 1), ((ascending, 6), put_k ''v'' 1, 1, 1)]" 0 "[]"]
  by (simp add: lease_room_def m_duplicate_def m_record_def stored_def del: apply_entries.simps) blast

lemma apply_entries_append:
  "apply_entries (es @ fs) s =
     and_then (apply_entries es s) (\<lambda>s rs. and_then (apply_entries fs s) (\<lambda>s qs. Returns s (rs @ qs)))"
proof (induction es arbitrary: s)
  case Nil
  show ?case by (cases "apply_entries fs s") simp_all
next
  case (Cons x es)
  obtain e cmd i t where x: "x = (e, cmd, i, t)" by (cases x) auto
  show ?case
  proof (cases "handleCommand (fst e) (snd e) cmd i t s")
    case (Returns s1 c)
    then show ?thesis
      using Cons.IH [of s1] x
      by (cases "apply_entries es s1"; cases "apply_entries fs (outcome_state (apply_entries es s1))") auto
  qed (simp_all add: x)
qed

text \<open>
  A retried or overtaken request changes nothing. Once a request of a client has gone through
  the log, a later command of that client with the same or a smaller request id leaves the store,
  the deduplication table and the revision as they are, and is answered as a duplicate. The test
  is on the largest id only, so this also hits a command that was never executed: a request that
  a later request of the same client has overtaken.
\<close>
lemma retry_changes_nothing:
  assumes "kv_wf s" and "list_all submitted (commands es)" and "lease_room (commands es) (dstore s)"
    and "d \<in> set (commands es)" and "Command.ClientID d \<noteq> 0"
    and "submitted c" and "Command.ClientID c = Command.ClientID d"
    and "Command.RequestID c <=s Command.RequestID d"
  shows "\<exists>s1 s2 rs r. apply_entries es s = Returns s1 rs \<and>
    apply_entries (es @ [((ro, now), c, i, t)]) s = Returns s2 (rs @ [r]) \<and>
    machine_of s2 = machine_of s1 \<and> IsDuplicate r \<and> kv_wf s2"
proof -
  let ?m = "fst (run_log zstep (log_of es) (machine_of s))"
  obtain s1 where s1: "apply_entries es s = Returns s1 (snd (run_log zstep (log_of es) (machine_of s)))"
    "machine_of s1 = ?m" "kv_wf s1"
    using apply_entries_total [OF assms(1-3)] .
  have "\<exists>e. (e, d) \<in> set (log_of es)"
    using assms(4) by force
  then have dup: "m_duplicate c (m_last (machine_of s1))"
    using run_last_covers [of "log_of es" _ d "machine_of s"] assms(2,5,7,8)
    unfolding commands_log_of s1(2) by (fastforce simp: m_duplicate_def word_sle_eq)
  obtain r where step: "machine_step ro now c (machine_of s1) = (machine_of s1, r)"
    using machine_step_dup [OF dup, of ro now] by (cases "machine_step ro now c (machine_of s1)") auto
  obtain ev where "handleCommand ro now c i t s1 = Returns (committed ro i t (machine_of s1) r ev s1) r"
    using handleCommand_eq [OF s1(3) assms(6) step] by blast
  moreover have "IsDuplicate r"
    using machine_step_IsDuplicate(1) [OF assms(6) step] dup by blast
  moreover have "kv_wf (committed ro i t (machine_of s1) r ev s1)"
    using s1(3) by (intro kv_wf_committed) (simp_all add: kv_wf_def)
  ultimately show ?thesis
    using s1(1) by (simp add: apply_entries_append)
qed

lemma retry_changes_nothing_witness:
  "\<exists>s1 s2 rs r. apply_entries [((ascending, 5), put_k ''new'' 2, 0, 1)] (New 0 []) = Returns s1 rs \<and>
    apply_entries ([((ascending, 5), put_k ''new'' 2, 0, 1)] @ [((ascending, 6), put_k ''old'' 1, 1, 1)]) (New 0 []) =
      Returns s2 (rs @ [r]) \<and>
    machine_of s2 = machine_of s1 \<and> IsDuplicate r \<and> kv_wf s2"
  by (rule retry_changes_nothing [where d = "put_k ''new'' 2"])
    (simp_all add: kv_wf_New lease_room_def word_sle_eq)



lemma lease_room_run:
  assumes "kv_wf s" and "list_all submitted (commands (es @ fs))"
    and "lease_room (commands (es @ fs)) (dstore s)" and "apply_entries es s = Returns s1 rs"
  shows "lease_room (commands fs) (dstore s1)"
  using assms
proof (induction es arbitrary: s rs)
  case Nil
  then show ?case by simp
next
  case (Cons x es)
  obtain ro now cmd i t where x: "x = ((ro, now), cmd, i, t)" by (cases x) auto
  obtain m' cmd' where ms: "machine_step ro now cmd (machine_of s) = (m', cmd')"
    by (cases "machine_step ro now cmd (machine_of s)")
  have sub: "submitted cmd" and room: "lease_room (cmd # commands (es @ fs)) (m_ds (machine_of s))"
    using Cons.prems(2,3) x by simp_all
  obtain ev where h: "handleCommand ro now cmd i t s = Returns (committed ro i t m' cmd' ev s) cmd'"
    using handleCommand_eq [OF Cons.prems(1) sub ms] by blast
  have "ds_wf (m_ds m')"
    using machine_step_wf [OF _ sub _ ms] lease_room_step(2) [OF room sub ms] Cons.prems(1)
    by (simp add: kv_wf_def)
  from kv_wf_committed [OF Cons.prems(1) this] show ?case
    using Cons.IH [of "committed ro i t m' cmd' ev s"] Cons.prems(2,4) lease_room_step(1) [OF room sub ms] h
    by (auto simp: x and_then_Returns)
qed

end
