(* ===== verification/Refinement.thy ===== *)
theory Refinement
  imports Replica
begin

text \<open>
  The service as its clients may think of it: one map from keys to a value and an owning lease, a
  set of live leases and a counter, on which the commands of the log act one after the other.
  \<open>spec_execute\<close> is that specification, with no maps from leases to keys, no attach and detach, and
  no paging; \<open>command_refines_spec\<close> shows that \<open>execute\<close>, the switch of \<open>handleCommand\<close>,
  implements it, answers included.
\<close>

record service_spec =
  sp_store :: store_spec
  sp_leases :: int64

definition service_abs :: "DataStore \<Rightarrow> service_spec" where
  "service_abs ds = \<lparr>sp_store = ds_abs ds, sp_leases = leaseIDSeq ds\<rparr>"

subsection \<open>Conditions\<close>

text \<open>Numbers compare as numbers when both sides are numerals, everything else as strings.\<close>

definition at_most :: "string \<Rightarrow> string \<Rightarrow> bool" where
  "at_most v w \<longleftrightarrow>
     (if snd (ParseInt v) = None \<and> snd (ParseInt w) = None
      then sint (fst (ParseInt v)) \<le> sint (fst (ParseInt w)) else v \<le> w)"

definition spec_condition :: "store_spec \<Rightarrow> TxnCondition \<Rightarrow> bool" where
  "spec_condition s c =
     (let v = map_option fst (entries s (TxnCondition.Key c)); w = TxnCondition.Value c
      in case TxnCondition.Compare c of
           CompareEQ \<Rightarrow> v = Some w
         | CompareNEQ \<Rightarrow> v \<noteq> Some w
         | CompareGTE \<Rightarrow> (\<exists>x. v = Some x \<and> at_most w x)
         | CompareLTE \<Rightarrow> (\<exists>x. v = Some x \<and> at_most x w)
         | CompareExists \<Rightarrow> v \<noteq> None
         | CompareNotExists \<Rightarrow> v = None
         | CompareUnknown _ \<Rightarrow> False)"

lemma at_most_ParseInt:
  "ParseInt v = (i, e) \<Longrightarrow> ParseInt w = (j, f) \<Longrightarrow>
     at_most v w \<longleftrightarrow> (if e \<noteq> None \<or> f \<noteq> None then v \<le> w else i <=s j)"
  by (auto simp: at_most_def word_sle_eq)

lemma evalCondition_spec: "evalCondition ds c \<longleftrightarrow> spec_condition (ds_abs ds) c"
proof -
  obtain i e where v: "ParseInt (TxnCondition.Value c) = (i, e)" by (cases "ParseInt (TxnCondition.Value c)")
  show ?thesis
  proof (cases "fmlookup (data ds) (TxnCondition.Key c)")
    case None
    then show ?thesis
      by (simp add: evalCondition_def spec_condition_def lookup_ok_def Let_def split: CompareOp.splits)
  next
    case (Some x)
    obtain j f where x: "ParseInt x = (j, f)" by (cases "ParseInt x")
    show ?thesis
      by (cases "TxnCondition.Compare c")
        (auto simp: evalCondition_def spec_condition_def lookup_ok_def Let_def Some v x
          at_most_ParseInt [OF v x] at_most_ParseInt [OF x v])
  qed
qed

subsection \<open>Commands\<close>

definition spec_branch :: "TxnData \<Rightarrow> store_spec \<Rightarrow> TxnOp list" where
  "spec_branch td s =
     (if \<forall>c \<in> set (TxnData.Conditions td). spec_condition s c then TxnData.Success td else TxnData.Failure td)"

definition spec_execute :: "Command \<Rightarrow> service_spec \<Rightarrow> service_spec" where
  "spec_execute cmd sp =
     (let upd = (\<lambda>f. sp\<lparr>sp_store := f (sp_store sp)\<rparr>)
      in case Kind cmd of
           CommandPut \<Rightarrow> upd (spec_put (Command.Key cmd) (Command.Value cmd) (Command.LeaseID cmd))
         | CommandAppend \<Rightarrow> upd (spec_append (Command.Key cmd) (Command.Value cmd))
         | CommandCAS \<Rightarrow> upd (spec_cas (Command.Key cmd) (Command.CompareValue cmd) (Command.Value cmd))
         | CommandTxn \<Rightarrow>
             (case TxnField cmd of
                None \<Rightarrow> sp
              | Some td \<Rightarrow> upd (\<lambda>s. fold spec_txn_op (spec_branch td s) s))
         | CommandLeaseGrant \<Rightarrow>
             sp\<lparr>sp_store := spec_grant (sp_leases sp + 1) (sp_store sp), sp_leases := sp_leases sp + 1\<rparr>
         | CommandLeaseRevoke \<Rightarrow> upd (spec_revoke (Command.LeaseID cmd))
         | CommandLeaseExpiry \<Rightarrow> upd (fold spec_revoke (LeaseIDs cmd))
         | _ \<Rightarrow> sp)"

text \<open>Keys that a sequence of revocations removes.\<close>

fun owned_by_any :: "int64 list \<Rightarrow> store_spec \<Rightarrow> string set" where
  "owned_by_any [] s = {}"
| "owned_by_any (lid # lids) s = owned_by lid s \<union> owned_by_any lids (spec_revoke lid s)"

definition spec_answer :: "Command \<Rightarrow> service_spec \<Rightarrow> Command \<Rightarrow> bool" where
  "spec_answer cmd sp cmd' \<longleftrightarrow>
     (let s = sp_store sp; here = (ResultValue cmd', ResultFound cmd') = spec_get (Command.Key cmd) s
      in case Kind cmd of
           CommandGet \<Rightarrow> here
         | CommandPut \<Rightarrow> here
         | CommandAppend \<Rightarrow> here
         | CommandCAS \<Rightarrow> here
         | CommandList \<Rightarrow>
             0 < Command.Limit cmd \<or>
             (\<forall>k. fmlookup (ResultPairs cmd') k =
               (if HasPrefix k (Command.Key cmd) then map_option fst (entries s k) else None))
         | CommandTxn \<Rightarrow>
             (\<exists>td rs. TxnField cmd = Some td \<and>
               TxnResult cmd' = Some \<lparr>TxnApplyResult.Succeeded =
                 (\<forall>c \<in> set (TxnData.Conditions td). spec_condition s c), Results = rs\<rparr> \<and>
               map TxnOpResult.Key rs = map TxnOp.Key (spec_branch td s))
         | CommandLeaseGrant \<Rightarrow> ResultValue cmd' = FormatInt (sp_leases sp + 1) \<and> sp_leases sp + 1 \<notin> live s
         | CommandLeaseKeepAlive \<Rightarrow> ResultFound cmd' \<longleftrightarrow> Command.LeaseID cmd \<in> live s
         | CommandLeaseRevoke \<Rightarrow> fset (fmdom (ResultPairs cmd')) = owned_by (Command.LeaseID cmd) s
         | CommandLeaseExpiry \<Rightarrow>
             fset (fmdom (ResultPairs cmd')) = fset (fmdom (ResultPairs cmd)) \<union> owned_by_any (LeaseIDs cmd) s
         | CommandInvalid \<Rightarrow> False)"

lemma fmdom_mark_deleted [simp]:
  "fset (fmdom (mark_deleted ks pairs)) = set ks \<union> fset (fmdom pairs)"
  by (auto simp: fmlookup_dom_iff lookup_mark_deleted split: if_splits)

lemma expire_loop_spec:
  assumes "ds_wf ds" and "expire_loop ro lids pairs ds = (pairs', t)"
  shows "ds_abs t = fold spec_revoke lids (ds_abs ds) \<and>
    fset (fmdom pairs') = fset (fmdom pairs) \<union> owned_by_any lids (ds_abs ds)"
  using assms
proof (induction lids arbitrary: pairs ds)
  case (Cons lid lids)
  obtain ks u where r: "RevokeLease ro lid ds = (ks, u)" by (cases "RevokeLease ro lid ds")
  have u: "set ks = owned_by lid (ds_abs ds)" "ds_abs u = spec_revoke lid (ds_abs ds)" "ds_wf u"
    using ds_revoke_spec [OF Cons.prems(1) r] by auto
  have "expire_loop ro lids (mark_deleted ks pairs) u = (pairs', t)"
    using Cons.prems(2) r by simp
  from Cons.IH [OF u(3) this] show ?case
    by (auto simp: u)
qed simp

lemma Txn_spec:
  assumes "ds_wf ds" and "Txn (TxnData.Conditions td) (TxnData.Success td) (TxnData.Failure td) ds = ((ok, rs), t)"
  shows "ok \<longleftrightarrow> (\<forall>c \<in> set (TxnData.Conditions td). spec_condition (ds_abs ds) c)"
    and "ds_abs t = fold spec_txn_op (spec_branch td (ds_abs ds)) (ds_abs ds)"
    and "map TxnOpResult.Key rs = map TxnOp.Key (spec_branch td (ds_abs ds))"
proof -
  show ok: "ok \<longleftrightarrow> (\<forall>c \<in> set (TxnData.Conditions td). spec_condition (ds_abs ds) c)"
    using assms(2) by (simp add: Txn_def Let_def conditions_met_iff evalCondition_spec split: prod.splits)
  have "txn_ops (spec_branch td (ds_abs ds)) ds = (rs, t)"
    using assms(2) unfolding spec_branch_def ok [symmetric]
    by (auto simp: Txn_def Let_def split: prod.splits if_splits)
  from ds_txn_ops [OF assms(1) this] show
    "ds_abs t = fold spec_txn_op (spec_branch td (ds_abs ds)) (ds_abs ds)"
    "map TxnOpResult.Key rs = map TxnOp.Key (spec_branch td (ds_abs ds))"
    by auto
qed

lemmas refine_defs = service_abs_def spec_execute_def spec_answer_def Let_def execute_def with_result_eq

lemma execute_lease_refines:
  assumes wf: "ds_wf ds" and kind: "Kind cmd \<in> {CommandLeaseGrant, CommandLeaseKeepAlive, CommandLeaseRevoke, CommandLeaseExpiry}"
    and room: "Kind cmd = CommandLeaseGrant \<Longrightarrow> lease_ids_left ds"
    and x: "execute ro now cmd ds = Returns ds' cmd'"
  shows "service_abs ds' = spec_execute cmd (service_abs ds) \<and> spec_answer cmd (service_abs ds) cmd'"
proof (cases "Kind cmd")
  case CommandLeaseGrant
  then obtain lid where g: "GrantLease now (LeaseTTL cmd) ds = (lid, ds')"
    and c: "cmd' = cmd\<lparr>ResultValue := FormatInt lid\<rparr>"
    using x by (auto simp: execute_def split: prod.splits)
  have "lid = leaseIDSeq ds + 1"
    using g by (simp add: GrantLease_def Let_def)
  then show ?thesis
    using ds_grant(2,4) [OF wf _ g] room [OF CommandLeaseGrant] execute_seq [OF x] CommandLeaseGrant c
    by (simp add: service_abs_def spec_execute_def spec_answer_def lease_ids_left_def Let_def)
next
  case CommandLeaseKeepAlive
  then obtain ok where "KeepAliveLease now (Command.LeaseID cmd) ds = (ok, ds')"
    and "cmd' = cmd\<lparr>ResultFound := ok\<rparr>"
    using x by (auto simp: execute_def split: prod.splits)
  then show ?thesis
    using execute_seq [OF x] ds_keepalive(1,2) [OF wf] CommandLeaseKeepAlive by (simp add: refine_defs)
next
  case CommandLeaseRevoke
  then obtain ks where r: "RevokeLease ro (Command.LeaseID cmd) ds = (ks, ds')"
    and c: "cmd' = cmd\<lparr>ResultPairs := mark_deleted ks fmempty\<rparr>"
    using x by (auto simp: execute_def split: prod.splits)
  show ?thesis
    using ds_revoke_spec [OF wf r] execute_seq [OF x] CommandLeaseRevoke by (simp add: refine_defs c)
next
  case CommandLeaseExpiry
  then obtain ps where r: "expire_loop ro (LeaseIDs cmd) (ResultPairs cmd) ds = (ps, ds')"
    and c: "cmd' = cmd\<lparr>ResultPairs := ps\<rparr>"
    using x by (auto simp: execute_def split: prod.splits)
  show ?thesis
    using expire_loop_spec [OF wf r] execute_seq [OF x] CommandLeaseExpiry by (simp add: refine_defs c)
qed (use kind in simp_all)

lemma execute_value_refines:
  assumes wf: "ds_wf ds" and kind: "Kind cmd \<in> {CommandTxn, CommandList, CommandGet, CommandPut, CommandAppend, CommandCAS}"
    and x: "execute ro now cmd ds = Returns ds' cmd'"
  shows "service_abs ds' = spec_execute cmd (service_abs ds) \<and> spec_answer cmd (service_abs ds) cmd'"
proof (cases "Kind cmd")
  case CommandTxn
  obtain td ok rs where td: "TxnField cmd = Some td"
    and T: "Txn (TxnData.Conditions td) (TxnData.Success td) (TxnData.Failure td) ds = ((ok, rs), ds')"
    and c: "cmd' = cmd\<lparr>TxnResult := Some \<lparr>TxnApplyResult.Succeeded = ok, Results = rs\<rparr>\<rparr>"
    by (rule execute_Txn [OF CommandTxn x])
  show ?thesis
    using Txn_spec [OF wf T] execute_seq [OF x] CommandTxn td by (auto simp: service_abs_def spec_execute_def spec_answer_def Let_def c)
next
  case CommandList
  then show ?thesis
    using x by (auto simp: refine_defs exec_list_def List_eq option.map_comp o_def option.map_ident)
next
  case CommandGet
  then show ?thesis
    using x by (auto simp: refine_defs exec_get_def Get_def ds_get_spec split: prod.splits)
next
  case CommandPut
  then show ?thesis
    using x execute_seq [OF x] ds.put_spec [OF wf, OF surjective_pairing, of "Command.Key cmd" "Command.Value cmd" "Command.LeaseID cmd"]
    by (simp add: refine_defs) auto
next
  case CommandAppend
  then show ?thesis
    using x execute_seq [OF x] ds.app_spec [OF wf, OF surjective_pairing, of "Command.Key cmd" "Command.Value cmd"]
    by (simp add: refine_defs) auto
next
  case CommandCAS
  then show ?thesis
    using x execute_seq [OF x] ds.cas_spec [OF wf, OF surjective_pairing, of "Command.Key cmd" "Command.CompareValue cmd" "Command.Value cmd"]
    by (simp add: refine_defs) auto
qed (use kind in simp_all)

lemma execute_refines_spec:
  assumes "ds_wf ds" and "submitted cmd" and "Kind cmd = CommandLeaseGrant \<Longrightarrow> lease_ids_left ds"
    and "execute ro now cmd ds = Returns ds' cmd'"
  shows "service_abs ds' = spec_execute cmd (service_abs ds) \<and> spec_answer cmd (service_abs ds) cmd'"
proof (cases "Kind cmd \<in> {CommandLeaseGrant, CommandLeaseKeepAlive, CommandLeaseRevoke, CommandLeaseExpiry}")
  case True
  then show ?thesis
    using execute_lease_refines [OF assms(1) _ assms(3,4)] by blast
next
  case False
  then have "Kind cmd \<in> {CommandTxn, CommandList, CommandGet, CommandPut, CommandAppend, CommandCAS}"
    using assms(2) by (cases "Kind cmd") (simp_all add: submitted_def)
  then show ?thesis
    using execute_value_refines [OF assms(1) _ assms(4)] by blast
qed

lemma spec_answer_Revision [simp]:
  "spec_answer cmd sp (c\<lparr>Command.Revision := r\<rparr>) = spec_answer cmd sp c"
  by (cases "Kind cmd") (simp_all add: spec_answer_def Let_def)

lemma machine_step_refines_spec:
  assumes "ds_wf (m_ds m)" and "submitted cmd" and "\<not> m_duplicate cmd (m_last m)"
    and "Kind cmd = CommandLeaseGrant \<Longrightarrow> lease_ids_left (m_ds m)"
    and "machine_step ro now cmd m = (m', cmd')"
  shows "service_abs (m_ds m') = spec_execute cmd (service_abs (m_ds m)) \<and>
    spec_answer cmd (service_abs (m_ds m)) cmd'"
proof -
  obtain ds' c where x: "execute ro now cmd (m_ds m) = Returns ds' c"
    using execute_returns [OF assms(2)] by blast
  have "m_ds m' = ds'" "cmd' = c\<lparr>Command.Revision := m_bump (Kind cmd) (m_rev m)\<rparr>"
    using assms(3,5) x by (auto simp: machine_step_def)
  with execute_refines_spec [OF assms(1,2,4) x] show ?thesis
    by simp
qed

subsection \<open>Properties\<close>

lemma command_refines:
  assumes "kv_wf s" and "submitted cmd" and "\<not> is_duplicate cmd s"
    and "Kind cmd = CommandLeaseGrant \<Longrightarrow> lease_ids_left (dstore s)"
  shows "\<exists>s' cmd'. handleCommand ro now cmd index trm s = Returns s' cmd' \<and>
    service_abs (dstore s') = spec_execute cmd (service_abs (dstore s)) \<and>
    spec_answer cmd (service_abs (dstore s)) cmd' \<and> kv_wf s'"
proof -
  obtain m' cmd' where ms: "machine_step ro now cmd (machine_of s) = (m', cmd')"
    by (cases "machine_step ro now cmd (machine_of s)")
  obtain es where "handleCommand ro now cmd index trm s = Returns (committed ro index trm m' cmd' es s) cmd'"
    using handleCommand_eq [OF assms(1,2) ms] by blast
  moreover have wf: "ds_wf (m_ds (machine_of s))"
    using assms(1) by (simp add: kv_wf_def)
  moreover have "kv_wf (committed ro index trm m' cmd' es s)"
    using machine_step_wf [OF wf assms(2) _ ms] assms(4) by (simp add: kv_wf_committed [OF assms(1)])
  ultimately show ?thesis
    using machine_step_refines_spec [OF wf assms(2) _ _ ms] assms(3,4) by (simp add: is_duplicate_machine)
qed

text \<open>
  C8: a committed command does what the specification of the service says. Applying a command
  that is not a repeated request returns, changes the map of keys and the set of leases exactly as
  \<open>spec_execute\<close> does, answers what \<open>spec_answer\<close> allows (the value before the write, the pairs
  under a prefix, the branch a transaction took, the keys a lease owned, a lease id not in use),
  and keeps the invariant.
\<close>
theorem command_refines_spec:
  assumes "kv_wf s" and "submitted cmd" and "\<not> is_duplicate cmd s"
    and "Kind cmd = CommandLeaseGrant \<Longrightarrow> lease_ids_left (dstore s)"
  shows "\<exists>s' cmd'. handleCommand ro now cmd index trm s = Returns s' cmd' \<and>
    service_abs (dstore s') = spec_execute cmd (service_abs (dstore s)) \<and>
    spec_answer cmd (service_abs (dstore s)) cmd' \<and> kv_wf s'"
  using assms by (rule command_refines)

theorem command_refines_spec_witness:
  "\<exists>s' cmd'. handleCommand ascending 5 (put_k ''v'' 1) 0 1 (New 0 []) = Returns s' cmd' \<and>
    service_abs (dstore s') = spec_execute (put_k ''v'' 1) (service_abs NewDataStore) \<and>
    spec_answer (put_k ''v'' 1) (service_abs NewDataStore) cmd' \<and> kv_wf s'"
  using command_refines_spec [OF kv_wf_New, of "put_k ''v'' 1" 0 "[]" ascending 5 0 1]
  by (simp add: is_duplicate_def)

text \<open>Commands that are addressed to a key.\<close>

definition touches :: "string \<Rightarrow> Command \<Rightarrow> bool" where
  "touches k cmd \<longleftrightarrow>
     (case Kind cmd of
        CommandPut \<Rightarrow> Command.Key cmd = k
      | CommandAppend \<Rightarrow> Command.Key cmd = k
      | CommandCAS \<Rightarrow> Command.Key cmd = k
      | CommandTxn \<Rightarrow>
          (case TxnField cmd of
             None \<Rightarrow> False
           | Some td \<Rightarrow> k \<in> TxnOp.Key ` set (TxnData.Success td @ TxnData.Failure td))
      | _ \<Rightarrow> False)"

lemma spec_txn_ops_elsewhere:
  "k \<notin> TxnOp.Key ` set ops \<Longrightarrow> entries (fold spec_txn_op ops s) k = entries s k"
  by (induction ops arbitrary: s)
    (auto simp: spec_txn_op_def spec_put_def spec_delete_def spec_cas_def spec_append_def
      split: TxnOpType.splits option.splits)

lemma spec_revokes_unowned:
  "entries s k = Some (v, None) \<Longrightarrow> entries (fold spec_revoke lids s) k = Some (v, None)"
  by (induction lids arbitrary: s) (auto simp: spec_revoke_def owned_by_def)

lemma spec_execute_elsewhere:
  assumes "entries (sp_store sp) k = Some (v, None)" and "\<not> touches k cmd"
  shows "entries (sp_store (spec_execute cmd sp)) k = Some (v, None)"
proof (cases "Kind cmd")
  case CommandTxn
  then show ?thesis
    using assms by (auto simp: spec_execute_def touches_def spec_branch_def Let_def image_Un
      spec_txn_ops_elsewhere split: option.splits)
next
  case CommandLeaseRevoke
  then show ?thesis
    using assms by (simp add: spec_execute_def Let_def spec_revoke_def owned_by_def)
qed (use assms in \<open>auto simp: spec_execute_def touches_def Let_def spec_put_def spec_append_def
    spec_cas_def spec_grant_def spec_revokes_unowned split: option.splits\<close>)

lemma run_elsewhere:
  assumes "ds_wf (m_ds m)" and "list_all submitted (map snd xs)" and "lease_room (map snd xs) (m_ds m)"
    and "list_all (\<lambda>c. \<not> touches k c) (map snd xs)"
    and "entries (ds_abs (m_ds m)) k = Some (v, None)"
  shows "entries (ds_abs (m_ds (fst (run_log zstep xs m)))) k = Some (v, None)"
  using assms
proof (induction xs arbitrary: m)
  case Nil
  then show ?case by simp
next
  case (Cons x xs)
  obtain ro now c where x: "x = ((ro, now), c)" by (cases x) auto
  obtain m' c' where ms: "machine_step ro now c m = (m', c')" by (cases "machine_step ro now c m")
  have c: "submitted c" "\<not> touches k c" and room: "lease_room (c # map snd xs) (m_ds m)"
    using Cons.prems by (simp_all add: x)
  note left = lease_room_step [OF room c(1) ms]
  have "ds_wf (m_ds m')"
    using machine_step_wf [OF Cons.prems(1) c(1) _ ms] left(2) by simp
  moreover have "entries (ds_abs (m_ds m')) k = Some (v, None)"
  proof (cases "m_duplicate c (m_last m)")
    case True
    then show ?thesis
      using machine_step_dup [OF True, of ro now] Cons.prems(5) by (simp only: ms fst_conv)
  next
    case False
    from machine_step_refines_spec [OF Cons.prems(1) c(1) False left(2) ms] have
      "ds_abs (m_ds m') = sp_store (spec_execute c (service_abs (m_ds m)))"
      by (simp add: service_abs_def) (metis service_spec.select_convs(1))
    with spec_execute_elsewhere [of "service_abs (m_ds m)" k v c] Cons.prems(5) c(2) show ?thesis
      by (simp add: service_abs_def)
  qed
  ultimately show ?case
    using Cons.IH [of m'] Cons.prems left(1) unfolding x run_log_Cons by (simp add: ms)
qed

text \<open>
  C26: a write without a lease stays until the key is written again. After a put without a lease,
  and any log of commands that are not addressed to the key, whatever leases are granted, revoked
  or expire in it and whatever transactions run, a read of the key finds the value.
\<close>
theorem unleased_write_is_stable:
  assumes "kv_wf s" and "submitted cmd" and "\<not> is_duplicate cmd s"
    and "Kind cmd = CommandPut" and "Command.LeaseID cmd = 0"
    and "list_all submitted (commands es)" and "lease_room (commands es) (dstore s)"
    and "list_all (\<lambda>c. \<not> touches (Command.Key cmd) c) (commands es)"
  shows "\<exists>s' rs. apply_entries (((ro, now), cmd, i, t) # es) s = Returns s' rs \<and>
    Get (Command.Key cmd) (dstore s') = (Command.Value cmd, True)"
proof -
  obtain m' c where ms: "machine_step ro now cmd (machine_of s) = (m', c)"
    by (cases "machine_step ro now cmd (machine_of s)")
  have wf: "ds_wf (m_ds (machine_of s))"
    using assms(1) by (simp add: kv_wf_def)
  have room: "lease_room (cmd # commands es) (m_ds (machine_of s))"
    using assms(4,7) by (simp add: lease_room_def)
  note left = lease_room_step [OF room assms(2) ms]
  have wf': "ds_wf (m_ds m')"
    using machine_step_wf [OF wf assms(2) _ ms] left(2) by simp
  have "service_abs (m_ds m') = spec_execute cmd (service_abs (dstore s))"
    using machine_step_refines_spec [OF wf assms(2) _ left(2) ms] assms(3) by (simp add: is_duplicate_machine)
  then have k: "entries (ds_abs (m_ds m')) (Command.Key cmd) = Some (Command.Value cmd, None)"
    using assms(4,5) by (simp add: service_abs_def spec_execute_def spec_put_def)
  have "list_all submitted (map snd (log_of es))" "lease_room (map snd (log_of es)) (m_ds m')"
    "list_all (\<lambda>c. \<not> touches (Command.Key cmd) c) (map snd (log_of es))"
    using assms(6,8) left(1) by (simp_all only: commands_log_of)
  note final = run_elsewhere [OF wf' this k]
  have all: "list_all submitted (commands (((ro, now), cmd, i, t) # es))"
    "lease_room (commands (((ro, now), cmd, i, t) # es)) (dstore s)"
    using assms(2,6) room by simp_all
  obtain s' where s': "apply_entries (((ro, now), cmd, i, t) # es) s =
      Returns s' (snd (run_log zstep (log_of (((ro, now), cmd, i, t) # es)) (machine_of s)))"
    "machine_of s' = fst (run_log zstep (log_of (((ro, now), cmd, i, t) # es)) (machine_of s))"
    using apply_entries_total [OF assms(1) all] .
  have "machine_of s' = fst (run_log zstep (log_of es) m')"
    unfolding s'(2) list.map fst_conv snd_conv run_log_Cons by (simp add: ms)
  then have "dstore s' = m_ds (fst (run_log zstep (log_of es) m'))"
    by (metis machine_of_simps(1))
  with final have "spec_get (Command.Key cmd) (ds_abs (dstore s')) = (Command.Value cmd, True)"
    by (simp only: spec_get_def option.case prod.case)
  then have "Get (Command.Key cmd) (dstore s') = (Command.Value cmd, True)"
    by (simp only: Get_def ds_get_spec)
  with s'(1) show ?thesis by blast
qed

theorem unleased_write_is_stable_witness:
  "\<exists>s' rs. apply_entries [((ascending, 5), put_k ''v'' 1, 0, 1), ((ascending, 6), grant_60, 1, 1)] (New 0 []) = Returns s' rs \<and>
    Get ''k'' (dstore s') = (''v'', True)"
  using unleased_write_is_stable [OF kv_wf_New, of "put_k ''v'' 1" 0 "[]" "[((ascending, 6), grant_60, 1, 1)]" ascending 5 0 1]
  by (simp add: is_duplicate_def lease_room_def touches_def del: apply_entries.simps)

end
