(* ===== verification/Snapshots.thy ===== *)
theory Snapshots
  imports Refinement
begin

text \<open>
  Snapshots of the service: what \<open>handleSnapshot\<close> of the updater restores from the bytes that
  \<open>encodeSnapshot\<close> wrote on another replica, which waiting handlers it cancels, and that a replica
  that starts from a snapshot and applies the rest of the log ends where the others end.
\<close>

definition snapshot_machine :: "kvSnapshot \<Rightarrow> DataStore \<Rightarrow> machine" where
  "snapshot_machine snap ds =
     \<lparr>m_ds = RestoreFromLeaseSnapshot (Leases snap) (KeyLease snap) (NextLeaseID snap) (RestoreAll (Store snap) ds),
      m_last = LastRequestIDPerClient snap, m_rev = CurrentRevision snap\<rparr>"

definition restored :: "int \<Rightarrow> kvSnapshot \<Rightarrow> KVService \<Rightarrow> KVService" where
  "restored index snap s =
     close_covered index ((put_machine (snapshot_machine snap (dstore s)) s)\<lparr>lastSnapshotIndex := index\<rparr>)"

lemma handleSnapshot_eq:
  assumes "\<not> locked s"
  shows "handleSnapshot index (GobOf snap) s = Returns (restored index snap s) ()"
  using assms
  by (simp add: handleSnapshot_def lockKV_def restored_def snapshot_machine_def put_machine_def
      close_covered_def unlockKV_def Let_def)

lemma restored_simps [simp]:
  "machine_of (restored index snap s) = snapshot_machine snap (dstore s)"
  "dstore (restored index snap s) = m_ds (snapshot_machine snap (dstore s))"
  "lastSnapshotIndex (restored index snap s) = index" "locked (restored index snap s) = locked s"
  "eventBuf (restored index snap s) = eventBuf s" "watchSubs (restored index snap s) = watchSubs s"
  "commitSubs (restored index snap s) = fmfilter (\<lambda>idx. \<not> idx \<le> index) (commitSubs s)"
  "next_chan (restored index snap s) = next_chan s" "installed (restored index snap s) = installed s"
  by (simp_all add: restored_def close_covered_def Let_def machine_of_def snapshot_machine_def)

lemma chans_restored:
  assumes "subs_wf s" and "fmlookup (commitSubs s) i = Some c"
  shows "fmlookup (chans (restored index snap s)) c = Some \<lparr>buffered = [], capacity = 1, closed = (i \<le> index)\<rparr>"
proof -
  have "c |\<in>| fmran (fmfilter (\<lambda>idx. idx \<le> index) (commitSubs s)) \<longleftrightarrow> i \<le> index"
  proof -
    have "c |\<in>| fmran (fmfilter (\<lambda>idx. idx \<le> index) (commitSubs s)) \<longleftrightarrow>
        (\<exists>j. fmlookup (commitSubs s) j = Some c \<and> j \<le> index)"
      by (auto simp: fmlookup_image_iff fmdomI)
    also have "\<dots> \<longleftrightarrow> i \<le> index"
      using assms unfolding subs_wf_def by blast
    finally show ?thesis .
  qed
  moreover have "fmlookup (chans s) c = Some (make_chan 1)"
    using assms unfolding subs_wf_def by blast
  ultimately show ?thesis
    by (simp add: restored_def close_covered_def Let_def make_chan_def)
qed

lemma kv_wf_restored:
  assumes "kv_wf s" and "ds_wf (m_ds (snapshot_machine snap (dstore s)))"
  shows "kv_wf (restored index snap s)"
proof -
  have subs: "subs_wf s" using assms(1) by (simp add: kv_wf_def)
  have "subs_wf (restored index snap s)"
    unfolding subs_wf_def
  proof (intro conjI allI impI)
    fix i c assume "fmlookup (commitSubs (restored index snap s)) i = Some c"
    then have "fmlookup (commitSubs s) i = Some c" "\<not> i \<le> index"
      by (simp_all split: if_splits)
    then show "fmlookup (chans (restored index snap s)) c = Some (make_chan 1)"
      using chans_restored [OF subs] by (simp add: make_chan_def)
  next
    fix i j c
    assume "fmlookup (commitSubs (restored index snap s)) i = Some c"
      "fmlookup (commitSubs (restored index snap s)) j = Some c"
    then show "i = j"
      using subs unfolding subs_wf_def by (simp split: if_splits)
  next
    fix c cn assume "fmlookup (chans (restored index snap s)) c = Some cn"
    then have "fmlookup (chans s) c \<noteq> None"
      by (auto simp: restored_def close_covered_def Let_def)
    then show "c < next_chan (restored index snap s)"
      using subs unfolding subs_wf_def by auto
  qed
  moreover have "watch_wf (restored index snap s)"
    using assms(1) unfolding kv_wf_def by (subst watch_wf_cong [of _ s]) simp_all
  ultimately show ?thesis
    using assms by (simp add: kv_wf_def)
qed

lemma snapshot_machine_of_encode:
  assumes "encodeSnapshot ro s = Inr bytes"
  obtains snap where "bytes = GobOf snap" and "snapshot_machine snap ds = machine_of s"
proof -
  obtain ls kl n where g: "GetLeaseSnapshot ro (dstore s) = (ls, kl, n)"
    by (cases "GetLeaseSnapshot ro (dstore s)") auto
  with assms show thesis
    using restore_lease_snapshot [OF g, of ds]
    by (intro that) (auto simp: encodeSnapshot_def snapshot_machine_def machine_of_def)
qed

lemma encodeSnapshot_defined: "\<exists>bytes. encodeSnapshot ro s = Inr bytes"
  by (cases "GetLeaseSnapshot ro (dstore s)") (simp add: encodeSnapshot_def)

lemma snapshot_roundtrip:
  assumes "kv_wf s" and "kv_wf t" and "encodeSnapshot ro s = Inr bytes"
  obtains t' where "handleSnapshot index bytes t = Returns t' ()" and "machine_of t' = machine_of s"
    and "lastSnapshotIndex t' = index" and "kv_wf t'"
proof -
  obtain snap where snap: "bytes = GobOf snap" "snapshot_machine snap (dstore t) = machine_of s"
    using snapshot_machine_of_encode [OF assms(3)] .
  have "\<not> locked t" "ds_wf (m_ds (snapshot_machine snap (dstore t)))"
    using assms(1,2) by (simp_all add: kv_wf_def snap(2))
  with snap assms(2) show thesis
    by (intro that [of "restored index snap t"]) (simp_all add: handleSnapshot_eq kv_wf_restored)
qed

text \<open>
  C13: a snapshot restores the replicated state. The bytes that \<open>encodeSnapshot\<close> writes on one
  replica give another replica exactly the first one's store, leases (deadlines included), lease
  counter, deduplication table and revision, whatever it had before, and the invariant holds.
\<close>
theorem snapshot_restores_state:
  assumes "kv_wf s" and "kv_wf t"
  shows "\<exists>bytes t'. encodeSnapshot ro s = Inr bytes \<and> handleSnapshot index bytes t = Returns t' () \<and>
    machine_of t' = machine_of s \<and> lastSnapshotIndex t' = index \<and> kv_wf t'"
proof -
  obtain bytes where b: "encodeSnapshot ro s = Inr bytes"
    using encodeSnapshot_defined by blast
  from snapshot_roundtrip [OF assms b, of index] b show ?thesis by metis
qed

theorem snapshot_restores_state_witness:
  "\<exists>bytes t'. encodeSnapshot ascending (New 0 [1]) = Inr bytes \<and>
    handleSnapshot 7 bytes (New 1 [0]) = Returns t' () \<and>
    machine_of t' = machine_of (New 0 [1]) \<and> lastSnapshotIndex t' = 7 \<and> kv_wf t'"
  by (rule snapshot_restores_state) (rule kv_wf_New)+

text \<open>
  C12: recovery from a snapshot. A replica that restores a snapshot taken by another replica after
  a prefix of the log and then applies the rest of it answers every command of the rest as the
  other replica does and ends in the same visible state.
\<close>
theorem snapshot_recovery_converges:
  assumes "kv_wf s" and "kv_wf t" and "list_all submitted (commands (es @ fs))"
    and "lease_room (commands (es @ fs)) (dstore s)" and "commands gs = commands fs"
    and "apply_entries es s = Returns s1 rs" and "encodeSnapshot ro s1 = Inr bytes"
  shows "\<exists>t1 s2 t2 qs. handleSnapshot index bytes t = Returns t1 () \<and>
    apply_entries (es @ fs) s = Returns s2 (rs @ qs) \<and> apply_entries gs t1 = Returns t2 qs \<and>
    replicated_view (machine_of s2) = replicated_view (machine_of t2) \<and> kv_wf t2"
proof -
  have es: "list_all submitted (commands es)" "lease_room (commands es) (dstore s)"
    using assms(3,4) by (auto simp: lease_room_def)
  obtain u where u: "apply_entries es s = Returns u (snd (run_log zstep (log_of es) (machine_of s)))" "kv_wf u"
    using apply_entries_total [OF assms(1) es] .
  then have s1: "kv_wf s1"
    using assms(6) by simp
  obtain t1 where t1: "handleSnapshot index bytes t = Returns t1 ()" "machine_of t1 = machine_of s1" "kv_wf t1"
    using snapshot_roundtrip [OF s1 assms(2,7), of index] .
  obtain s2 where s2: "apply_entries (es @ fs) s = Returns s2 (snd (run_log zstep (log_of (es @ fs)) (machine_of s)))"
    using apply_entries_total [OF assms(1,3,4)] .
  then obtain qs where qs: "apply_entries fs s1 = Returns s2 qs" "apply_entries (es @ fs) s = Returns s2 (rs @ qs)"
    using assms(6) by (auto simp: apply_entries_append and_then_Returns)
  have "lease_room (commands fs) (dstore s1)"
    using lease_room_run [OF assms(1,3,4,6)] .
  from entries_converge [OF s1 t1(3) _ assms(5) [symmetric] _ this] assms(3) qs t1 show ?thesis
    by fastforce
qed

theorem snapshot_recovery_converges_witness:
  "\<exists>s1 rs t1 s2 t2 qs bytes.
    apply_entries [((ascending, 5), grant_60, 0, 1)] (New 0 [1]) = Returns s1 rs \<and>
    encodeSnapshot ascending s1 = Inr bytes \<and> handleSnapshot 0 bytes (New 1 [0]) = Returns t1 () \<and>
    apply_entries [((ascending, 5), grant_60, 0, 1), ((ascending, 6), put_k ''v'' 1, 1, 1)] (New 0 [1]) =
      Returns s2 (rs @ qs) \<and>
    apply_entries [((ascending, 90), put_k ''v'' 1, 1, 1)] t1 = Returns t2 qs \<and>
    replicated_view (machine_of s2) = replicated_view (machine_of t2)"
proof -
  let ?es = "[((ascending, 5), grant_60, 0, 1)]" and ?fs = "[((ascending, 6), put_k ''v'' 1, 1, 1)]"
  let ?gs = "[((ascending, 90), put_k ''v'' 1, 1, 1)]"
  have log: "list_all submitted (commands (?es @ ?fs))" "lease_room (commands (?es @ ?fs)) (dstore (New 0 [1]))"
    and es: "list_all submitted (commands ?es)" "lease_room (commands ?es) (dstore (New 0 [1]))"
    by (simp_all add: lease_room_def)
  obtain s1 where s1: "apply_entries ?es (New 0 [1]) =
      Returns s1 (snd (run_log zstep (log_of ?es) (machine_of (New 0 [1]))))"
    using apply_entries_total [OF kv_wf_New es] .
  obtain bytes where b: "encodeSnapshot ascending s1 = Inr bytes"
    using encodeSnapshot_defined by blast
  have "commands ?gs = commands ?fs" by simp
  from snapshot_recovery_converges [OF kv_wf_New kv_wf_New log this s1 b, of 0 1 "[0]"] s1 b
  show ?thesis unfolding append.simps by blast
qed

text \<open>
  A snapshot cancels exactly the handlers that wait for an index it covers. Such a handler
  finds its channel closed, which it reports as a failed commit; every other waiting handler goes
  on waiting and stays registered.
\<close>
lemma snapshot_cancels_covered_handlers:
  assumes "kv_wf t" and "fmlookup (commitSubs t) i = Some c"
  shows "\<exists>t'. handleSnapshot index (GobOf snap) t = Returns t' () \<and>
    fst (receive_commit c t') = (if i \<le> index then ClosedChan else WouldWait) \<and>
    fmlookup (commitSubs t') i = (if i \<le> index then None else Some c)"
  using assms handleSnapshot_eq [of t index snap] chans_restored [of t i c index snap]
  by (simp add: kv_wf_def receive_commit_def recv_def)

lemma snapshot_cancels_covered_handlers_witness:
  "\<exists>t0 c t'. createCommitSubscription 3 (New 0 []) = Returns t0 c \<and>
    (\<forall>snap. handleSnapshot 5 (GobOf snap) t0 = Returns (t' snap) () \<and>
      fst (receive_commit c (t' snap)) = ClosedChan \<and> fmlookup (commitSubs (t' snap)) 3 = None)"
proof -
  obtain t0 c where t0: "createCommitSubscription 3 (New 0 []) = Returns t0 c"
    by (simp add: createCommitSubscription_fresh [OF kv_wf_New])
  have "fmlookup (commitSubs t0) 3 = Some c"
    using createCommitSubscription_Returns(2,3) [OF kv_wf_New t0] by simp
  from snapshot_cancels_covered_handlers [OF kv_wf_createCommitSubscription [OF kv_wf_New t0] this, of 5] t0
  show ?thesis by simp metis
qed

end
