(* ===== verification/Handlers.thy ===== *)
theory Handlers
  imports Snapshots
begin

text \<open>
  The nine HTTP handlers that put a command into the log (\<open>handlePut\<close> to \<open>handleLeaseRevoke\<close> of
  \<open>kvservice.go\<close>) and the JSON helpers of \<open>json.go\<close>.

  Each handler decodes its request, submits a command to Raft, registers for the index the
  command got and waits for the entry at that index. A handler is modelled as the part before the
  wait (\<open>..._begin\<close>) and the part after it (\<open>..._end\<close>); the apply loop runs in between. The nine
  Go functions repeat the same statements around their own request, command and response types;
  here the shared statements are \<open>begin_request\<close> and \<open>end_request\<close>. What \<open>rs.Submit\<close> answers (a
  log index, negative on a node that does not lead) is an argument. A request is what the library
  makes of the bytes: the result of parsing the content type and of decoding the body. The texts
  themselves are the subject of theories \<open>Wire\<close> and \<open>Calls\<close>.
\<close>

subsection \<open>Requests and replies\<close>

record 'q http_request =
  media :: "string + string"
  body :: "string + 'q"

datatype 'r http_reply = ReplyJSON 'r | ReplyError int string | NoReply

definition readRequestJSON :: "'q http_request \<Rightarrow> string + 'q" where
  "readRequestJSON req =
     (case media req of
        Inl err \<Rightarrow> Inl err
      | Inr mediaType \<Rightarrow>
          if mediaType \<noteq> ''application/json''
          then Inl (''expect application/json Content-Type, got '' @ mediaType)
          else body req)"

text \<open>\<open>sendHTTPResponse\<close>; the sleep of a delayed response is only the cleared flag.\<close>

definition sendHTTPResponse :: "'r \<Rightarrow> KVService \<Rightarrow> (KVService, 'r http_reply) outcome" where
  "sendHTTPResponse v s =
     Returns (if delayNextHTTPResponse s then s\<lparr>delayNextHTTPResponse := False\<rparr> else s) (ReplyJSON v)"

definition DelayNextHTTPResponse :: "KVService \<Rightarrow> KVService" where
  "DelayNextHTTPResponse s = s\<lparr>delayNextHTTPResponse := True\<rparr>"

text \<open>A well-formed request.\<close>

definition json_request :: "'q \<Rightarrow> 'q http_request" where
  "json_request q = \<lparr>media = Inr ''application/json'', body = Inr q\<rparr>"

lemma read_json_request [simp]: "readRequestJSON (json_request q) = Inr q"
  by (simp add: readRequestJSON_def json_request_def)

subsection \<open>The statements the handlers share\<close>

datatype ('q, 'r) handling = Finished "'r http_reply" | Pending 'q nat

datatype select_case = FromSub | CtxDone

definition begin_request :: "'q http_request \<Rightarrow> (KVService \<Rightarrow> 'q \<Rightarrow> Command) \<Rightarrow> 'r \<Rightarrow> (Command \<Rightarrow> int)
    \<Rightarrow> KVService \<Rightarrow> (KVService, ('q, 'r) handling) outcome" where
  "begin_request req mkCommand notLeader submit s =
     (case readRequestJSON req of
        Inl err \<Rightarrow> Returns s (Finished (ReplyError 400 err))
      | Inr q \<Rightarrow>
          (let index = submit (mkCommand s q)
           in if index < 0
              then and_then (sendHTTPResponse notLeader s) (\<lambda>s r. Returns s (Finished r))
              else and_then (createCommitSubscription index s) (\<lambda>s c. Returns s (Pending q c))))"

text \<open>\<open>respond cmd\<close> is None where reading the committed command dereferences a nil pointer.\<close>

definition end_request :: "'r \<Rightarrow> (Command \<Rightarrow> 'r option) \<Rightarrow> select_case \<Rightarrow> nat \<Rightarrow> KVService
    \<Rightarrow> (KVService, 'r http_reply) outcome" where
  "end_request failed respond sel sub s =
     (case sel of
        CtxDone \<Rightarrow> Returns s NoReply
      | FromSub \<Rightarrow>
          (case receive_commit sub s of
             (WouldWait, s) \<Rightarrow> Blocks s
           | (ClosedChan, s) \<Rightarrow> sendHTTPResponse failed s
           | (Received commitCmd, s) \<Rightarrow>
               if ServiceID commitCmd = service_id s
               then (case respond commitCmd of
                       None \<Rightarrow> Panics s ''nil pointer dereference''
                     | Some r \<Rightarrow> sendHTTPResponse r s)
               else sendHTTPResponse failed s))"

subsection \<open>Put\<close>

definition put_status :: "ResponseStatus \<Rightarrow> PutResponse" where
  "put_status st = \<lparr>PutResponse.RespStatus = st, KeyFound = False, PrevValue = '''', Revision = 0\<rparr>"

definition put_command :: "KVService \<Rightarrow> PutRequest \<Rightarrow> Command" where
  "put_command s pr = (zeroCommand CommandPut)
     \<lparr>Command.Key := PutRequest.Key pr, Value := PutRequest.Value pr, LeaseID := PutRequest.LeaseID pr,
      ServiceID := service_id s, ClientID := PutRequest.ClientID pr, RequestID := PutRequest.RequestID pr\<rparr>"

definition put_response :: "Command \<Rightarrow> PutResponse option" where
  "put_response cmd =
     Some (if IsDuplicate cmd then put_status StatusDuplicateRequest
           else \<lparr>PutResponse.RespStatus = StatusOK, KeyFound = ResultFound cmd,
                 PrevValue = ResultValue cmd, Revision = Command.Revision cmd\<rparr>)"

definition handlePut_begin :: "PutRequest http_request \<Rightarrow> (Command \<Rightarrow> int) \<Rightarrow> KVService
    \<Rightarrow> (KVService, (PutRequest, PutResponse) handling) outcome" where
  "handlePut_begin req = begin_request req put_command (put_status StatusNotLeader)"

definition handlePut_end :: "PutRequest \<Rightarrow> select_case \<Rightarrow> nat \<Rightarrow> KVService
    \<Rightarrow> (KVService, PutResponse http_reply) outcome" where
  "handlePut_end pr = end_request (put_status StatusFailedCommit) put_response"

subsection \<open>Append\<close>

definition append_status :: "ResponseStatus \<Rightarrow> AppendResponse" where
  "append_status st = \<lparr>AppendResponse.RespStatus = st, KeyFound = False, PrevValue = '''', Revision = 0\<rparr>"

definition append_command :: "KVService \<Rightarrow> AppendRequest \<Rightarrow> Command" where
  "append_command s ar = (zeroCommand CommandAppend)
     \<lparr>Command.Key := AppendRequest.Key ar, Value := AppendRequest.Value ar, ServiceID := service_id s,
      ClientID := AppendRequest.ClientID ar, RequestID := AppendRequest.RequestID ar\<rparr>"

definition append_response :: "Command \<Rightarrow> AppendResponse option" where
  "append_response cmd =
     Some (if IsDuplicate cmd then append_status StatusDuplicateRequest
           else \<lparr>AppendResponse.RespStatus = StatusOK, KeyFound = ResultFound cmd,
                 PrevValue = ResultValue cmd, Revision = Command.Revision cmd\<rparr>)"

definition handleAppend_begin :: "AppendRequest http_request \<Rightarrow> (Command \<Rightarrow> int) \<Rightarrow> KVService
    \<Rightarrow> (KVService, (AppendRequest, AppendResponse) handling) outcome" where
  "handleAppend_begin req = begin_request req append_command (append_status StatusNotLeader)"

definition handleAppend_end :: "AppendRequest \<Rightarrow> select_case \<Rightarrow> nat \<Rightarrow> KVService
    \<Rightarrow> (KVService, AppendResponse http_reply) outcome" where
  "handleAppend_end ar = end_request (append_status StatusFailedCommit) append_response"

subsection \<open>Get\<close>

definition get_status :: "ResponseStatus \<Rightarrow> GetResponse" where
  "get_status st = \<lparr>GetResponse.RespStatus = st, KeyFound = False, Value = '''', Revision = 0\<rparr>"

definition get_command :: "KVService \<Rightarrow> GetRequest \<Rightarrow> Command" where
  "get_command s gr = (zeroCommand CommandGet)
     \<lparr>Command.Key := GetRequest.Key gr, ServiceID := service_id s,
      ClientID := GetRequest.ClientID gr, RequestID := GetRequest.RequestID gr\<rparr>"

definition get_response :: "Command \<Rightarrow> GetResponse option" where
  "get_response cmd =
     Some (if IsDuplicate cmd \<and> Kind cmd \<noteq> CommandGet then get_status StatusDuplicateRequest
           else \<lparr>GetResponse.RespStatus = StatusOK, KeyFound = ResultFound cmd,
                 Value = ResultValue cmd, Revision = Command.Revision cmd\<rparr>)"

definition handleGet_begin :: "GetRequest http_request \<Rightarrow> (Command \<Rightarrow> int) \<Rightarrow> KVService
    \<Rightarrow> (KVService, (GetRequest, GetResponse) handling) outcome" where
  "handleGet_begin req = begin_request req get_command (get_status StatusNotLeader)"

definition handleGet_end :: "GetRequest \<Rightarrow> select_case \<Rightarrow> nat \<Rightarrow> KVService
    \<Rightarrow> (KVService, GetResponse http_reply) outcome" where
  "handleGet_end gr = end_request (get_status StatusFailedCommit) get_response"

subsection \<open>Compare and swap\<close>

definition cas_status :: "ResponseStatus \<Rightarrow> CASResponse" where
  "cas_status st = \<lparr>CASResponse.RespStatus = st, KeyFound = False, PrevValue = '''', Revision = 0\<rparr>"

definition cas_command :: "KVService \<Rightarrow> CASRequest \<Rightarrow> Command" where
  "cas_command s cr = (zeroCommand CommandCAS)
     \<lparr>Command.Key := CASRequest.Key cr, Value := CASRequest.Value cr,
      CompareValue := CASRequest.CompareValue cr, ServiceID := service_id s,
      ClientID := CASRequest.ClientID cr, RequestID := CASRequest.RequestID cr\<rparr>"

definition cas_response :: "Command \<Rightarrow> CASResponse option" where
  "cas_response cmd =
     Some (if IsDuplicate cmd then cas_status StatusDuplicateRequest
           else \<lparr>CASResponse.RespStatus = StatusOK, KeyFound = ResultFound cmd,
                 PrevValue = ResultValue cmd, Revision = Command.Revision cmd\<rparr>)"

definition handleCAS_begin :: "CASRequest http_request \<Rightarrow> (Command \<Rightarrow> int) \<Rightarrow> KVService
    \<Rightarrow> (KVService, (CASRequest, CASResponse) handling) outcome" where
  "handleCAS_begin req = begin_request req cas_command (cas_status StatusNotLeader)"

definition handleCAS_end :: "CASRequest \<Rightarrow> select_case \<Rightarrow> nat \<Rightarrow> KVService
    \<Rightarrow> (KVService, CASResponse http_reply) outcome" where
  "handleCAS_end cr = end_request (cas_status StatusFailedCommit) cas_response"

subsection \<open>List\<close>

definition list_status :: "ResponseStatus \<Rightarrow> ListResponse" where
  "list_status st = \<lparr>ListResponse.RespStatus = st, Pairs = fmempty, NextKey = '''', Revision = 0\<rparr>"

definition list_command :: "KVService \<Rightarrow> ListRequest \<Rightarrow> Command" where
  "list_command s lr = (zeroCommand CommandList)
     \<lparr>Command.Key := ListRequest.Prefix lr, Limit := ListRequest.Limit lr,
      KeyAfter := ListRequest.KeyAfter lr, ServiceID := service_id s,
      ClientID := ListRequest.ClientID lr, RequestID := ListRequest.RequestID lr\<rparr>"

definition list_response :: "Command \<Rightarrow> ListResponse option" where
  "list_response cmd =
     Some (if IsDuplicate cmd \<and> Kind cmd \<noteq> CommandList then list_status StatusDuplicateRequest
           else \<lparr>ListResponse.RespStatus = StatusOK, Pairs = ResultPairs cmd,
                 NextKey = ResultValue cmd, Revision = Command.Revision cmd\<rparr>)"

definition handleList_begin :: "ListRequest http_request \<Rightarrow> (Command \<Rightarrow> int) \<Rightarrow> KVService
    \<Rightarrow> (KVService, (ListRequest, ListResponse) handling) outcome" where
  "handleList_begin req = begin_request req list_command (list_status StatusNotLeader)"

definition handleList_end :: "ListRequest \<Rightarrow> select_case \<Rightarrow> nat \<Rightarrow> KVService
    \<Rightarrow> (KVService, ListResponse http_reply) outcome" where
  "handleList_end lr = end_request (list_status StatusFailedCommit) list_response"

subsection \<open>Transaction\<close>

definition txn_status :: "ResponseStatus \<Rightarrow> TxnResponse" where
  "txn_status st = \<lparr>TxnResponse.RespStatus = st, Succeeded = False, Results = [], Revision = 0\<rparr>"

definition txn_command :: "KVService \<Rightarrow> TxnRequest \<Rightarrow> Command" where
  "txn_command s tr = (zeroCommand CommandTxn)
     \<lparr>TxnField := Some \<lparr>TxnData.Conditions = TxnRequest.Conditions tr, Success = TxnRequest.Success tr,
                        Failure = TxnRequest.Failure tr\<rparr>,
      ServiceID := service_id s,
      ClientID := TxnRequest.ClientID tr, RequestID := TxnRequest.RequestID tr\<rparr>"

definition txn_response :: "Command \<Rightarrow> TxnResponse option" where
  "txn_response cmd =
     (if IsDuplicate cmd then Some (txn_status StatusDuplicateRequest)
      else map_option (\<lambda>tr. \<lparr>TxnResponse.RespStatus = StatusOK, Succeeded = TxnApplyResult.Succeeded tr,
                             Results = TxnApplyResult.Results tr, Revision = Command.Revision cmd\<rparr>)
             (TxnResult cmd))"

definition handleTxn_begin :: "TxnRequest http_request \<Rightarrow> (Command \<Rightarrow> int) \<Rightarrow> KVService
    \<Rightarrow> (KVService, (TxnRequest, TxnResponse) handling) outcome" where
  "handleTxn_begin req = begin_request req txn_command (txn_status StatusNotLeader)"

definition handleTxn_end :: "TxnRequest \<Rightarrow> select_case \<Rightarrow> nat \<Rightarrow> KVService
    \<Rightarrow> (KVService, TxnResponse http_reply) outcome" where
  "handleTxn_end tr = end_request (txn_status StatusFailedCommit) txn_response"

subsection \<open>Leases\<close>

definition grant_status :: "ResponseStatus \<Rightarrow> LeaseGrantResponse" where
  "grant_status st = \<lparr>LeaseGrantResponse.RespStatus = st, ID = 0, TTL = 0\<rparr>"

definition grant_command :: "KVService \<Rightarrow> LeaseGrantRequest \<Rightarrow> Command" where
  "grant_command s lr = (zeroCommand CommandLeaseGrant)
     \<lparr>LeaseTTL := LeaseGrantRequest.TTL lr, ServiceID := service_id s,
      ClientID := LeaseGrantRequest.ClientID lr, RequestID := LeaseGrantRequest.RequestID lr\<rparr>"

definition grant_response :: "LeaseGrantRequest \<Rightarrow> Command \<Rightarrow> LeaseGrantResponse option" where
  "grant_response lr cmd =
     Some (if IsDuplicate cmd then grant_status StatusDuplicateRequest
           else \<lparr>LeaseGrantResponse.RespStatus = StatusOK, ID = fst (ParseInt (ResultValue cmd)),
                 TTL = LeaseGrantRequest.TTL lr\<rparr>)"

definition handleLeaseGrant_begin :: "LeaseGrantRequest http_request \<Rightarrow> (Command \<Rightarrow> int) \<Rightarrow> KVService
    \<Rightarrow> (KVService, (LeaseGrantRequest, LeaseGrantResponse) handling) outcome" where
  "handleLeaseGrant_begin req = begin_request req grant_command (grant_status StatusNotLeader)"

definition handleLeaseGrant_end :: "LeaseGrantRequest \<Rightarrow> select_case \<Rightarrow> nat \<Rightarrow> KVService
    \<Rightarrow> (KVService, LeaseGrantResponse http_reply) outcome" where
  "handleLeaseGrant_end lr = end_request (grant_status StatusFailedCommit) (grant_response lr)"

definition keepalive_status :: "ResponseStatus \<Rightarrow> LeaseKeepAliveResponse" where
  "keepalive_status st = \<lparr>LeaseKeepAliveResponse.RespStatus = st, ID = 0\<rparr>"

definition keepalive_command :: "KVService \<Rightarrow> LeaseKeepAliveRequest \<Rightarrow> Command" where
  "keepalive_command s lkr = (zeroCommand CommandLeaseKeepAlive)
     \<lparr>LeaseID := LeaseKeepAliveRequest.ID lkr, ServiceID := service_id s,
      ClientID := LeaseKeepAliveRequest.ClientID lkr, RequestID := LeaseKeepAliveRequest.RequestID lkr\<rparr>"

text \<open>Both branches of the test of \<open>ResultFound\<close> send the same response.\<close>

definition keepalive_response :: "LeaseKeepAliveRequest \<Rightarrow> Command \<Rightarrow> LeaseKeepAliveResponse option" where
  "keepalive_response lkr cmd =
     Some (if IsDuplicate cmd then keepalive_status StatusDuplicateRequest
           else if ResultFound cmd
           then \<lparr>LeaseKeepAliveResponse.RespStatus = StatusOK, ID = LeaseKeepAliveRequest.ID lkr\<rparr>
           else \<lparr>LeaseKeepAliveResponse.RespStatus = StatusOK, ID = LeaseKeepAliveRequest.ID lkr\<rparr>)"

definition handleLeaseKeepAlive_begin :: "LeaseKeepAliveRequest http_request \<Rightarrow> (Command \<Rightarrow> int) \<Rightarrow> KVService
    \<Rightarrow> (KVService, (LeaseKeepAliveRequest, LeaseKeepAliveResponse) handling) outcome" where
  "handleLeaseKeepAlive_begin req =
     begin_request req keepalive_command (keepalive_status StatusNotLeader)"

definition handleLeaseKeepAlive_end :: "LeaseKeepAliveRequest \<Rightarrow> select_case \<Rightarrow> nat \<Rightarrow> KVService
    \<Rightarrow> (KVService, LeaseKeepAliveResponse http_reply) outcome" where
  "handleLeaseKeepAlive_end lkr =
     end_request (keepalive_status StatusFailedCommit) (keepalive_response lkr)"

definition revoke_status :: "ResponseStatus \<Rightarrow> LeaseRevokeResponse" where
  "revoke_status st = \<lparr>LeaseRevokeResponse.RespStatus = st\<rparr>"

definition revoke_command :: "KVService \<Rightarrow> LeaseRevokeRequest \<Rightarrow> Command" where
  "revoke_command s lrr = (zeroCommand CommandLeaseRevoke)
     \<lparr>LeaseID := LeaseRevokeRequest.ID lrr, ServiceID := service_id s,
      ClientID := LeaseRevokeRequest.ClientID lrr, RequestID := LeaseRevokeRequest.RequestID lrr\<rparr>"

definition revoke_response :: "Command \<Rightarrow> LeaseRevokeResponse option" where
  "revoke_response cmd =
     Some (revoke_status (if IsDuplicate cmd then StatusDuplicateRequest else StatusOK))"

definition handleLeaseRevoke_begin :: "LeaseRevokeRequest http_request \<Rightarrow> (Command \<Rightarrow> int) \<Rightarrow> KVService
    \<Rightarrow> (KVService, (LeaseRevokeRequest, LeaseRevokeResponse) handling) outcome" where
  "handleLeaseRevoke_begin req = begin_request req revoke_command (revoke_status StatusNotLeader)"

definition handleLeaseRevoke_end :: "LeaseRevokeRequest \<Rightarrow> select_case \<Rightarrow> nat \<Rightarrow> KVService
    \<Rightarrow> (KVService, LeaseRevokeResponse http_reply) outcome" where
  "handleLeaseRevoke_end lrr = end_request (revoke_status StatusFailedCommit) revoke_response"

subsection \<open>The lease expiry loop\<close>

text \<open>
  One tick of \<open>startLeaseExpiryLoop\<close>: the command it submits, if any. The loop neither waits for
  the entry nor looks at what \<open>Submit\<close> answers; it runs on every node, leading or not.
\<close>

definition lease_expiry_tick :: "int64 map_order \<Rightarrow> time \<Rightarrow> KVService \<Rightarrow> Command option" where
  "lease_expiry_tick ro now s =
     (let leaseIDs = CheckExpiredLeases ro now (dstore s)
      in if leaseIDs = [] then None
         else Some ((zeroCommand CommandLeaseExpiry)\<lparr>LeaseIDs := leaseIDs\<rparr>))"

lemmas handler_defs = handlePut_begin_def handlePut_end_def handleAppend_begin_def handleAppend_end_def
  handleGet_begin_def handleGet_end_def handleCAS_begin_def handleCAS_end_def handleList_begin_def
  handleList_end_def handleTxn_begin_def handleTxn_end_def handleLeaseGrant_begin_def
  handleLeaseGrant_end_def handleLeaseKeepAlive_begin_def handleLeaseKeepAlive_end_def
  handleLeaseRevoke_begin_def handleLeaseRevoke_end_def

lemmas command_defs = put_command_def append_command_def get_command_def cas_command_def
  list_command_def txn_command_def grant_command_def keepalive_command_def revoke_command_def

text \<open>Every command a handler builds is one that the apply loop can execute.\<close>

lemma handler_commands_submitted:
  "submitted (put_command s pr)" "submitted (append_command s ar)" "submitted (get_command s gr)"
  "submitted (cas_command s cr)" "submitted (list_command s lr)" "submitted (txn_command s tr)"
  "submitted (grant_command s gl)" "submitted (keepalive_command s kl)" "submitted (revoke_command s rl)"
  by (simp_all add: submitted_def command_defs zeroCommand_def)

lemma handler_commands_ServiceID:
  "ServiceID (put_command s pr) = service_id s" "ServiceID (append_command s ar) = service_id s"
  "ServiceID (get_command s gr) = service_id s" "ServiceID (cas_command s cr) = service_id s"
  "ServiceID (list_command s lr) = service_id s" "ServiceID (txn_command s tr) = service_id s"
  "ServiceID (grant_command s gl) = service_id s" "ServiceID (keepalive_command s kl) = service_id s"
  "ServiceID (revoke_command s rl) = service_id s"
  by (simp_all add: command_defs)

end
