(* ===== verification/Utf8.thy ===== *)
theory Utf8
  imports Zodiac_Prelude
begin

text \<open>
  UTF-8, as package \<open>unicode/utf8\<close> of the Go library reads and writes it. A Go string is a list of
  bytes; \<open>rune_len\<close> is the number of bytes of the character that \<open>DecodeRuneInString\<close> finds at the front, 0
  where the library finds none and reports the replacement character U+FFFD with the width of one byte. \<open>runes\<close>
  cuts a string into these pieces, \<open>to_valid\<close> replaces each malformed byte, and \<open>encode_rune\<close> is
  \<open>EncodeRune\<close>, which writes U+FFFD for a surrogate and for a number that is too large.
\<close>

subsection \<open>Reading\<close>

definition rune_size :: "nat \<Rightarrow> nat" where
  "rune_size a =
     (if a < 0x80 then 1 else if 0xC2 \<le> a \<and> a \<le> 0xDF then 2 else if 0xE0 \<le> a \<and> a \<le> 0xEF then 3
      else if 0xF0 \<le> a \<and> a \<le> 0xF4 then 4 else 0)"

definition second_ok :: "nat \<Rightarrow> nat \<Rightarrow> bool" where
  "second_ok a b \<longleftrightarrow>
     (if a = 0xE0 then 0xA0 else if a = 0xF0 then 0x90 else 0x80) \<le> b \<and>
     b \<le> (if a = 0xED then 0x9F else if a = 0xF4 then 0x8F else 0xBF)"

definition continues :: "char \<Rightarrow> bool" where
  "continues c \<longleftrightarrow> 0x80 \<le> (of_char c :: nat) \<and> (of_char c :: nat) \<le> 0xBF"

definition rune_len :: "string \<Rightarrow> nat" where
  "rune_len s =
     (case s of
        [] \<Rightarrow> 0
      | c # cs \<Rightarrow>
          let n = rune_size (of_char c) in
          if n \<le> 1 then n
          else if n \<le> length s \<and> second_ok (of_char c) (of_char (hd cs)) \<and> list_all continues (take (n - 2) (tl cs))
          then n else 0)"

lemma rune_size_bound: "rune_size a \<le> 4"
  by (simp add: rune_size_def)

lemma rune_len_Nil [simp]: "rune_len [] = 0"
  by (simp add: rune_len_def)

lemma rune_len_ascii [simp]: "(of_char c :: nat) < 128 \<Longrightarrow> rune_len (c # s) = 1"
  by (simp add: rune_len_def rune_size_def)

lemma rune_len_le: "rune_len s \<le> length s"
  by (simp add: rune_len_def Let_def rune_size_def split: list.splits)

lemma rune_len_one: "rune_len (c # s) = 1 \<longleftrightarrow> (of_char c :: nat) < 128"
  by (auto simp: rune_len_def rune_size_def Let_def)

text \<open>A character is recognised by its own bytes, whatever follows.\<close>

lemma rune_len_take:
  assumes "rune_len s \<noteq> 0"
  shows "rune_len (take (rune_len s) s @ q) = rune_len s"
proof -
  from assms obtain c cs where s: "s = c # cs"
    by (cases s) auto
  let ?n = "rune_size (of_char c)"
  show ?thesis
  proof (cases "?n \<le> 1")
    case True
    then have "?n = 1" "rune_len s = 1"
      using assms by (simp_all add: s rune_len_def Let_def split: if_splits)
    then show ?thesis
      by (simp add: s rune_len_def)
  next
    case False
    then have r: "rune_len s = ?n" and ok: "?n \<le> length s" "second_ok (of_char c) (of_char (hd cs))"
        "list_all continues (take (?n - 2) (tl cs))"
      using assms by (auto simp: s rune_len_def Let_def split: if_splits)
    then obtain d ds where cs: "cs = d # ds"
      using False s by (cases cs) auto
    obtain m where m: "?n = Suc (Suc m)"
      using False by (metis Suc_leI le_Suc_ex not_less plus_1_eq_Suc add_Suc)
    have "take ?n s @ q = c # d # take m ds @ q"
      by (simp add: s cs m)
    moreover have "m \<le> length ds"
      using ok(1) by (simp add: s cs m)
    ultimately show ?thesis
      using ok unfolding r by (simp add: rune_len_def m cs)
  qed
qed

lemma rune_len_bytes:
  assumes "1 < rune_len s" and "x \<in> set (take (rune_len s) s)"
  shows "128 \<le> (of_char x :: nat)"
proof -
  obtain c cs where s: "s = c # cs"
    using assms(1) by (cases s) auto
  let ?n = "rune_size (of_char c)"
  have r: "rune_len s = ?n" "1 < ?n" "?n \<le> length s" "second_ok (of_char c) (of_char (hd cs))"
      "list_all continues (take (?n - 2) (tl cs))"
    using assms(1) by (auto simp: s rune_len_def Let_def split: if_splits)
  then obtain d ds where cs: "cs = d # ds"
    using s by (cases cs) auto
  obtain m where m: "?n = Suc (Suc m)"
    using r(2) by (metis Suc_leI le_Suc_ex plus_1_eq_Suc add_Suc)
  have "128 \<le> (of_char c :: nat)" "128 \<le> (of_char d :: nat)"
    using r(2,4) by (auto simp: cs rune_size_def second_ok_def split: if_splits)
  moreover have "take (rune_len s) s = c # d # take m ds"
    unfolding r(1) m by (simp add: s cs)
  then have "x = c \<or> x = d \<or> x \<in> set (take m ds)"
    using assms(2) by simp
  ultimately show ?thesis
    using r(5) by (auto simp: cs m list_all_iff continues_def)
qed

text \<open>An ASCII byte ends every character that has begun before it.\<close>

lemma rune_len_append:
  assumes "x \<in> set s" and "(of_char x :: nat) < 128"
  shows "rune_len (s @ q) = rune_len s"
proof -
  obtain c cs where s: "s = c # cs"
    using assms(1) by (cases s) auto
  let ?n = "rune_size (of_char c)"
  show ?thesis
  proof (cases "1 < ?n \<and> length s < ?n")
    case False
    then have "1 < ?n \<Longrightarrow> ?n \<le> length s" by simp
    then have "hd (cs @ q) = hd cs \<and> take (?n - 2) (tl (cs @ q)) = take (?n - 2) (tl cs)" if "1 < ?n"
      using that s by (cases cs) auto
    then show ?thesis
      using False by (auto simp: s rune_len_def Let_def)
  next
    case True
    have "x \<noteq> c"
      using True assms(2) by (auto simp: rune_size_def)
    then obtain d ds where cs: "cs = d # ds"
      using assms(1) s by (cases cs) auto
    have "\<not> (second_ok (of_char c) (of_char d) \<and> list_all continues (take (?n - 2) (ds @ q)))"
    proof (cases "x = d")
      case True
      then show ?thesis
        using assms(2) by (simp add: second_ok_def)
    next
      case False
      then have "x \<in> set ds"
        using assms(1) \<open>x \<noteq> c\<close> by (simp add: s cs)
      moreover have "length ds \<le> ?n - 2"
        using True by (auto simp: s cs)
      ultimately have "x \<in> set (take (?n - 2) (ds @ q))"
        by simp
      moreover have "\<not> continues x"
        using assms(2) by (simp add: continues_def)
      ultimately show ?thesis
        by (auto simp: list_all_iff)
    qed
    then show ?thesis
      using True by (auto simp: s cs rune_len_def Let_def)
  qed
qed

subsection \<open>Cutting a string into characters\<close>

function runes :: "string \<Rightarrow> string list" where
  "runes s = (if s = [] then [] else let n = max 1 (rune_len s) in take n s # runes (drop n s))"
  by pat_completeness auto
termination
  by (relation "measure length") auto

declare runes.simps [simp del]

definition replacement :: string where
  "replacement = [CHR 0xEF, CHR 0xBF, CHR 0xBD]"

definition valid_rune :: "string \<Rightarrow> string" where
  "valid_rune r = (if rune_len r = 0 then replacement else r)"

definition to_valid :: "string \<Rightarrow> string" where
  "to_valid s = concat (map valid_rune (runes s))"

definition utf8 :: "string \<Rightarrow> bool" where
  "utf8 s \<longleftrightarrow> list_all (\<lambda>r. rune_len r \<noteq> 0) (runes s)"

text \<open>A piece: one character, or one byte that does not begin any.\<close>

definition piece :: "string \<Rightarrow> bool" where
  "piece r \<longleftrightarrow> r \<noteq> [] \<and> (rune_len r = length r \<or> length r = 1 \<and> rune_len r = 0)"

lemma runes_Nil [simp]: "runes [] = []"
  by (simp add: runes.simps)

lemma runes_ascii: "(of_char c :: nat) < 128 \<Longrightarrow> runes (c # s) = [c] # runes s"
  by (simp add: runes.simps [of "c # s"])

lemma runes_step:
  assumes "s \<noteq> []" shows "runes s = take (max 1 (rune_len s)) s # runes (drop (max 1 (rune_len s)) s)"
  using assms by (simp add: runes.simps [of s] Let_def)

lemma concat_runes: "concat (runes s) = s"
proof (induction s rule: runes.induct)
  case (1 s)
  then show ?case
    by (cases "s = []") (simp_all add: runes_step Let_def)
qed

lemma first_piece:
  assumes "s \<noteq> []"
  shows "piece (take (max 1 (rune_len s)) s)"
proof (cases "rune_len s = 0")
  case True
  obtain c cs where "s = c # cs"
    using assms by (cases s) auto
  with True rune_len_ascii [of c cs] have s: "s = c # cs" "\<not> (of_char c :: nat) < 128"
    by auto
  then have "rune_len [c] = 0"
    by (auto simp: rune_len_def rune_size_def Let_def)
  then show ?thesis
    using True s by (simp add: piece_def)
next
  case False
  then show ?thesis
    using assms rune_len_take [OF False, of "[]"] rune_len_le [of s] by (simp add: piece_def max_def)
qed

lemma runes_pieces: "r \<in> set (runes s) \<Longrightarrow> piece r"
proof (induction s rule: runes.induct)
  case (1 s)
  then show ?case
    using first_piece [of s] by (cases "s = []") (auto simp: runes_step Let_def)
qed

lemma to_valid_utf8: "utf8 s \<Longrightarrow> to_valid s = s"
proof -
  assume "utf8 s"
  then have "map valid_rune (runes s) = runes s"
    by (intro map_idI) (auto simp: utf8_def list_all_iff valid_rune_def)
  then show ?thesis
    by (simp add: to_valid_def concat_runes)
qed

lemma utf8_simps [simp]: "utf8 []" "(of_char c :: nat) < 128 \<Longrightarrow> utf8 (c # s) \<longleftrightarrow> utf8 s"
  by (simp_all add: utf8_def runes_ascii)

lemma to_valid_simps: "to_valid [] = []" "(of_char c :: nat) < 128 \<Longrightarrow> to_valid (c # s) = c # to_valid s"
  by (simp_all add: to_valid_def runes_ascii valid_rune_def)

lemma ascii_is_utf8: "list_all (\<lambda>c. (of_char c :: nat) < 128) s \<Longrightarrow> utf8 s"
  by (induction s) simp_all

text \<open>What is written instead of a malformed string is well-formed.\<close>

lemma rune_len_replacement: "rune_len (replacement @ s) = 3"
  by (simp add: replacement_def rune_len_def rune_size_def second_ok_def continues_def)

lemma rune_len_valid_rune:
  assumes "piece r" shows "rune_len (valid_rune r @ s) = length (valid_rune r)" and "valid_rune r \<noteq> []"
proof -
  show "rune_len (valid_rune r @ s) = length (valid_rune r)"
    using assms rune_len_take [of r s] rune_len_replacement [of s]
    by (auto simp: piece_def valid_rune_def replacement_def)
  show "valid_rune r \<noteq> []"
    using assms by (simp add: piece_def valid_rune_def replacement_def)
qed

lemma runes_concat_valid:
  "list_all piece rs \<Longrightarrow> runes (concat (map valid_rune rs)) = map valid_rune rs"
proof (induction rs)
  case (Cons r rs)
  then have "piece r" by simp
  note v = rune_len_valid_rune(1) [OF this, of "concat (map valid_rune rs)"] rune_len_valid_rune(2) [OF this]
  from v(2) have "max 1 (length (valid_rune r)) = length (valid_rune r)"
    by (cases "valid_rune r") simp_all
  with v Cons show ?case
    by (simp add: runes_step)
qed simp

lemma utf8_to_valid: "utf8 (to_valid s)"
proof -
  have p: "list_all piece (runes s)"
    by (auto simp: list_all_iff runes_pieces)
  have "rune_len (valid_rune r) \<noteq> 0" if "r \<in> set (runes s)" for r
    using rune_len_valid_rune(1) [OF runes_pieces [OF that], of "[]"] rune_len_valid_rune(2) [OF runes_pieces [OF that]]
    by simp
  then show ?thesis
    by (simp add: utf8_def to_valid_def runes_concat_valid [OF p] list_all_iff)
qed

subsection \<open>Writing\<close>

definition encode_rune :: "nat \<Rightarrow> string" where
  "encode_rune n =
     (if n < 0x80 then [char_of n]
      else if n < 0x800 then [char_of (0xC0 + n div 64), char_of (0x80 + n mod 64)]
      else if 0xD800 \<le> n \<and> n < 0xE000 then replacement
      else if n < 0x10000 then [char_of (0xE0 + n div 4096), char_of (0x80 + n div 64 mod 64), char_of (0x80 + n mod 64)]
      else if n < 0x110000
      then [char_of (0xF0 + n div 262144), char_of (0x80 + n div 4096 mod 64), char_of (0x80 + n div 64 mod 64),
            char_of (0x80 + n mod 64)]
      else replacement)"

lemma encode_rune_ascii: "n < 128 \<Longrightarrow> encode_rune n = [char_of n]"
  by (simp add: encode_rune_def)

text \<open>What it writes is one well-formed character.\<close>

lemma rune_len_encode_rune: "rune_len (encode_rune n @ s) = length (encode_rune n)"
proof -
  have m: "k mod 64 < 64" for k :: nat
    by simp
  have ch: "of_char (char_of k :: char) = k" if "k < 256" for k :: nat
    using that by simp
  consider "n < 0x80" | "0x80 \<le> n" "n < 0x800" | "0x800 \<le> n" "n < 0xD800 \<or> 0xE000 \<le> n" "n < 0x10000"
    | "0x10000 \<le> n" "n < 0x110000" | "0xD800 \<le> n" "n < 0xE000 \<or> 0x110000 \<le> n"
    by linarith
  then show ?thesis
  proof cases
    case 2
    then have "2 \<le> n div 64" "n div 64 < 32" by auto
    then show ?thesis
      using 2 m [of n] by (simp add: encode_rune_def rune_len_def rune_size_def second_ok_def)
  next
    case 3
    then have "n div 4096 < 16" by auto
    moreover have "n div 64 div 64 = n div 4096"
      by (simp flip: div_mult2_eq)
    then have "n div 64 = n div 4096 * 64 + n div 64 mod 64"
      using div_mult_mod_eq [of "n div 64" 64] by linarith
    moreover have "32 \<le> n div 64" "n < 55296 \<Longrightarrow> n div 64 < 864" "57344 \<le> n \<Longrightarrow> 14 \<le> n div 4096"
      using 3 by auto
    ultimately have "n div 4096 < 16" "n div 4096 = 0 \<Longrightarrow> 32 \<le> n div 64 mod 64"
      "n div 4096 = 13 \<Longrightarrow> n div 64 mod 64 < 32"
      using 3(2) by linarith+
    then show ?thesis
      using 3 m [of n] m [of "n div 64"]
      by (auto simp: encode_rune_def rune_len_def rune_size_def second_ok_def continues_def Let_def)
  next
    case 4
    then have "n div 262144 < 5" by auto
    moreover have "n div 4096 div 64 = n div 262144"
      by (simp flip: div_mult2_eq)
    then have "n div 4096 = n div 262144 * 64 + n div 4096 mod 64"
      using div_mult_mod_eq [of "n div 4096" 64] by linarith
    moreover have "16 \<le> n div 4096" "n div 4096 < 272"
      using 4 by auto
    ultimately have "n div 262144 < 5" "n div 262144 = 0 \<Longrightarrow> 16 \<le> n div 4096 mod 64"
      "n div 262144 = 4 \<Longrightarrow> n div 4096 mod 64 < 16"
      by linarith+
    then show ?thesis
      using 4 m [of n] m [of "n div 64"] m [of "n div 4096"]
      by (auto simp: encode_rune_def rune_len_def rune_size_def second_ok_def continues_def Let_def)
  next
    case 5
    then have "encode_rune n = replacement"
      by (auto simp: encode_rune_def)
    then show ?thesis
      by (simp add: rune_len_replacement) (simp add: replacement_def)
  qed (simp add: encode_rune_ascii)
qed

end
