(* ===== verification/Json.thy ===== *)
theory Json
  imports Api Strconv Utf8
begin

text \<open>
  JSON texts, as package \<open>encoding/json\<close> writes and reads them: \<open>print_json\<close> is what the encoder
  prints for a value, \<open>parse_json\<close> reads one value from the front of a text and returns the rest.

  A string is written character by character: quotes, backslashes, control characters, \<open><\<close>, \<open>>\<close>, \<open>&\<close>
  and the line separators U+2028 and U+2029 are escaped, a byte that is not part of a UTF-8 character
  becomes the escape of U+FFFD, and every other character is copied. The reader decodes the escapes, joins
  surrogate pairs, and puts U+FFFD in the place of a lone surrogate and of a malformed byte. So a string that is
  UTF-8 is read back as it was, and any other as \<open>to_valid\<close> of it.

  A number with a fraction or an exponent is read as \<open>JReal\<close>: no type of the program accepts one, but a
  field that is skipped may hold it. The program never writes one. The reader takes fuel for its nesting;
  twice the length of the text is enough, because between two nested values at least one character is read.
\<close>

subsection \<open>Writing\<close>

definition hex_digit :: "nat \<Rightarrow> char" where
  "hex_digit d = char_of (if d < 10 then d + 48 else d + 87)"

definition hex_value :: "char \<Rightarrow> nat option" where
  "hex_value c =
     (let n = of_char c in
      if 48 \<le> n \<and> n \<le> 57 then Some (n - 48) else if 97 \<le> n \<and> n \<le> 102 then Some (n - 87)
      else if 65 \<le> n \<and> n \<le> 70 then Some (n - 55) else None)"

text \<open>The characters with an escape of two characters, and the letter that stands for them.\<close>

definition short_escapes :: "(char \<times> char) list" where
  "short_escapes = [(CHR 0x22, CHR 0x22), (CHR 0x5C, CHR 0x5C), (CHR 0x08, CHR ''b''),
     (CHR 0x0C, CHR ''f''), (CHR 0x0A, CHR ''n''), (CHR 0x0D, CHR ''r''), (CHR 0x09, CHR ''t'')]"

definition escape_char :: "char \<Rightarrow> string" where
  "escape_char c =
     (case map_of short_escapes c of
        Some d \<Rightarrow> [CHR 0x5C, d]
      | None \<Rightarrow>
          let n = of_char c in
          if n < (32 :: nat) \<or> c \<in> set ''<>&''
          then CHR 0x5C # ''u00'' @ [hex_digit (n div 16), hex_digit (n mod 16)]
          else [c])"

definition escape_rune :: "string \<Rightarrow> string" where
  "escape_rune r =
     (if rune_len r = 0 then CHR 0x5C # ''ufffd''
      else if r = [CHR 0xE2, CHR 0x80, CHR 0xA8] then CHR 0x5C # ''u2028''
      else if r = [CHR 0xE2, CHR 0x80, CHR 0xA9] then CHR 0x5C # ''u2029''
      else if length r = 1 then escape_char (hd r)
      else r)"

definition escape :: "string \<Rightarrow> string" where
  "escape s = concat (map escape_rune (runes s))"

definition quote :: "string \<Rightarrow> string" where
  "quote s = CHR 0x22 # escape s @ [CHR 0x22]"

subsection \<open>Reading\<close>

text \<open>The four digits of an escaped code unit; two of them may make one character.\<close>

definition read_u4 :: "string \<Rightarrow> (nat \<times> string) option" where
  "read_u4 s =
     (case s of
        a # b # x # y # rest \<Rightarrow>
          (case (hex_value a, hex_value b, hex_value x, hex_value y) of
             (Some i, Some j, Some k, Some l) \<Rightarrow> Some (4096 * i + 256 * j + 16 * k + l, rest)
           | _ \<Rightarrow> None)
      | _ \<Rightarrow> None)"

definition is_surrogate :: "nat \<Rightarrow> bool" where
  "is_surrogate n \<longleftrightarrow> 0xD800 \<le> n \<and> n < 0xE000"

definition surrogate_pair :: "nat \<Rightarrow> nat \<Rightarrow> nat option" where
  "surrogate_pair hi lo =
     (if 0xD800 \<le> hi \<and> hi < 0xDC00 \<and> 0xDC00 \<le> lo \<and> lo < 0xE000
      then Some ((hi - 0xD800) * 1024 + (lo - 0xDC00) + 0x10000) else None)"

definition read_low :: "nat \<Rightarrow> string \<Rightarrow> (string \<times> string) option" where
  "read_low hi s =
     (case s of
        a # b # rest \<Rightarrow>
          if a = CHR 0x5C \<and> b = CHR ''u''
          then Option.bind (read_u4 rest)
                 (\<lambda>(lo, rest). map_option (\<lambda>n. (encode_rune n, rest)) (surrogate_pair hi lo))
          else None
      | _ \<Rightarrow> None)"

definition read_unicode :: "string \<Rightarrow> (string \<times> string) option" where
  "read_unicode s =
     (case read_u4 s of
        None \<Rightarrow> None
      | Some (n, rest) \<Rightarrow>
          if is_surrogate n
          then (case read_low n rest of Some x \<Rightarrow> Some x | None \<Rightarrow> Some (replacement, rest))
          else Some (encode_rune n, rest))"

text \<open>One character of a string literal: plain, or after a backslash.\<close>

definition read_escape :: "string \<Rightarrow> (string \<times> string) option" where
  "read_escape s =
     (case s of
        [] \<Rightarrow> None
      | c # cs \<Rightarrow>
          if c = CHR ''u'' then read_unicode cs
          else if c = CHR ''/'' then Some ([c], cs)
          else map_option (\<lambda>d. ([d], cs)) (map_of (map prod.swap short_escapes) c))"

definition read_char :: "string \<Rightarrow> (string \<times> string) option" where
  "read_char s =
     (case s of
        [] \<Rightarrow> None
      | c # cs \<Rightarrow>
          if c = CHR 0x5C then read_escape cs
          else if (of_char c :: nat) < 32 then None
          else if rune_len s = 0 then Some (replacement, cs)
          else Some (take (rune_len s) s, drop (rune_len s) s))"

lemma read_u4_shorter: "read_u4 s = Some (n, rest) \<Longrightarrow> length rest < length s"
  by (auto simp: read_u4_def split: list.splits option.splits)

lemma read_low_shorter: "read_low n s = Some (c, rest) \<Longrightarrow> length rest < length s"
  by (auto simp: read_low_def bind_eq_Some_conv dest!: read_u4_shorter split: list.splits if_splits)

lemma read_unicode_shorter: "read_unicode s = Some (c, rest) \<Longrightarrow> length rest < length s"
  by (fastforce simp: read_unicode_def dest: read_u4_shorter read_low_shorter split: option.splits if_splits)

lemma read_escape_shorter: "read_escape s = Some (c, rest) \<Longrightarrow> length rest < length s"
  by (auto simp: read_escape_def dest: read_unicode_shorter split: list.splits if_splits)

lemma read_char_shorter: "read_char s = Some (c, rest) \<Longrightarrow> length rest < length s"
  by (auto simp: read_char_def split: list.splits if_splits dest: read_escape_shorter)

text \<open>The rest of a string literal, after its opening quote.\<close>

function read_string :: "string \<Rightarrow> (string \<times> string) option" where
  "read_string s =
     (case s of
        [] \<Rightarrow> None
      | q # cs \<Rightarrow>
          if q = CHR 0x22 then Some ([], cs)
          else case read_char s of
                 None \<Rightarrow> None
               | Some (c, rest) \<Rightarrow> map_option (\<lambda>(t, r). (c @ t, r)) (read_string rest))"
  by pat_completeness auto
termination
  by (relation "measure length") (auto dest: read_char_shorter)

declare read_string.simps [simp del]

lemma read_string_Cons:
  "read_string (q # cs) =
     (if q = CHR 0x22 then Some ([], cs)
      else case read_char (q # cs) of
             None \<Rightarrow> None
           | Some (c, rest) \<Rightarrow> map_option (\<lambda>(t, r). (c @ t, r)) (read_string rest))"
  by (simp add: read_string.simps [of "q # cs"])

lemma read_string_Nil [simp]: "read_string [] = None"
  by (simp add: read_string.simps)

lemma hex_value_hex_digit: "d < 16 \<Longrightarrow> hex_value (hex_digit d) = Some d"
  by (auto simp: hex_value_def hex_digit_def)

lemma hex_digit_plain: "d < 16 \<Longrightarrow> 32 \<le> (of_char (hex_digit d) :: nat)"
  by (auto simp: hex_digit_def)

lemma read_escape_hex:
  assumes "(of_char c :: nat) < 128"
  shows "read_escape (''u00'' @ hex_digit (of_char c div 16) # hex_digit (of_char c mod 16) # s) = Some ([c], s)"
proof -
  have "of_char c div 16 < (16 :: nat)" "of_char c mod 16 < (16 :: nat)"
    using assms by simp_all
  moreover have "16 * (of_char c div 16) + of_char c mod 16 = (of_char c :: nat)"
    by simp
  moreover have "hex_value (CHR ''0'') = Some 0"
    by (simp add: hex_value_def)
  ultimately show ?thesis
    using assms
    by (simp add: read_escape_def read_unicode_def read_u4_def is_surrogate_def hex_value_hex_digit encode_rune_ascii)
qed

lemma read_escape_short:
  "map_of short_escapes c = Some d \<Longrightarrow> read_escape (d # s) = Some ([c], s)"
  by (auto simp: short_escapes_def read_escape_def split: if_splits)

lemma read_char_escape_char:
  assumes "(of_char c :: nat) < 128"
  shows "read_char (escape_char c @ s) = Some ([c], s)"
proof (cases "map_of short_escapes c")
  case None
  then have "c \<noteq> CHR 0x5C"
    by (auto simp: short_escapes_def)
  then show ?thesis
    using None assms read_escape_hex [OF assms, of s]
    by (auto simp: escape_char_def read_char_def Let_def)
next
  case (Some d)
  then show ?thesis
    by (simp add: escape_char_def read_char_def read_escape_short)
qed

lemma hex_letters: "hex_value (CHR ''f'') = Some 15" "hex_value (CHR ''d'') = Some 13" "hex_value (CHR ''2'') = Some 2"
  "hex_value (CHR ''0'') = Some 0" "hex_value (CHR ''8'') = Some 8" "hex_value (CHR ''9'') = Some 9"
  by (simp_all add: hex_value_def)

lemma read_char_special:
  "read_char (CHR 0x5C # ''ufffd'' @ s) = Some (replacement, s)"
  "read_char (CHR 0x5C # ''u2028'' @ s) = Some ([CHR 0xE2, CHR 0x80, CHR 0xA8], s)"
  "read_char (CHR 0x5C # ''u2029'' @ s) = Some ([CHR 0xE2, CHR 0x80, CHR 0xA9], s)"
  by (simp_all add: read_char_def read_escape_def read_unicode_def read_u4_def hex_letters is_surrogate_def
      encode_rune_def replacement_def char_of_def bit_0)

lemma piece_cases:
  assumes "piece r"
  obtains (malformed) "rune_len r = 0" | (plain) c where "r = [c]" and "(of_char c :: nat) < 128"
    | (wide) c cs where "r = c # cs" and "rune_len r = length r" and "1 < length r"
      and "\<And>x. x \<in> set r \<Longrightarrow> 128 \<le> (of_char x :: nat)"
proof -
  consider "rune_len r = 0" | "rune_len r = length r" "length r = 1" | "rune_len r = length r" "1 < length r"
    using assms by (cases "length r") (auto simp: piece_def)
  then show ?thesis
  proof cases
    case 2
    then obtain c where "r = [c]" by (cases r) auto
    with 2 rune_len_one [of c "[]"] show ?thesis by (auto intro: plain)
  next
    case 3
    then obtain c cs where "r = c # cs" by (cases r) auto
    with 3 rune_len_bytes [of r] show ?thesis by (auto intro: wide)
  qed (rule malformed)
qed

lemma read_char_escape_rune:
  assumes "piece r"
  shows "read_char (escape_rune r @ s) = Some (valid_rune r, s)"
  using assms
proof (cases rule: piece_cases)
  case malformed
  then show ?thesis
    using read_char_special(1) [of s] by (simp add: escape_rune_def valid_rune_def)
next
  case (plain c)
  then show ?thesis
    using read_char_escape_char [OF plain(2)] by (simp add: escape_rune_def valid_rune_def)
next
  case (wide c cs)
  have n: "rune_len (r @ s) = length r"
    using wide(1-3) rune_len_take [of r s] by simp
  have "128 \<le> (of_char c :: nat)"
    using wide(1,4) by simp
  then have "read_char (r @ s) = Some (r, s)"
    using wide(1,3) n by (auto simp: read_char_def)
  then show ?thesis
    using wide(2,3) read_char_special(2,3) [of s] by (auto simp: escape_rune_def valid_rune_def)
qed

lemma escape_char_starts_no_quote: "\<exists>x xs. escape_char c = x # xs \<and> x \<noteq> CHR 0x22"
  by (auto simp: escape_char_def short_escapes_def Let_def)

lemma escape_rune_starts_no_quote:
  assumes "piece r" shows "\<exists>x xs. escape_rune r = x # xs \<and> x \<noteq> CHR 0x22"
  using assms
proof (cases rule: piece_cases)
  case (plain c)
  then show ?thesis
    using escape_char_starts_no_quote [of c] by (simp add: escape_rune_def)
next
  case (wide c cs)
  then have "128 \<le> (of_char c :: nat)" by simp
  then show ?thesis
    using wide(1) escape_char_starts_no_quote [of c] by (auto simp: escape_rune_def)
qed (simp add: escape_rune_def)

text \<open>Every string is read back, with U+FFFD for what was malformed in it.\<close>

lemma read_string_pieces:
  "list_all piece rs \<Longrightarrow>
     read_string (concat (map escape_rune rs) @ CHR 0x22 # s) = Some (concat (map valid_rune rs), s)"
proof (induction rs)
  case Nil
  then show ?case
    by (simp add: read_string_Cons)
next
  case (Cons r rs)
  then have "piece r" by simp
  obtain x xs where x: "escape_rune r = x # xs" "x \<noteq> CHR 0x22"
    using escape_rune_starts_no_quote [OF \<open>piece r\<close>] by blast
  with Cons read_char_escape_rune [OF \<open>piece r\<close>, of "concat (map escape_rune rs) @ CHR 0x22 # s"]
  show ?case
    by (simp add: read_string_Cons)
qed

lemma read_string_coerced: "read_string (escape t @ CHR 0x22 # s) = Some (to_valid t, s)"
  unfolding escape_def to_valid_def by (rule read_string_pieces) (auto simp: list_all_iff runes_pieces)

lemma read_string_escape: "utf8 t \<Longrightarrow> read_string (escape t @ CHR 0x22 # s) = Some (t, s)"
  by (simp add: read_string_coerced to_valid_utf8)

lemma escape_simps:
  "escape [] = []" "(of_char c :: nat) < 128 \<Longrightarrow> escape (c # s) = escape_char c @ escape s"
  by (simp_all add: escape_def runes_ascii escape_rune_def)

subsection \<open>Numbers\<close>

definition format_int :: "int \<Rightarrow> string" where
  "format_int i = (if i < 0 then CHR ''-'' # format_nat (nat (- i)) else format_nat (nat i))"

lemma FormatInt_format_int: "FormatInt w = format_int (sint w)"
  by (simp add: FormatInt_def format_int_def)

definition number_char :: "char \<Rightarrow> bool" where
  "number_char c \<longleftrightarrow> is_digit c \<or> c \<in> set ''-+.eE''"

definition read_nat :: "string \<Rightarrow> int option" where
  "read_nat ds = (if ds = [] \<or> 1 < length ds \<and> hd ds = CHR ''0'' then None else digits_value 0 ds)"

definition read_int :: "string \<Rightarrow> int option" where
  "read_int tok =
     (if tok \<noteq> [] \<and> hd tok = CHR ''-'' then map_option uminus (read_nat (tl tok)) else read_nat tok)"

text \<open>The parts of a literal that is not a whole number: a fraction, an exponent.\<close>

definition fraction_rest :: "string \<Rightarrow> string option" where
  "fraction_rest t =
     (if t \<noteq> [] \<and> hd t = CHR ''.''
      then if takeWhile is_digit (tl t) = [] then None else Some (dropWhile is_digit (tl t))
      else Some t)"

definition exponent_rest :: "string \<Rightarrow> string option" where
  "exponent_rest t =
     (if t \<noteq> [] \<and> hd t \<in> set ''eE''
      then let u = tl t; v = (if u \<noteq> [] \<and> hd u \<in> set ''+-'' then tl u else u)
           in if takeWhile is_digit v = [] then None else Some (dropWhile is_digit v)
      else Some t)"

definition real_literal :: "string \<Rightarrow> bool" where
  "real_literal tok \<longleftrightarrow>
     (let t = (if tok \<noteq> [] \<and> hd tok = CHR ''-'' then tl tok else tok)
      in read_nat (takeWhile is_digit t) \<noteq> None \<and>
         Option.bind (fraction_rest (dropWhile is_digit t)) exponent_rest = Some [])"

lemma format_nat_leading: "0 < n \<Longrightarrow> hd (format_nat n) \<noteq> CHR ''0''"
proof (induction n rule: format_nat.induct)
  case (1 n)
  show ?case
  proof (cases "n < 10")
    case True
    then have "(of_char (hd (format_nat n)) :: nat) = n + 48"
      by (simp add: format_nat.simps [of n] of_digit_char)
    then show ?thesis
      using "1.prems" by force
  next
    case False
    then show ?thesis
      using "1.IH" by (simp add: format_nat.simps [of n] hd_append)
  qed
qed

lemma read_nat_format_nat: "read_nat (format_nat n) = Some (int n)"
proof -
  have "\<not> (1 < length (format_nat n) \<and> hd (format_nat n) = CHR ''0'')"
  proof (cases "n = 0")
    case True
    then show ?thesis
      by (simp add: format_nat.simps [of 0])
  next
    case False
    then show ?thesis
      using format_nat_leading [of n] by simp
  qed
  then show ?thesis
    by (auto simp: read_nat_def digits_value_format_nat)
qed

lemma format_int_nonempty [simp]: "format_int i \<noteq> []"
  by (simp add: format_int_def)

lemma format_int_chars: "c \<in> set (format_int i) \<Longrightarrow> number_char c"
  by (auto simp: format_int_def number_char_def dest: format_nat_digits split: if_splits)

lemma hd_format_int: "number_char (hd (format_int i))"
  by (rule format_int_chars [OF hd_in_set]) simp

lemma format_int_first:
  obtains c cs where "format_int i = c # cs" and "number_char c" and "c \<noteq> CHR ''e''" and "c \<noteq> CHR ''E''"
proof -
  obtain c cs where f: "format_int i = c # cs"
    by (cases "format_int i") simp_all
  then have "is_digit c \<or> c = CHR ''-''"
    using format_nat_digits [of c "nat i"] by (auto simp: format_int_def split: if_splits)
  then have "c \<noteq> CHR ''e''" "c \<noteq> CHR ''E''"
    by (auto simp: is_digit_def)
  then show ?thesis
    using that f format_int_chars [of c i] by simp
qed

lemma read_int_format_int: "read_int (format_int i) = Some i"
  using hd_format_nat_unsigned(2) [of "nat i"]
  by (simp add: read_int_def format_int_def read_nat_format_nat)

text \<open>Where a number ends.\<close>

definition stops :: "string \<Rightarrow> bool" where
  "stops r \<longleftrightarrow> r = [] \<or> \<not> number_char (hd r)"

subsection \<open>Values\<close>

datatype json =
    JNull
  | JBool bool
  | JNum int
  | JReal string
  | JStr string
  | JArr "json list"
  | JObj "(string \<times> json) list"

definition read_number :: "string \<Rightarrow> (json \<times> string) option" where
  "read_number s =
     (let tok = takeWhile number_char s; rest = dropWhile number_char s in
      case read_int tok of
        Some i \<Rightarrow> Some (JNum i, rest)
      | None \<Rightarrow> if real_literal tok then Some (JReal tok, rest) else None)"

lemma read_number_format_int:
  assumes "stops r"
  shows "read_number (format_int i @ r) = Some (JNum i, r)"
proof -
  have "takeWhile number_char r = []" "dropWhile number_char r = r"
    using assms by (cases r; simp add: stops_def)+
  then have "takeWhile number_char (format_int i @ r) = format_int i" "dropWhile number_char (format_int i @ r) = r"
    by (simp_all add: takeWhile_append2 dropWhile_append2 format_int_chars)
  then show ?thesis
    by (simp add: read_number_def read_int_format_int)
qed

fun commas :: "string list \<Rightarrow> string" where
  "commas [] = []"
| "commas [w] = w"
| "commas (w # ws) = w @ CHR '','' # commas ws"

fun print_json :: "json \<Rightarrow> string" where
  "print_json JNull = ''null''"
| "print_json (JBool b) = (if b then ''true'' else ''false'')"
| "print_json (JNum i) = format_int i"
| "print_json (JReal t) = t"
| "print_json (JStr t) = quote t"
| "print_json (JArr js) = CHR ''['' # commas (map print_json js) @ '']''"
| "print_json (JObj kvs) = CHR ''{'' # commas (map (\<lambda>kv. quote (fst kv) @ CHR '':'' # print_json (snd kv)) kvs) @ ''}''"

definition json_space :: "char \<Rightarrow> bool" where
  "json_space c \<longleftrightarrow> c \<in> {CHR '' '', CHR 0x09, CHR 0x0A, CHR 0x0D}"

fun skip :: "string \<Rightarrow> string" where
  "skip [] = []"
| "skip (c # s) = (if json_space c then skip s else c # s)"

definition literals :: "(string \<times> json) list" where
  "literals = [(''null'', JNull), (''true'', JBool True), (''false'', JBool False)]"

definition read_literal :: "string \<Rightarrow> (json \<times> string) option" where
  "read_literal s =
     map_option (\<lambda>(w, j). (j, drop (length w) s)) (find (\<lambda>(w, j). HasPrefix s w) literals)"

text \<open>\<open>next_char c s\<close>: skip white space, then the character \<open>c\<close>.\<close>

definition next_char :: "char \<Rightarrow> string \<Rightarrow> string option" where
  "next_char c s = (case skip s of [] \<Rightarrow> None | x # r \<Rightarrow> if x = c then Some r else None)"

fun parse_value :: "nat \<Rightarrow> string \<Rightarrow> (json \<times> string) option"
  and parse_elems :: "nat \<Rightarrow> string \<Rightarrow> (json list \<times> string) option"
  and parse_fields :: "nat \<Rightarrow> string \<Rightarrow> ((string \<times> json) list \<times> string) option" where
  "parse_value 0 s = None"
| "parse_value (Suc f) s =
     (case skip s of
        [] \<Rightarrow> None
      | c # cs \<Rightarrow>
          if c = CHR 0x22 then map_option (\<lambda>(t, r). (JStr t, r)) (read_string cs)
          else if c = CHR ''['' then
            (case next_char (CHR '']'') cs of
               Some r \<Rightarrow> Some (JArr [], r)
             | None \<Rightarrow> map_option (\<lambda>(js, r). (JArr js, r)) (parse_elems f cs))
          else if c = CHR ''{'' then
            (case next_char (CHR ''}'') cs of
               Some r \<Rightarrow> Some (JObj [], r)
             | None \<Rightarrow> map_option (\<lambda>(kvs, r). (JObj kvs, r)) (parse_fields f cs))
          else if number_char c \<and> c \<noteq> CHR ''e'' \<and> c \<noteq> CHR ''E''
          then read_number (c # cs)
          else read_literal (c # cs))"
| "parse_elems 0 s = None"
| "parse_elems (Suc f) s =
     (case parse_value f s of
        None \<Rightarrow> None
      | Some (j, r) \<Rightarrow>
          (case next_char (CHR '','') r of
             Some r' \<Rightarrow> map_option (\<lambda>(js, q). (j # js, q)) (parse_elems f r')
           | None \<Rightarrow> map_option (\<lambda>q. ([j], q)) (next_char (CHR '']'') r)))"
| "parse_fields 0 s = None"
| "parse_fields (Suc f) s =
     (case next_char (CHR 0x22) s of
        None \<Rightarrow> None
      | Some cs \<Rightarrow>
          (case read_string cs of
             None \<Rightarrow> None
           | Some (k, r) \<Rightarrow>
               (case next_char (CHR '':'') r of
                  None \<Rightarrow> None
                | Some r \<Rightarrow>
                    (case parse_value f r of
                       None \<Rightarrow> None
                     | Some (v, r) \<Rightarrow>
                         (case next_char (CHR '','') r of
                            Some r' \<Rightarrow> map_option (\<lambda>(kvs, q). ((k, v) # kvs, q)) (parse_fields f r')
                          | None \<Rightarrow> map_option (\<lambda>q. ([(k, v)], q)) (next_char (CHR ''}'') r))))))"

definition parse_json :: "string \<Rightarrow> (json \<times> string) option" where
  "parse_json s = parse_value (2 * length s) s"

subsection \<open>Reading back what was printed\<close>

text \<open>What the program writes: strings in UTF-8 and whole numbers.\<close>

fun json_plain :: "json \<Rightarrow> bool" where
  "json_plain (JStr t) = utf8 t"
| "json_plain (JReal t) = False"
| "json_plain (JArr js) = list_all json_plain js"
| "json_plain (JObj kvs) = list_all (\<lambda>kv. utf8 (fst kv) \<and> json_plain (snd kv)) kvs"
| "json_plain _ = True"

text \<open>What is read back of any value: its strings made well-formed.\<close>

fun whole :: "json \<Rightarrow> bool" where
  "whole (JReal t) = False"
| "whole (JArr js) = list_all whole js"
| "whole (JObj kvs) = list_all (\<lambda>kv. whole (snd kv)) kvs"
| "whole _ = True"

fun coerced :: "json \<Rightarrow> json" where
  "coerced (JStr t) = JStr (to_valid t)"
| "coerced (JArr js) = JArr (map coerced js)"
| "coerced (JObj kvs) = JObj (map (\<lambda>kv. (to_valid (fst kv), coerced (snd kv))) kvs)"
| "coerced j = j"

lemma json_plain_coerced: "json_plain j \<Longrightarrow> whole j \<and> coerced j = j"
proof (induction j)
  case (JArr js)
  then show ?case
    by (auto simp: list_all_iff intro: map_idI)
next
  case (JObj kvs)
  have "whole (snd kv) \<and> coerced (snd kv) = snd kv \<and> to_valid (fst kv) = fst kv" if "kv \<in> set kvs" for kv
    using JObj.IH [OF that, of "snd kv"] JObj.prems that by (cases kv) (auto simp: list_all_iff to_valid_utf8)
  then show ?case
    by (auto simp: list_all_iff intro!: map_idI)
qed (simp_all add: to_valid_utf8)

lemma number_char_no_space: "number_char c \<Longrightarrow> \<not> json_space c \<and> c \<notin> set ''[{,:]}'' \<and> c \<noteq> CHR 0x22"
  by (auto simp: number_char_def is_digit_def json_space_def)

lemma next_char_here: "\<not> json_space c \<Longrightarrow> next_char c (c # r) = Some r"
  by (simp add: next_char_def)

lemma next_char_other: "\<not> json_space x \<Longrightarrow> x \<noteq> c \<Longrightarrow> next_char c (x # r) = None"
  by (simp add: next_char_def)

lemma punctuation: "\<not> json_space (CHR '','')" "\<not> json_space (CHR '']'')" "\<not> json_space (CHR ''}'')"
  "\<not> json_space (CHR '':'')" "\<not> json_space (CHR 0x22)"
  by (simp_all add: json_space_def)

lemma stops_punctuation [simp]: "stops (CHR '','' # r)" "stops (CHR '']'' # r)" "stops (CHR ''}'' # r)"
  "stops (CHR 0x0A # r)" "stops []"
  by (simp_all add: stops_def number_char_def is_digit_def)

lemmas next_char_simps = next_char_here [OF punctuation(1)] next_char_here [OF punctuation(2)]
  next_char_here [OF punctuation(3)] next_char_here [OF punctuation(4)] next_char_here [OF punctuation(5)]
  next_char_other [OF punctuation(2)] next_char_other [OF punctuation(3)]

text \<open>What the induction gives for one value.\<close>

definition reads_back :: "json \<Rightarrow> bool" where
  "reads_back j \<longleftrightarrow> (\<forall>f r. 2 * length (print_json j) \<le> f \<longrightarrow> stops r \<longrightarrow>
     parse_value f (print_json j @ r) = Some (coerced j, r))"

lemma reads_backD:
  "reads_back j \<Longrightarrow> 2 * length (print_json j) \<le> f \<Longrightarrow> stops r \<Longrightarrow> parse_value f (print_json j @ r) = Some (coerced j, r)"
  by (simp add: reads_back_def)

lemma parse_elems_print:
  assumes "js \<noteq> []" and "\<And>j. j \<in> set js \<Longrightarrow> reads_back j" and "2 * length (commas (map print_json js)) + 2 \<le> f"
  shows "parse_elems f (commas (map print_json js) @ CHR '']'' # r) = Some (map coerced js, r)"
  using assms
proof (induction "map print_json js" arbitrary: js f rule: commas.induct)
  case (2 w)
  then obtain j f' where "js = [j]" "f = Suc f'"
    by (cases f) auto
  then show ?case
    using 2 by (auto simp: next_char_simps reads_backD)
next
  case (3 w v vs)
  then obtain j k ks f' where js: "js = j # k # ks" "w = print_json j" "v # vs = map print_json (k # ks)" and f: "f = Suc f'"
    by (cases f) (auto simp: map_eq_Cons_conv Cons_eq_map_conv)
  have "parse_elems f' (commas (v # vs) @ CHR '']'' # r) = Some (map coerced (k # ks), r)"
    using 3(1) [of "k # ks" f'] js 3(4,5) f 3(2) by (auto simp: Cons_eq_map_conv)
  moreover have "parse_value f' (print_json j @ CHR '','' # commas (v # vs) @ CHR '']'' # r) =
      Some (coerced j, CHR '','' # commas (v # vs) @ CHR '']'' # r)"
    using 3(4,5) js f 3(2) [symmetric] by (intro reads_backD) auto
  ultimately show ?case
    using js f 3(2) [symmetric] by (simp add: next_char_simps)
qed simp

definition print_field :: "string \<times> json \<Rightarrow> string" where
  "print_field kv = quote (fst kv) @ CHR '':'' # print_json (snd kv)"

lemma print_json_JObj: "print_json (JObj kvs) = CHR ''{'' # commas (map print_field kvs) @ ''}''"
  by (simp add: print_field_def [abs_def])

definition coerced_field :: "string \<times> json \<Rightarrow> string \<times> json" where
  "coerced_field kv = (to_valid (fst kv), coerced (snd kv))"

lemma parse_field_key:
  "parse_fields (Suc f) (quote k @ CHR '':'' # s) =
    (case parse_value f s of
       None \<Rightarrow> None
     | Some (v, r) \<Rightarrow>
         (case next_char (CHR '','') r of
            Some r' \<Rightarrow> map_option (\<lambda>(kvs, q). ((to_valid k, v) # kvs, q)) (parse_fields f r')
          | None \<Rightarrow> map_option (\<lambda>q. ([(to_valid k, v)], q)) (next_char (CHR ''}'') r)))"
  using read_string_coerced [of k "CHR '':'' # s"] by (simp add: quote_def next_char_simps)

lemma parse_fields_print:
  assumes "kvs \<noteq> []" and "\<And>kv. kv \<in> set kvs \<Longrightarrow> reads_back (snd kv)"
    and "2 * length (commas (map print_field kvs)) + 2 \<le> f"
  shows "parse_fields f (commas (map print_field kvs) @ CHR ''}'' # r) = Some (map coerced_field kvs, r)"
  using assms
proof (induction "map print_field kvs" arbitrary: kvs f rule: commas.induct)
  case (2 w)
  then obtain kv f' where kv: "kvs = [kv]" "f = Suc f'"
    by (cases f) auto
  have "parse_value f' (print_json (snd kv) @ CHR ''}'' # r) = Some (coerced (snd kv), CHR ''}'' # r)"
    using 2(3,4) kv by (intro reads_backD) (auto simp: print_field_def)
  then show ?case
    using kv parse_field_key [of f' "fst kv"] by (simp add: print_field_def coerced_field_def next_char_simps)
next
  case (3 w v vs)
  then obtain a b bs f' where js: "kvs = a # b # bs" "w = print_field a" "v # vs = map print_field (b # bs)" and f: "f = Suc f'"
    by (cases f) (auto simp: map_eq_Cons_conv Cons_eq_map_conv)
  let ?rest = "commas (v # vs) @ CHR ''}'' # r"
  have len: "2 * length (print_field a) + 2 * length (commas (v # vs)) + 4 \<le> f"
    using 3(5) js 3(2) [symmetric] by simp
  have "parse_fields f' ?rest = Some (map coerced_field (b # bs), r)"
    using 3(1) [of "b # bs" f'] js 3(4) len f by auto
  moreover have "parse_value f' (print_json (snd a) @ CHR '','' # ?rest) = Some (coerced (snd a), CHR '','' # ?rest)"
    using 3(4) js len f by (intro reads_backD) (auto simp: print_field_def)
  ultimately show ?case
    using js f 3(2) [symmetric] parse_field_key [of f' "fst a" "print_json (snd a) @ CHR '','' # ?rest"]
    by (simp add: print_field_def coerced_field_def next_char_simps)
qed simp

lemma print_starts:
  assumes "whole j"
  shows "\<exists>x xs. print_json j = x # xs \<and> \<not> json_space x \<and> x \<noteq> CHR '']'' \<and> x \<noteq> CHR ''}''"
proof (cases j)
  case (JNum i)
  then show ?thesis
    using hd_format_int [of i] by (cases "format_int i") (auto dest: number_char_no_space)
qed (use assms in \<open>simp_all add: quote_def json_space_def\<close>)

lemma next_char_elems:
  assumes "js \<noteq> []" and "list_all whole js"
  shows "next_char (CHR '']'') (commas (map print_json js) @ r) = None"
proof (cases js)
  case (Cons j ks)
  then obtain x xs where "print_json j = x # xs" "\<not> json_space x" "x \<noteq> CHR '']''"
    using print_starts [of j] assms(2) by auto
  then show ?thesis
    using Cons by (cases ks) (simp_all add: next_char_other)
qed (use assms in simp)

lemma next_char_fields: "kvs \<noteq> [] \<Longrightarrow> next_char (CHR ''}'') (commas (map print_field kvs) @ r) = None"
proof (cases kvs)
  case (Cons j ks)
  then show ?thesis
    by (cases ks) (simp_all add: next_char_def json_space_def print_field_def quote_def)
qed simp

lemma reads_backI:
  assumes "whole j"
    and "\<And>f r. 2 * length (print_json j) \<le> Suc f \<Longrightarrow> stops r \<Longrightarrow> parse_value (Suc f) (print_json j @ r) = Some (coerced j, r)"
  shows "reads_back j"
  unfolding reads_back_def
proof (intro allI impI)
  fix f r
  assume f: "2 * length (print_json j) \<le> f" and r: "stops r"
  have "print_json j \<noteq> []"
    using print_starts [OF assms(1)] by auto
  then obtain f' where "f = Suc f'"
    using f by (cases f) auto
  then show "parse_value f (print_json j @ r) = Some (coerced j, r)"
    using assms(2) f r by simp
qed

lemma reads_back_literal: "reads_back JNull" "reads_back (JBool b)"
  by (rule reads_backI, auto simp: json_space_def number_char_def is_digit_def read_literal_def literals_def HasPrefix_def)+

lemma reads_back_num: "reads_back (JNum i)"
proof (rule reads_backI)
  fix f r
  assume r: "stops r"
  obtain c cs where c: "format_int i = c # cs" "number_char c" "c \<noteq> CHR ''e''" "c \<noteq> CHR ''E''"
    by (rule format_int_first)
  then show "parse_value (Suc f) (print_json (JNum i) @ r) = Some (coerced (JNum i), r)"
    using number_char_no_space [OF c(2)] read_number_format_int [OF r, of i] by auto
qed simp

lemma reads_back_str: "reads_back (JStr t)"
  by (rule reads_backI) (auto simp: quote_def json_space_def read_string_coerced)

lemma reads_back_arr:
  assumes "\<And>j. j \<in> set js \<Longrightarrow> reads_back j" and plain: "whole (JArr js)"
  shows "reads_back (JArr js)"
proof (rule reads_backI)
  fix f r
  assume "2 * length (print_json (JArr js)) \<le> Suc f"
  then have f: "2 * length (commas (map print_json js)) + 2 \<le> f"
    by simp
  show "parse_value (Suc f) (print_json (JArr js) @ r) = Some (coerced (JArr js), r)"
    using parse_elems_print [OF _ assms(1) f, of r] next_char_elems [of js] plain
    by (cases "js = []") (simp_all add: json_space_def next_char_simps)
qed (rule plain)

lemma reads_back_obj:
  assumes "\<And>kv. kv \<in> set kvs \<Longrightarrow> reads_back (snd kv)" and plain: "whole (JObj kvs)"
  shows "reads_back (JObj kvs)"
proof (rule reads_backI)
  fix f r
  assume "2 * length (print_json (JObj kvs)) \<le> Suc f"
  then have f: "2 * length (commas (map print_field kvs)) + 2 \<le> f"
    unfolding print_json_JObj by simp
  show "parse_value (Suc f) (print_json (JObj kvs) @ r) = Some (coerced (JObj kvs), r)"
    unfolding print_json_JObj using parse_fields_print [OF _ assms(1) f, of r] next_char_fields [of kvs]
    by (cases "kvs = []") (simp_all add: json_space_def next_char_simps coerced_field_def [abs_def])
qed (rule plain)

lemma print_reads_back: "whole j \<Longrightarrow> reads_back j"
proof (induction j)
  case (JArr js)
  then show ?case
    by (intro reads_back_arr) (auto simp: list_all_iff)
next
  case (JObj kvs)
  have "reads_back (snd kv)" if "kv \<in> set kvs" for kv
    using JObj.IH [OF that, of "snd kv"] JObj.prems that by (cases kv) (auto simp: list_all_iff)
  then show ?case
    using JObj.prems by (rule reads_back_obj)
qed (simp_all add: reads_back_literal reads_back_num reads_back_str)

lemma parse_print_coerced:
  assumes "whole j" and "stops r"
  shows "parse_json (print_json j @ r) = Some (coerced j, r)"
  unfolding parse_json_def using reads_backD [OF print_reads_back [OF assms(1)] _ assms(2)] by simp

lemma parse_print:
  assumes "json_plain j" and "stops r"
  shows "parse_json (print_json j @ r) = Some (j, r)"
  using parse_print_coerced [of j r] json_plain_coerced [OF assms(1)] assms(2) by simp

subsection \<open>The text stays on one line\<close>

lemma escape_char_printable: "x \<in> set (escape_char c) \<Longrightarrow> 32 \<le> (of_char x :: nat)"
proof (cases "map_of short_escapes c")
  case None
  assume x: "x \<in> set (escape_char c)"
  have "of_char c div 16 < (16 :: nat)" "of_char c mod 16 < (16 :: nat)"
    by (rule less_mult_imp_div_less, simp) simp
  then have "32 \<le> (of_char (hex_digit (of_char c div 16)) :: nat)"
    "32 \<le> (of_char (hex_digit (of_char c mod 16)) :: nat)"
    by (auto intro: hex_digit_plain)
  then show ?thesis
    using None x by (auto simp: escape_char_def Let_def split: if_splits)
next
  case (Some d)
  assume "x \<in> set (escape_char c)"
  then show ?thesis
    using Some by (auto simp: escape_char_def short_escapes_def split: if_splits)
qed

lemma escape_rune_printable:
  assumes "piece r" and "x \<in> set (escape_rune r)"
  shows "32 \<le> (of_char x :: nat)"
  using assms(1)
proof (cases rule: piece_cases)
  case (plain c)
  then show ?thesis
    using assms(2) escape_char_printable [of x c] by (simp add: escape_rune_def)
next
  case (wide c cs)
  then have "x \<in> set r \<Longrightarrow> 32 \<le> (of_char x :: nat)"
    by fastforce
  then show ?thesis
    using assms(2) wide(2,3) by (auto simp: escape_rune_def split: if_splits)
qed (use assms(2) in \<open>auto simp: escape_rune_def\<close>)

lemma quote_printable: "x \<in> set (quote s) \<Longrightarrow> 32 \<le> (of_char x :: nat)"
  by (auto simp: quote_def escape_def dest: runes_pieces escape_rune_printable)

lemma format_int_printable: "x \<in> set (format_int i) \<Longrightarrow> 32 \<le> (of_char x :: nat)"
  using format_int_chars [of x i] by (auto simp: number_char_def is_digit_def)

lemma commas_set: "x \<in> set (commas ws) \<Longrightarrow> x = CHR '','' \<or> (\<exists>w \<in> set ws. x \<in> set w)"
  by (induction ws rule: commas.induct) auto

lemma print_json_printable: "json_plain j \<Longrightarrow> x \<in> set (print_json j) \<Longrightarrow> 32 \<le> (of_char x :: nat)"
proof (induction j arbitrary: x)
  case (JArr js)
  then show ?case
    by (auto simp: list_all_iff dest!: commas_set)
next
  case (JObj kvs)
  then show ?case
    by (fastforce simp: list_all_iff dest!: commas_set dest: quote_printable)
qed (auto dest: quote_printable format_int_printable split: if_splits)

subsection \<open>More text after a value\<close>

lemma read_u4_extend: "read_u4 s = Some (n, r) \<Longrightarrow> read_u4 (s @ q) = Some (n, r @ q)"
  by (auto simp: read_u4_def split: list.splits option.splits)

lemma read_u4_digits: "read_u4 s = Some z \<Longrightarrow> c \<in> set (take 4 s) \<Longrightarrow> hex_value c \<noteq> None"
  by (auto simp: read_u4_def numeral_eq_Suc split: list.splits option.splits)

lemma read_u4_refuses: "read_u4 s = None \<Longrightarrow> CHR 0x22 \<in> set s \<Longrightarrow> read_u4 (s @ q) = None"
proof -
  assume n: "read_u4 s = None" and q: "CHR 0x22 \<in> set s"
  have h: "hex_value (CHR 0x22) = None"
    by (simp add: hex_value_def)
  show ?thesis
  proof (cases "4 \<le> length s")
    case True
    then obtain a b x y rest where "s = a # b # x # y # rest"
      by (auto simp: numeral_eq_Suc Suc_le_length_iff)
    then show ?thesis
      using n by (auto simp: read_u4_def split: option.splits)
  next
    case False
    then have "CHR 0x22 \<in> set (take 4 (s @ q))"
      using q by simp
    then show ?thesis
      using h read_u4_digits [of "s @ q"] by (cases "read_u4 (s @ q)") fastforce+
  qed
qed

lemma read_low_extend:
  assumes "read_low n s = Some (c, r)"
  shows "read_low n (s @ q) = Some (c, r @ q)"
proof -
  obtain t lo k where s: "s = CHR 0x5C # CHR ''u'' # t" and t: "read_u4 t = Some (lo, r)"
    and k: "surrogate_pair n lo = Some k" "c = encode_rune k"
    using assms by (auto simp: read_low_def bind_eq_Some_conv split: list.splits if_splits)
  from read_u4_extend [OF t, of q] k show ?thesis
    by (simp add: s read_low_def)
qed

lemma read_low_refuses:
  assumes "read_low n s = None" and "CHR 0x22 \<in> set s"
  shows "read_low n (s @ q) = None"
proof -
  consider c where "s = [c]" "c = CHR 0x22" | a b t where "s = a # b # t"
    using assms(2) by (cases s rule: remdups_adj.cases) auto
  then show ?thesis
  proof cases
    case 1
    then show ?thesis
      by (cases q) (auto simp: read_low_def)
  next
    case (2 a b t)
    show ?thesis
    proof (cases "a = CHR 0x5C \<and> b = CHR ''u''")
      case True
      then have t: "CHR 0x22 \<in> set t"
        using assms(2) 2 by auto
      show ?thesis
      proof (cases "read_u4 t")
        case None
        then show ?thesis
          using True 2 read_u4_refuses [OF None t] by (simp add: read_low_def)
      next
        case (Some x)
        then show ?thesis
          using True 2 assms(1) read_u4_extend [of t] by (cases x) (auto simp: read_low_def)
      qed
    qed (use 2 in \<open>auto simp: read_low_def\<close>)
  qed
qed

lemma read_unicode_extend:
  assumes "read_unicode s = Some (c, r)" and "CHR 0x22 \<in> set r"
  shows "read_unicode (s @ q) = Some (c, r @ q)"
proof -
  obtain n t where n: "read_u4 s = Some (n, t)"
    using assms(1) by (auto simp: read_unicode_def split: option.splits)
  note n' = read_u4_extend [OF n, of q]
  show ?thesis
  proof (cases "is_surrogate n")
    case False
    then show ?thesis
      using n n' assms(1) by (simp add: read_unicode_def)
  next
    case True
    show ?thesis
    proof (cases "read_low n t")
      case None
      then have "r = t" "c = replacement"
        using True n assms(1) by (simp_all add: read_unicode_def)
      then show ?thesis
        using True n' read_low_refuses [OF None, of q] assms(2) by (simp add: read_unicode_def)
    next
      case (Some x)
      then show ?thesis
        using True n n' assms(1) read_low_extend [of n t c r q] by (simp add: read_unicode_def)
    qed
  qed
qed

lemma read_escape_extend:
  assumes "read_escape s = Some (c, r)" and "CHR 0x22 \<in> set r"
  shows "read_escape (s @ q) = Some (c, r @ q)"
  using assms by (auto simp: read_escape_def read_unicode_extend split: list.splits if_splits)

lemma read_char_extend:
  assumes "read_char s = Some (c, r)" and "CHR 0x22 \<in> set r"
  shows "read_char (s @ q) = Some (c, r @ q)"
proof -
  obtain x cs where s: "s = x # cs"
    using assms(1) by (cases s) (auto simp: read_char_def)
  show ?thesis
  proof (cases "x = CHR 0x5C")
    case True
    then show ?thesis
      using assms read_escape_extend [of cs c r q] by (simp add: s read_char_def)
  next
    case False
    have "CHR 0x22 \<in> set s"
      using assms False by (auto simp: s read_char_def dest: in_set_dropD split: if_splits)
    then have "rune_len (s @ q) = rune_len s"
      by (rule rune_len_append) simp
    moreover have "take (rune_len s) (s @ q) = take (rune_len s) s" "drop (rune_len s) (s @ q) = drop (rune_len s) s @ q"
      using rune_len_le [of s] by simp_all
    ultimately show ?thesis
      using assms(1) False unfolding s by (auto simp: read_char_def split: if_splits)
  qed
qed

lemma read_u4_suffix: "read_u4 s = Some (n, r) \<Longrightarrow> set r \<subseteq> set s"
  by (auto simp: read_u4_def split: list.splits option.splits)

lemma read_low_suffix: "read_low n s = Some (c, r) \<Longrightarrow> set r \<subseteq> set s"
  by (auto simp: read_low_def bind_eq_Some_conv dest!: read_u4_suffix split: list.splits if_splits)

lemma read_unicode_suffix: "read_unicode s = Some (c, r) \<Longrightarrow> set r \<subseteq> set s"
  by (fastforce simp: read_unicode_def dest: read_u4_suffix read_low_suffix split: option.splits if_splits)

lemma read_char_suffix: "read_char s = Some (c, r) \<Longrightarrow> set r \<subseteq> set s"
  by (auto simp: read_char_def read_escape_def dest: read_unicode_suffix in_set_dropD split: list.splits if_splits)

lemma read_string_quote: "read_string s = Some (t, r) \<Longrightarrow> CHR 0x22 \<in> set s"
proof (induction s arbitrary: t r rule: read_string.induct)
  case (1 s)
  obtain x cs where s: "s = x # cs"
    using "1.prems" by (cases s) simp_all
  show ?case
  proof (cases "x = CHR 0x22")
    case False
    then obtain c u t' where c: "read_char s = Some (c, u)" and u: "read_string u = Some (t', r)"
      using "1.prems" s by (auto simp: read_string_Cons split: option.splits)
    have "CHR 0x22 \<in> set u"
      using "1.IH" [OF s False c refl u] .
    moreover have "set u \<subseteq> set s"
      using read_char_suffix [OF c] .
    ultimately show ?thesis by blast
  qed (simp add: s)
qed

lemma read_string_extend: "read_string s = Some (t, r) \<Longrightarrow> read_string (s @ q) = Some (t, r @ q)"
proof (induction s arbitrary: t r rule: read_string.induct)
  case (1 s)
  obtain x cs where s: "s = x # cs"
    using "1.prems" by (cases s) simp_all
  show ?case
  proof (cases "x = CHR 0x22")
    case True
    then show ?thesis
      using "1.prems" s by (simp add: read_string_Cons)
  next
    case False
    then obtain c u t' where c: "read_char s = Some (c, u)" "read_string u = Some (t', r)" "t = c @ t'"
      using "1.prems" s by (auto simp: read_string_Cons split: option.splits)
    moreover from this have "read_string (u @ q) = Some (t', r @ q)"
      using "1.IH" [OF s False] by simp
    ultimately show ?thesis
      using False s read_char_extend [OF c(1) read_string_quote [OF c(2)], of q] by (simp add: read_string_Cons)
  qed
qed

lemma skip_append: "skip s \<noteq> [] \<Longrightarrow> skip (s @ q) = skip s @ q"
  by (induction s) auto

lemma next_char_extend: "next_char c s = Some r \<Longrightarrow> next_char c (s @ q) = Some (r @ q)"
  using skip_append [of s q] by (auto simp: next_char_def split: list.splits if_splits)

lemma next_char_refuses: "next_char c s = None \<Longrightarrow> skip s \<noteq> [] \<Longrightarrow> next_char c (s @ q) = None"
  using skip_append [of s q] by (auto simp: next_char_def split: list.splits if_splits)

lemma next_char_nonempty: "next_char c s = Some r \<Longrightarrow> s \<noteq> [] \<and> skip s \<noteq> []"
  by (auto simp: next_char_def split: list.splits)

text \<open>A punctuation mark that decides how to go on is found again in the longer text.\<close>

lemma next_char_either:
  assumes "next_char c s = None" and "next_char d s = Some r"
  shows "next_char c (s @ q) = None"
  using assms next_char_nonempty by (blast intro: next_char_refuses)

fun is_number :: "json \<Rightarrow> bool" where
  "is_number (JNum i) = True"
| "is_number (JReal t) = True"
| "is_number _ = False"

lemma read_number_extend:
  assumes "read_number s = Some (j, r)" and "r \<noteq> []"
  shows "read_number (s @ q) = Some (j, r @ q)"
proof -
  have r: "dropWhile number_char s = r"
    using assms(1) by (auto simp: read_number_def Let_def split: option.splits if_splits)
  then have "\<not> number_char (hd r)" "hd r \<in> set s"
    using assms(2) hd_dropWhile [of number_char s] set_dropWhileD [of "hd r" number_char s] by auto
  then have "takeWhile number_char (s @ q) = takeWhile number_char s" "dropWhile number_char (s @ q) = r @ q"
    using r by (auto simp: takeWhile_append1 dropWhile_append1)
  then show ?thesis
    using assms(1) by (auto simp: read_number_def Let_def split: option.splits if_splits)
qed

lemma read_number_is_number: "read_number s = Some (j, r) \<Longrightarrow> is_number j"
  by (auto simp: read_number_def Let_def split: option.splits if_splits)

lemma read_literal_extend: "read_literal s = Some (j, r) \<Longrightarrow> read_literal (s @ q) = Some (j, r @ q)"
  by (auto simp: read_literal_def literals_def HasPrefix_def split: if_splits)

definition extends_value :: "nat \<Rightarrow> bool" where
  "extends_value f \<longleftrightarrow> (\<forall>s j r g q. parse_value f s = Some (j, r) \<longrightarrow> r \<noteq> [] \<or> \<not> is_number j \<longrightarrow>
     f \<le> g \<longrightarrow> parse_value g (s @ q) = Some (j, r @ q))"

definition extends_elems :: "nat \<Rightarrow> bool" where
  "extends_elems f \<longleftrightarrow> (\<forall>s js r g q. parse_elems f s = Some (js, r) \<longrightarrow> f \<le> g \<longrightarrow>
     parse_elems g (s @ q) = Some (js, r @ q))"

definition extends_fields :: "nat \<Rightarrow> bool" where
  "extends_fields f \<longleftrightarrow> (\<forall>s kvs r g q. parse_fields f s = Some (kvs, r) \<longrightarrow> f \<le> g \<longrightarrow>
     parse_fields g (s @ q) = Some (kvs, r @ q))"

lemma extends_elems_step:
  assumes v: "extends_value f" and e: "extends_elems f"
  shows "extends_elems (Suc f)"
  unfolding extends_elems_def
proof (intro allI impI)
  fix s js r g q
  assume h: "parse_elems (Suc f) s = Some (js, r)" and "Suc f \<le> g"
  then obtain g' where g: "g = Suc g'" "f \<le> g'"
    by (cases g) auto
  obtain j u where j: "parse_value f s = Some (j, u)"
    using h by (auto split: option.splits)
  have u: "u \<noteq> []"
    using h j by (auto dest: next_char_nonempty split: option.splits)
  then have j': "parse_value g' (s @ q) = Some (j, u @ q)"
    using v j g(2) unfolding extends_value_def by blast
  show "parse_elems g (s @ q) = Some (js, r @ q)"
  proof (cases "next_char (CHR '','') u")
    case None
    then have "next_char (CHR '']'') u = Some r" "js = [j]"
      using h j by auto
    then show ?thesis
      using g(1) j' next_char_either [OF None] next_char_extend by simp
  next
    case (Some w)
    then obtain ks where "parse_elems f w = Some (ks, r)" "js = j # ks"
      using h j by auto
    then show ?thesis
      using e g j' next_char_extend [OF Some, of q] unfolding extends_elems_def by simp
  qed
qed

lemma extends_fields_step:
  assumes v: "extends_value f" and e: "extends_fields f"
  shows "extends_fields (Suc f)"
  unfolding extends_fields_def
proof (intro allI impI)
  fix s kvs r g q
  assume h: "parse_fields (Suc f) s = Some (kvs, r)" and "Suc f \<le> g"
  then obtain g' where g: "g = Suc g'" "f \<le> g'"
    by (cases g) auto
  obtain cs k t t' j u where k: "next_char (CHR 0x22) s = Some cs" "read_string cs = Some (k, t)"
    "next_char (CHR '':'') t = Some t'" and j: "parse_value f t' = Some (j, u)"
    using h by (auto split: option.splits)
  have u: "u \<noteq> []"
    using h k j by (auto dest: next_char_nonempty split: option.splits)
  then have j': "parse_value g' (t' @ q) = Some (j, u @ q)"
    using v j g(2) unfolding extends_value_def by blast
  note k' = next_char_extend [OF k(1), of q] read_string_extend [OF k(2), of q] next_char_extend [OF k(3), of q]
  show "parse_fields g (s @ q) = Some (kvs, r @ q)"
  proof (cases "next_char (CHR '','') u")
    case None
    then have "next_char (CHR ''}'') u = Some r" "kvs = [(k, j)]"
      using h k j by auto
    then show ?thesis
      using g(1) k' j' next_char_either [OF None] next_char_extend by simp
  next
    case (Some w)
    then obtain ls where "parse_fields f w = Some (ls, r)" "kvs = (k, j) # ls"
      using h k j by auto
    then show ?thesis
      using e g k' j' next_char_extend [OF Some, of q] unfolding extends_fields_def by simp
  qed
qed

lemma parse_value_nonempty: "parse_value f s = Some x \<Longrightarrow> skip s \<noteq> []"
  by (cases f) auto

lemma parse_elems_nonempty: "parse_elems f s = Some x \<Longrightarrow> skip s \<noteq> []"
  by (cases f) (auto dest: parse_value_nonempty split: option.splits)

lemma parse_fields_nonempty: "parse_fields f s = Some x \<Longrightarrow> skip s \<noteq> []"
  by (cases f) (auto dest: next_char_nonempty split: option.splits)

lemma extend_array:
  assumes e: "extends_elems f" and g: "f \<le> g"
    and h: "(case next_char (CHR '']'') cs of
         Some r \<Rightarrow> Some (JArr [], r)
       | None \<Rightarrow> map_option (\<lambda>(js, r). (JArr js, r)) (parse_elems f cs)) = Some (j, r)"
  shows "(case next_char (CHR '']'') (cs @ q) of
         Some r \<Rightarrow> Some (JArr [], r)
       | None \<Rightarrow> map_option (\<lambda>(js, r). (JArr js, r)) (parse_elems g (cs @ q))) = Some (j, r @ q)"
proof (cases "next_char (CHR '']'') cs")
  case None
  then obtain js where "parse_elems f cs = Some (js, r)" "j = JArr js"
    using h by auto
  then show ?thesis
    using e g next_char_refuses [OF None] parse_elems_nonempty unfolding extends_elems_def by simp
qed (use h in \<open>auto simp: next_char_extend\<close>)

lemma extend_object:
  assumes d: "extends_fields f" and g: "f \<le> g"
    and h: "(case next_char (CHR ''}'') cs of
         Some r \<Rightarrow> Some (JObj [], r)
       | None \<Rightarrow> map_option (\<lambda>(kvs, r). (JObj kvs, r)) (parse_fields f cs)) = Some (j, r)"
  shows "(case next_char (CHR ''}'') (cs @ q) of
         Some r \<Rightarrow> Some (JObj [], r)
       | None \<Rightarrow> map_option (\<lambda>(kvs, r). (JObj kvs, r)) (parse_fields g (cs @ q))) = Some (j, r @ q)"
proof (cases "next_char (CHR ''}'') cs")
  case None
  then obtain kvs where "parse_fields f cs = Some (kvs, r)" "j = JObj kvs"
    using h by auto
  then show ?thesis
    using d g next_char_refuses [OF None] parse_fields_nonempty unfolding extends_fields_def by simp
qed (use h in \<open>auto simp: next_char_extend\<close>)

lemma extends_value_step:
  assumes e: "extends_elems f" and d: "extends_fields f"
  shows "extends_value (Suc f)"
  unfolding extends_value_def
proof (intro allI impI)
  fix s j r g q
  assume h: "parse_value (Suc f) s = Some (j, r)" and n: "r \<noteq> [] \<or> \<not> is_number j" and "Suc f \<le> g"
  then obtain g' where g: "g = Suc g'" "f \<le> g'"
    by (cases g) auto
  obtain c cs where c: "skip s = c # cs"
    using parse_value_nonempty [OF h] by (cases "skip s") auto
  then have c': "skip (s @ q) = c # cs @ q"
    using skip_append [of s q] by simp
  consider "c = CHR 0x22" | "c = CHR ''[''" | "c = CHR ''{''" |
    "c \<notin> {CHR 0x22, CHR ''['', CHR ''{''}" "number_char c \<and> c \<noteq> CHR ''e'' \<and> c \<noteq> CHR ''E''" |
    "c \<notin> {CHR 0x22, CHR ''['', CHR ''{''}" "\<not> (number_char c \<and> c \<noteq> CHR ''e'' \<and> c \<noteq> CHR ''E'')"
    by auto
  then show "parse_value g (s @ q) = Some (j, r @ q)"
  proof cases
    case 1
    then show ?thesis
      using h c c' g by (auto simp: read_string_extend)
  next
    case 2
    then show ?thesis
      using h c c' g extend_array [OF e g(2)] by simp
  next
    case 3
    then show ?thesis
      using h c c' g extend_object [OF d g(2)] by simp
  next
    case 4
    then show ?thesis
      using h c c' g n read_number_extend [of "c # cs" j r q] read_number_is_number [of "c # cs" j r] by auto
  next
    case 5
    then show ?thesis
      using h c c' g read_literal_extend [of "c # cs" j r q] by auto
  qed
qed

lemma extends_all: "extends_value f \<and> extends_elems f \<and> extends_fields f"
proof (induction f)
  case 0
  show ?case
    by (simp add: extends_value_def extends_elems_def extends_fields_def)
next
  case (Suc f)
  then show ?case
    by (simp add: extends_value_step extends_elems_step extends_fields_step)
qed

lemma parse_json_extend:
  assumes "parse_json s = Some (j, r)" and "r \<noteq> [] \<or> \<not> is_number j"
  shows "parse_json (s @ q) = Some (j, r @ q)"
  using extends_all [of "2 * length s"] assms unfolding parse_json_def extends_value_def by simp

text \<open>So a printed object is not read before its last character has been seen.\<close>

lemma parse_json_object: "parse_json (CHR ''{'' # s) = Some (j, r) \<Longrightarrow> \<exists>kvs. j = JObj kvs"
  by (cases "2 * length (CHR ''{'' # s)") (auto simp: parse_json_def json_space_def split: option.splits)

lemma parse_json_cut:
  assumes "json_plain (JObj kvs)" and "print_json (JObj kvs) = d @ q" and "q \<noteq> []"
  shows "parse_json d = None"
proof (rule ccontr)
  assume "parse_json d \<noteq> None"
  then obtain j r where j: "parse_json d = Some (j, r)"
    by auto
  then have "d \<noteq> []"
    by (auto simp: parse_json_def)
  then obtain d' where "d = CHR ''{'' # d'"
    using assms(2) by (cases d) (auto simp: print_json_JObj)
  then have "\<exists>kvs. j = JObj kvs"
    using j parse_json_object by blast
  then have "parse_json (d @ q) = Some (j, r @ q)"
    using parse_json_extend [OF j] by auto
  moreover have "parse_json (d @ q) = Some (JObj kvs, [])"
    using parse_print [OF assms(1), of "[]"] assms(2) by simp
  ultimately show False
    using assms(3) by simp
qed

end
