(* ===== verification/Wire.thy ===== *)
theory Wire
  imports Handlers Json
begin

text \<open>
  How the wire types of package \<open>api\<close> are written and read as JSON: one list of fields per struct, with
  the names of its \<open>json\<close> tags (the Go field name where there is no tag), and on these lists what
  \<open>encoding/json\<close> does with a struct. \<open>encode_struct\<close> writes the fields in order and leaves out empty
  ones that are tagged \<open>omitempty\<close>. \<open>decode_struct\<close> reads an object into a struct that may already
  hold values: a name is matched exactly or else ignoring the case of letters, \<open>null\<close> leaves a
  field as it is, a number must fit the field, a list is read over the elements the field already has,
  and an unknown name is skipped, or refused if the decoder is strict. \<open>jtype\<close> is the shape of a text
  that such a struct accepts. The locale \<open>codec\<close> is the contract a struct has with the wire; it is
  interpreted for every struct the program sends.

  A nil slice is written \<open>null\<close> and an empty one \<open>[]\<close>; the model has one empty list, which it writes
  \<open>null\<close>, and both texts are read as the empty list.
\<close>

subsection \<open>Shapes of texts\<close>

datatype jtype = TBool | TStr | TInt | TArr jtype | TMap | TObj "(string \<times> jtype) list"

definition in_int64 :: "int \<Rightarrow> bool" where
  "in_int64 i \<longleftrightarrow> minInt64 \<le> i \<and> i \<le> maxInt64"

definition lower :: "char \<Rightarrow> char" where
  "lower c = (if 65 \<le> (of_char c :: nat) \<and> (of_char c :: nat) \<le> 90 then char_of (of_char c + 32 :: nat) else c)"

text \<open>
  \<open>foldName\<close>: two characters outside ASCII have an ASCII letter as another case of theirs, the long s
  (U+017F) and the Kelvin sign (U+212A).
\<close>

fun fold_name :: "string \<Rightarrow> string" where
  "fold_name [] = []"
| "fold_name (c # s) =
     (if c = CHR 0xC5 \<and> HasPrefix s [CHR 0xBF] then CHR ''s'' # fold_name (drop 1 s)
      else if c = CHR 0xE2 \<and> HasPrefix s [CHR 0x84, CHR 0xAA] then CHR ''k'' # fold_name (drop 2 s)
      else lower c # fold_name s)"

definition field_named :: "('b \<Rightarrow> string) \<Rightarrow> 'b list \<Rightarrow> string \<Rightarrow> 'b option" where
  "field_named nm fs k =
     (case find (\<lambda>f. nm f = k) fs of
        Some f \<Rightarrow> Some f
      | None \<Rightarrow> find (\<lambda>f. fold_name (nm f) = fold_name k) fs)"

fun has_type :: "bool \<Rightarrow> jtype \<Rightarrow> json \<Rightarrow> bool" where
  "has_type strict t JNull = True"
| "has_type strict TBool (JBool b) = True"
| "has_type strict TStr (JStr s) = True"
| "has_type strict TInt (JNum i) = in_int64 i"
| "has_type strict (TArr t) (JArr js) = list_all (has_type strict t) js"
| "has_type strict TMap (JObj kvs) = list_all (\<lambda>kv. has_type strict TStr (snd kv)) kvs"
| "has_type strict (TObj ts) (JObj kvs) =
     list_all (\<lambda>kv. case field_named fst ts (fst kv) of
                      None \<Rightarrow> \<not> strict
                    | Some nt \<Rightarrow> has_type strict (snd nt) (snd kv)) kvs"
| "has_type strict _ _ = False"

subsection \<open>Structs\<close>

record 'a field =
  fname :: string
  ftype :: jtype
  fget :: "'a \<Rightarrow> json option"
  fput :: "bool \<Rightarrow> json \<Rightarrow> 'a \<Rightarrow> 'a option"

definition encode_struct :: "'a field list \<Rightarrow> 'a \<Rightarrow> json" where
  "encode_struct fs x = JObj (List.map_filter (\<lambda>f. map_option (Pair (fname f)) (fget f x)) fs)"

fun decode_fields :: "bool \<Rightarrow> 'a field list \<Rightarrow> (string \<times> json) list \<Rightarrow> 'a \<Rightarrow> 'a option" where
  "decode_fields strict fs [] x = Some x"
| "decode_fields strict fs ((k, j) # kvs) x =
     (case field_named fname fs k of
        None \<Rightarrow> if strict then None else decode_fields strict fs kvs x
      | Some f \<Rightarrow> Option.bind (fput f strict j x) (decode_fields strict fs kvs))"

fun decode_struct :: "bool \<Rightarrow> 'a field list \<Rightarrow> json \<Rightarrow> 'a \<Rightarrow> 'a option" where
  "decode_struct strict fs JNull x = Some x"
| "decode_struct strict fs (JObj kvs) x = decode_fields strict fs kvs x"
| "decode_struct strict fs _ x = None"

definition struct_type :: "'a field list \<Rightarrow> jtype" where
  "struct_type fs = TObj (map (\<lambda>f. (fname f, ftype f)) fs)"

fun decode_list :: "(json \<Rightarrow> 'e \<Rightarrow> 'e option) \<Rightarrow> 'e \<Rightarrow> json list \<Rightarrow> 'e list \<Rightarrow> 'e list option" where
  "decode_list dec zero [] old = Some []"
| "decode_list dec zero (j # js) old =
     Option.bind (dec j (if old = [] then zero else hd old))
       (\<lambda>x. map_option (Cons x) (decode_list dec zero js (tl old)))"

subsection \<open>Kinds of fields\<close>

definition str_field :: "string \<Rightarrow> bool \<Rightarrow> ('a \<Rightarrow> string) \<Rightarrow> ((string \<Rightarrow> string) \<Rightarrow> 'a \<Rightarrow> 'a) \<Rightarrow> 'a field" where
  "str_field n omitempty get upd =
     \<lparr>fname = n, ftype = TStr,
      fget = (\<lambda>x. if omitempty \<and> get x = '''' then None else Some (JStr (get x))),
      fput = (\<lambda>_ j x. case j of JNull \<Rightarrow> Some x | JStr s \<Rightarrow> Some (upd (\<lambda>_. s) x) | _ \<Rightarrow> None)\<rparr>"

definition bool_field :: "string \<Rightarrow> ('a \<Rightarrow> bool) \<Rightarrow> ((bool \<Rightarrow> bool) \<Rightarrow> 'a \<Rightarrow> 'a) \<Rightarrow> 'a field" where
  "bool_field n get upd =
     \<lparr>fname = n, ftype = TBool, fget = (\<lambda>x. Some (JBool (get x))),
      fput = (\<lambda>_ j x. case j of JNull \<Rightarrow> Some x | JBool b \<Rightarrow> Some (upd (\<lambda>_. b) x) | _ \<Rightarrow> None)\<rparr>"

text \<open>A Go integer, given by its value and by what a value makes of the field.\<close>

definition num_field :: "string \<Rightarrow> bool \<Rightarrow> ('a \<Rightarrow> int) \<Rightarrow> (int \<Rightarrow> 'a \<Rightarrow> 'a) \<Rightarrow> 'a field" where
  "num_field n omitempty get put =
     \<lparr>fname = n, ftype = TInt,
      fget = (\<lambda>x. if omitempty \<and> get x = 0 then None else Some (JNum (get x))),
      fput = (\<lambda>_ j x. case j of
                        JNull \<Rightarrow> Some x
                      | JNum i \<Rightarrow> if in_int64 i then Some (put i x) else None
                      | _ \<Rightarrow> None)\<rparr>"

abbreviation int64_field :: "string \<Rightarrow> bool \<Rightarrow> ('a \<Rightarrow> int64) \<Rightarrow> ((int64 \<Rightarrow> int64) \<Rightarrow> 'a \<Rightarrow> 'a) \<Rightarrow> 'a field" where
  "int64_field n omitempty get upd \<equiv> num_field n omitempty (\<lambda>x. sint (get x)) (\<lambda>i. upd (\<lambda>_. word_of_int i))"

abbreviation int_field :: "string \<Rightarrow> ('a \<Rightarrow> int) \<Rightarrow> ((int \<Rightarrow> int) \<Rightarrow> 'a \<Rightarrow> 'a) \<Rightarrow> 'a field" where
  "int_field n get upd \<equiv> num_field n False get (\<lambda>i. upd (\<lambda>_. i))"

abbreviation enum_field :: "string \<Rightarrow> ('e \<Rightarrow> int) \<Rightarrow> (int \<Rightarrow> 'e) \<Rightarrow> ('a \<Rightarrow> 'e) \<Rightarrow> (('e \<Rightarrow> 'e) \<Rightarrow> 'a \<Rightarrow> 'a) \<Rightarrow> 'a field" where
  "enum_field n code of_code get upd \<equiv> num_field n False (\<lambda>x. code (get x)) (\<lambda>i. upd (\<lambda>_. of_code i))"

definition list_field :: "string \<Rightarrow> 'e field list \<Rightarrow> 'e \<Rightarrow> ('a \<Rightarrow> 'e list) \<Rightarrow> (('e list \<Rightarrow> 'e list) \<Rightarrow> 'a \<Rightarrow> 'a) \<Rightarrow> 'a field" where
  "list_field n fs zero get upd =
     \<lparr>fname = n, ftype = TArr (struct_type fs),
      fget = (\<lambda>x. Some (if get x = [] then JNull else JArr (map (encode_struct fs) (get x)))),
      fput = (\<lambda>strict j x. case j of
                JNull \<Rightarrow> Some (upd (\<lambda>_. []) x)
              | JArr js \<Rightarrow>
                  map_option (\<lambda>es. upd (\<lambda>_. es) x) (decode_list (decode_struct strict fs) zero js (get x))
              | _ \<Rightarrow> None)\<rparr>"

text \<open>A map from strings to strings is written with its keys sorted, and read key by key into the map
  that is there.\<close>

fun decode_pairs :: "(string \<times> json) list \<Rightarrow> (string, string) fmap \<Rightarrow> (string, string) fmap option" where
  "decode_pairs [] m = Some m"
| "decode_pairs ((k, j) # kvs) m =
     (case j of
        JNull \<Rightarrow> decode_pairs kvs (fmupd k '''' m)
      | JStr v \<Rightarrow> decode_pairs kvs (fmupd k v m)
      | _ \<Rightarrow> None)"

definition map_field :: "string \<Rightarrow> ('a \<Rightarrow> (string, string) fmap) \<Rightarrow>
    (((string, string) fmap \<Rightarrow> (string, string) fmap) \<Rightarrow> 'a \<Rightarrow> 'a) \<Rightarrow> 'a field" where
  "map_field n get upd =
     \<lparr>fname = n, ftype = TMap,
      fget = (\<lambda>x. Some (JObj (map (\<lambda>k. (k, JStr (the (fmlookup (get x) k)))) (sorted_list_of_fset (fmdom (get x)))))),
      fput = (\<lambda>_ j x. case j of
                JNull \<Rightarrow> Some (upd (\<lambda>_. fmempty) x)
              | JObj kvs \<Rightarrow> map_option (\<lambda>m. upd (\<lambda>_. m) x) (decode_pairs kvs (get x))
              | _ \<Rightarrow> None)\<rparr>"

lemmas field_defs = str_field_def bool_field_def num_field_def list_field_def map_field_def

subsection \<open>What is accepted\<close>

definition typed :: "'a field \<Rightarrow> bool" where
  "typed f \<longleftrightarrow> (\<forall>strict j x. fput f strict j x \<noteq> None \<longleftrightarrow> has_type strict (ftype f) j)"

lemma find_map: "find P (map h xs) = map_option h (find (\<lambda>x. P (h x)) xs)"
  by (induction xs) simp_all

lemma field_named_map: "field_named nm (map h fs) k = map_option h (field_named (\<lambda>f. nm (h f)) fs k)"
  by (simp add: field_named_def find_map split: option.splits)

lemma field_named_SomeD: "field_named nm fs k = Some f \<Longrightarrow> f \<in> set fs"
  by (auto simp: field_named_def find_Some_iff split: option.splits)

lemma decode_fields_typed:
  assumes "list_all typed fs"
  shows "decode_fields strict fs kvs x \<noteq> None \<longleftrightarrow> has_type strict (struct_type fs) (JObj kvs)"
proof (induction kvs arbitrary: x)
  case (Cons kv kvs)
  obtain k j where kv: "kv = (k, j)"
    by (cases kv)
  show ?case
  proof (cases "field_named fname fs k")
    case None
    then show ?thesis
      using Cons.IH [of x] by (cases strict) (simp_all add: kv struct_type_def field_named_map)
  next
    case (Some f)
    then have "typed f"
      using assms field_named_SomeD [of fname fs k f] by (simp add: list_all_iff)
    then have "(fput f strict j x \<noteq> None) = has_type strict (ftype f) j"
      by (simp add: typed_def)
    then show ?thesis
      using Cons.IH Some by (cases "fput f strict j x") (auto simp: kv struct_type_def field_named_map)
  qed
qed (simp add: struct_type_def)

lemma decode_struct_typed:
  assumes "list_all typed fs"
  shows "decode_struct strict fs j x \<noteq> None \<longleftrightarrow> has_type strict (struct_type fs) j"
proof (cases j)
  case (JObj kvs)
  then show ?thesis
    using decode_fields_typed [OF assms] by simp
qed (simp_all add: struct_type_def)

lemma decode_list_typed:
  assumes "\<And>j x. dec j x \<noteq> None \<longleftrightarrow> has_type strict t j"
  shows "decode_list dec zero js old \<noteq> None \<longleftrightarrow> list_all (has_type strict t) js"
proof (induction js arbitrary: old)
  case (Cons j js)
  show ?case
    using Cons.IH [of "tl old"] assms [of j "if old = [] then zero else hd old"]
    by (cases "dec j (if old = [] then zero else hd old)") auto
qed simp

lemma decode_pairs_typed: "decode_pairs kvs m \<noteq> None \<longleftrightarrow> has_type strict TMap (JObj kvs)"
proof (induction kvs arbitrary: m)
  case (Cons kv kvs)
  then show ?case
    by (cases kv; cases "snd kv") auto
qed simp

lemma typed_fields [simp]:
  "typed (str_field n e sget supd)" "typed (bool_field n bget bupd)" "typed (num_field n e nget nput)"
  "typed (map_field n mget mupd)"
  using decode_pairs_typed by (auto simp: typed_def field_defs split: json.splits)

lemma typed_list_field [simp]:
  assumes "list_all typed fs"
  shows "typed (list_field n fs zero get upd)"
  using decode_list_typed [OF decode_struct_typed [OF assms]]
  by (auto simp: typed_def list_field_def split: json.splits)

lemma decode_list_encode:
  "list_all (\<lambda>x. dec (enc x) zero = Some x) xs \<Longrightarrow> decode_list dec zero (map enc xs) [] = Some xs"
  by (induction xs) simp_all

subsection \<open>Enumerations as numbers\<close>

fun status_code :: "ResponseStatus \<Rightarrow> int" where
  "status_code StatusInvalid = 0"
| "status_code StatusOK = 1"
| "status_code StatusNotLeader = 2"
| "status_code StatusFailedCommit = 3"
| "status_code StatusDuplicateRequest = 4"
| "status_code (StatusUnknown i) = i"

definition status_of :: "int \<Rightarrow> ResponseStatus" where
  "status_of i =
     (if i = 0 then StatusInvalid else if i = 1 then StatusOK else if i = 2 then StatusNotLeader
      else if i = 3 then StatusFailedCommit else if i = 4 then StatusDuplicateRequest else StatusUnknown i)"

fun compare_code :: "CompareOp \<Rightarrow> int" where
  "compare_code CompareEQ = 0"
| "compare_code CompareNEQ = 1"
| "compare_code CompareGTE = 2"
| "compare_code CompareLTE = 3"
| "compare_code CompareExists = 4"
| "compare_code CompareNotExists = 5"
| "compare_code (CompareUnknown i) = i"

definition compare_of :: "int \<Rightarrow> CompareOp" where
  "compare_of i =
     (if i = 0 then CompareEQ else if i = 1 then CompareNEQ else if i = 2 then CompareGTE
      else if i = 3 then CompareLTE else if i = 4 then CompareExists
      else if i = 5 then CompareNotExists else CompareUnknown i)"

fun op_code :: "TxnOpType \<Rightarrow> int" where
  "op_code TxnOpPut = 0"
| "op_code TxnOpDelete = 1"
| "op_code TxnOpCAS = 2"
| "op_code TxnOpAppend = 3"
| "op_code (TxnOpUnknown i) = i"

definition op_of :: "int \<Rightarrow> TxnOpType" where
  "op_of i =
     (if i = 0 then TxnOpPut else if i = 1 then TxnOpDelete else if i = 2 then TxnOpCAS
      else if i = 3 then TxnOpAppend else TxnOpUnknown i)"

text \<open>The values that are numbers of the wire: a declared constant, or another 64-bit integer.\<close>

definition wire_status :: "ResponseStatus \<Rightarrow> bool" where
  "wire_status st \<longleftrightarrow> in_int64 (status_code st) \<and> status_of (status_code st) = st"

definition wire_compare :: "CompareOp \<Rightarrow> bool" where
  "wire_compare c \<longleftrightarrow> in_int64 (compare_code c) \<and> compare_of (compare_code c) = c"

definition wire_op :: "TxnOpType \<Rightarrow> bool" where
  "wire_op t \<longleftrightarrow> in_int64 (op_code t) \<and> op_of (op_code t) = t"

lemma status_code_of [simp]: "status_code (status_of i) = i" "compare_code (compare_of i) = i" "op_code (op_of i) = i"
  by (simp_all add: status_of_def compare_of_def op_of_def)

lemma wire_status_known [simp]:
  "wire_status StatusInvalid" "wire_status StatusOK" "wire_status StatusNotLeader"
  "wire_status StatusFailedCommit" "wire_status StatusDuplicateRequest"
  by (simp_all add: wire_status_def status_of_def in_int64_def)

lemma in_int64_sint [simp]: "in_int64 (sint (w :: int64))"
  using sint_ge [of w] sint_lt [of w] by (simp add: in_int64_def)

subsection \<open>The structs of the key-value operations\<close>

definition put_request_fields :: "PutRequest field list" where
  "put_request_fields =
     [str_field ''Key'' False PutRequest.Key PutRequest.Key_update,
      str_field ''Value'' False PutRequest.Value PutRequest.Value_update,
      int64_field ''ClientID'' False PutRequest.ClientID PutRequest.ClientID_update,
      int64_field ''RequestID'' False PutRequest.RequestID PutRequest.RequestID_update,
      int64_field ''LeaseID'' False PutRequest.LeaseID PutRequest.LeaseID_update]"

definition put_response_fields :: "PutResponse field list" where
  "put_response_fields =
     [enum_field ''RespStatus'' status_code status_of PutResponse.RespStatus PutResponse.RespStatus_update,
      bool_field ''KeyFound'' PutResponse.KeyFound PutResponse.KeyFound_update,
      str_field ''PrevValue'' False PutResponse.PrevValue PutResponse.PrevValue_update,
      int64_field ''Revision'' False PutResponse.Revision PutResponse.Revision_update]"

definition append_request_fields :: "AppendRequest field list" where
  "append_request_fields =
     [str_field ''Key'' False AppendRequest.Key AppendRequest.Key_update,
      str_field ''Value'' False AppendRequest.Value AppendRequest.Value_update,
      int64_field ''ClientID'' False AppendRequest.ClientID AppendRequest.ClientID_update,
      int64_field ''RequestID'' False AppendRequest.RequestID AppendRequest.RequestID_update]"

definition append_response_fields :: "AppendResponse field list" where
  "append_response_fields =
     [enum_field ''RespStatus'' status_code status_of AppendResponse.RespStatus AppendResponse.RespStatus_update,
      bool_field ''KeyFound'' AppendResponse.KeyFound AppendResponse.KeyFound_update,
      str_field ''PrevValue'' False AppendResponse.PrevValue AppendResponse.PrevValue_update,
      int64_field ''Revision'' False AppendResponse.Revision AppendResponse.Revision_update]"

definition get_request_fields :: "GetRequest field list" where
  "get_request_fields =
     [str_field ''Key'' False GetRequest.Key GetRequest.Key_update,
      int64_field ''ClientID'' False GetRequest.ClientID GetRequest.ClientID_update,
      int64_field ''RequestID'' False GetRequest.RequestID GetRequest.RequestID_update]"

definition get_response_fields :: "GetResponse field list" where
  "get_response_fields =
     [enum_field ''RespStatus'' status_code status_of GetResponse.RespStatus GetResponse.RespStatus_update,
      bool_field ''KeyFound'' GetResponse.KeyFound GetResponse.KeyFound_update,
      str_field ''Value'' False GetResponse.Value GetResponse.Value_update,
      int64_field ''Revision'' False GetResponse.Revision GetResponse.Revision_update]"

definition cas_request_fields :: "CASRequest field list" where
  "cas_request_fields =
     [str_field ''Key'' False CASRequest.Key CASRequest.Key_update,
      str_field ''CompareValue'' False CASRequest.CompareValue CASRequest.CompareValue_update,
      str_field ''Value'' False CASRequest.Value CASRequest.Value_update,
      int64_field ''ClientID'' False CASRequest.ClientID CASRequest.ClientID_update,
      int64_field ''RequestID'' False CASRequest.RequestID CASRequest.RequestID_update]"

definition cas_response_fields :: "CASResponse field list" where
  "cas_response_fields =
     [enum_field ''RespStatus'' status_code status_of CASResponse.RespStatus CASResponse.RespStatus_update,
      bool_field ''KeyFound'' CASResponse.KeyFound CASResponse.KeyFound_update,
      str_field ''PrevValue'' False CASResponse.PrevValue CASResponse.PrevValue_update,
      int64_field ''Revision'' False CASResponse.Revision CASResponse.Revision_update]"

definition list_request_fields :: "ListRequest field list" where
  "list_request_fields =
     [str_field ''Prefix'' False ListRequest.Prefix ListRequest.Prefix_update,
      int_field ''Limit'' ListRequest.Limit ListRequest.Limit_update,
      str_field ''KeyAfter'' False ListRequest.KeyAfter ListRequest.KeyAfter_update,
      int64_field ''ClientID'' False ListRequest.ClientID ListRequest.ClientID_update,
      int64_field ''RequestID'' False ListRequest.RequestID ListRequest.RequestID_update]"

definition list_response_fields :: "ListResponse field list" where
  "list_response_fields =
     [enum_field ''RespStatus'' status_code status_of ListResponse.RespStatus ListResponse.RespStatus_update,
      map_field ''Pairs'' ListResponse.Pairs ListResponse.Pairs_update,
      str_field ''NextKey'' False ListResponse.NextKey ListResponse.NextKey_update,
      int64_field ''Revision'' False ListResponse.Revision ListResponse.Revision_update]"

subsection \<open>The structs of cluster membership\<close>

definition join_request_fields :: "JoinRequest field list" where
  "join_request_fields =
     [int_field ''id'' JoinRequest.ID JoinRequest.ID_update,
      str_field ''raft_addr'' False JoinRequest.RaftAddr JoinRequest.RaftAddr_update,
      str_field ''http_addr'' False JoinRequest.HTTPAddr JoinRequest.HTTPAddr_update]"

definition join_response_fields :: "JoinResponse field list" where
  "join_response_fields =
     [enum_field ''resp_status'' status_code status_of JoinResponse.RespStatus JoinResponse.RespStatus_update]"

definition leave_request_fields :: "LeaveRequest field list" where
  "leave_request_fields = [int_field ''id'' LeaveRequest.ID LeaveRequest.ID_update]"

definition leave_response_fields :: "LeaveResponse field list" where
  "leave_response_fields =
     [enum_field ''resp_status'' status_code status_of LeaveResponse.RespStatus LeaveResponse.RespStatus_update]"

definition peer_info_fields :: "PeerInfo field list" where
  "peer_info_fields =
     [int_field ''id'' PeerInfo.ID PeerInfo.ID_update,
      str_field ''http_addr'' False PeerInfo.HTTPAddr PeerInfo.HTTPAddr_update]"

definition zero_peer_info :: PeerInfo where
  "zero_peer_info = \<lparr>PeerInfo.ID = 0, HTTPAddr = ''''\<rparr>"

definition status_response_fields :: "StatusResponse field list" where
  "status_response_fields =
     [enum_field ''resp_status'' status_code status_of StatusResponse.RespStatus StatusResponse.RespStatus_update,
      int_field ''id'' StatusResponse.ID StatusResponse.ID_update,
      bool_field ''is_leader'' StatusResponse.IsLeader StatusResponse.IsLeader_update,
      int_field ''peer_count'' StatusResponse.PeerCount StatusResponse.PeerCount_update]"

definition members_response_fields :: "MembersResponse field list" where
  "members_response_fields =
     [enum_field ''resp_status'' status_code status_of MembersResponse.RespStatus MembersResponse.RespStatus_update,
      list_field ''members'' peer_info_fields zero_peer_info MembersResponse.Members MembersResponse.Members_update]"

subsection \<open>The structs of watches, transactions and leases\<close>

definition watch_event_fields :: "WatchEvent field list" where
  "watch_event_fields =
     [str_field ''key'' False WatchEvent.Key WatchEvent.Key_update,
      str_field ''value'' True WatchEvent.Value WatchEvent.Value_update,
      int64_field ''revision'' False WatchEvent.Revision WatchEvent.Revision_update]"

definition txn_condition_fields :: "TxnCondition field list" where
  "txn_condition_fields =
     [str_field ''key'' False TxnCondition.Key TxnCondition.Key_update,
      enum_field ''compare'' compare_code compare_of TxnCondition.Compare TxnCondition.Compare_update,
      str_field ''value'' False TxnCondition.Value TxnCondition.Value_update]"

definition zero_condition :: TxnCondition where
  "zero_condition = \<lparr>TxnCondition.Key = '''', Compare = CompareEQ, Value = ''''\<rparr>"

definition txn_op_fields :: "TxnOp field list" where
  "txn_op_fields =
     [enum_field ''op'' op_code op_of TxnOp.Op TxnOp.Op_update,
      str_field ''key'' False TxnOp.Key TxnOp.Key_update,
      str_field ''value'' True TxnOp.Value TxnOp.Value_update,
      str_field ''compare_value'' True TxnOp.CompareValue TxnOp.CompareValue_update,
      int64_field ''lease_id'' True TxnOp.LeaseID TxnOp.LeaseID_update]"

definition zero_op :: TxnOp where
  "zero_op = \<lparr>TxnOp.Op = TxnOpPut, Key = '''', Value = '''', CompareValue = '''', LeaseID = 0\<rparr>"

definition txn_request_fields :: "TxnRequest field list" where
  "txn_request_fields =
     [list_field ''conditions'' txn_condition_fields zero_condition TxnRequest.Conditions TxnRequest.Conditions_update,
      list_field ''success'' txn_op_fields zero_op TxnRequest.Success TxnRequest.Success_update,
      list_field ''failure'' txn_op_fields zero_op TxnRequest.Failure TxnRequest.Failure_update,
      int64_field ''clientID'' False TxnRequest.ClientID TxnRequest.ClientID_update,
      int64_field ''requestID'' False TxnRequest.RequestID TxnRequest.RequestID_update]"

definition txn_op_result_fields :: "TxnOpResult field list" where
  "txn_op_result_fields =
     [str_field ''key'' False TxnOpResult.Key TxnOpResult.Key_update,
      str_field ''prev_value'' True TxnOpResult.PrevValue TxnOpResult.PrevValue_update,
      bool_field ''key_found'' TxnOpResult.KeyFound TxnOpResult.KeyFound_update]"

definition zero_result :: TxnOpResult where
  "zero_result = \<lparr>TxnOpResult.Key = '''', PrevValue = '''', KeyFound = False\<rparr>"

definition txn_response_fields :: "TxnResponse field list" where
  "txn_response_fields =
     [enum_field ''resp_status'' status_code status_of TxnResponse.RespStatus TxnResponse.RespStatus_update,
      bool_field ''succeeded'' TxnResponse.Succeeded TxnResponse.Succeeded_update,
      list_field ''results'' txn_op_result_fields zero_result TxnResponse.Results TxnResponse.Results_update,
      int64_field ''revision'' False TxnResponse.Revision TxnResponse.Revision_update]"

definition grant_request_fields :: "LeaseGrantRequest field list" where
  "grant_request_fields =
     [int64_field ''ttl'' False LeaseGrantRequest.TTL LeaseGrantRequest.TTL_update,
      int64_field ''clientID'' False LeaseGrantRequest.ClientID LeaseGrantRequest.ClientID_update,
      int64_field ''requestID'' False LeaseGrantRequest.RequestID LeaseGrantRequest.RequestID_update]"

definition grant_response_fields :: "LeaseGrantResponse field list" where
  "grant_response_fields =
     [enum_field ''resp_status'' status_code status_of LeaseGrantResponse.RespStatus LeaseGrantResponse.RespStatus_update,
      int64_field ''id'' False LeaseGrantResponse.ID LeaseGrantResponse.ID_update,
      int64_field ''ttl'' False LeaseGrantResponse.TTL LeaseGrantResponse.TTL_update]"

definition keepalive_request_fields :: "LeaseKeepAliveRequest field list" where
  "keepalive_request_fields =
     [int64_field ''id'' False LeaseKeepAliveRequest.ID LeaseKeepAliveRequest.ID_update,
      int64_field ''clientID'' False LeaseKeepAliveRequest.ClientID LeaseKeepAliveRequest.ClientID_update,
      int64_field ''requestID'' False LeaseKeepAliveRequest.RequestID LeaseKeepAliveRequest.RequestID_update]"

definition keepalive_response_fields :: "LeaseKeepAliveResponse field list" where
  "keepalive_response_fields =
     [enum_field ''resp_status'' status_code status_of LeaseKeepAliveResponse.RespStatus LeaseKeepAliveResponse.RespStatus_update,
      int64_field ''id'' False LeaseKeepAliveResponse.ID LeaseKeepAliveResponse.ID_update]"

definition revoke_request_fields :: "LeaseRevokeRequest field list" where
  "revoke_request_fields =
     [int64_field ''id'' False LeaseRevokeRequest.ID LeaseRevokeRequest.ID_update,
      int64_field ''clientID'' False LeaseRevokeRequest.ClientID LeaseRevokeRequest.ClientID_update,
      int64_field ''requestID'' False LeaseRevokeRequest.RequestID LeaseRevokeRequest.RequestID_update]"

definition revoke_response_fields :: "LeaseRevokeResponse field list" where
  "revoke_response_fields =
     [enum_field ''resp_status'' status_code status_of LeaseRevokeResponse.RespStatus LeaseRevokeResponse.RespStatus_update]"

lemmas struct_defs = put_request_fields_def put_response_fields_def append_request_fields_def
  append_response_fields_def get_request_fields_def get_response_fields_def cas_request_fields_def
  cas_response_fields_def list_request_fields_def list_response_fields_def join_request_fields_def
  join_response_fields_def leave_request_fields_def leave_response_fields_def peer_info_fields_def
  status_response_fields_def members_response_fields_def watch_event_fields_def txn_condition_fields_def
  txn_op_fields_def txn_request_fields_def txn_op_result_fields_def txn_response_fields_def
  grant_request_fields_def grant_response_fields_def keepalive_request_fields_def
  keepalive_response_fields_def revoke_request_fields_def revoke_response_fields_def

subsection \<open>Texts\<close>

text \<open>\<open>json.Marshal\<close>; \<open>json.Encoder\<close>, which ends the text with a newline; \<open>json.Decoder\<close>, which reads
  one value and leaves what follows; and \<open>json.Unmarshal\<close>, which reads a whole text.\<close>

definition Marshal :: "'a field list \<Rightarrow> 'a \<Rightarrow> string" where
  "Marshal fs x = print_json (encode_struct fs x)"

definition Encode :: "'a field list \<Rightarrow> 'a \<Rightarrow> string" where
  "Encode fs x = Marshal fs x @ [CHR 0x0A]"

definition Decode :: "bool \<Rightarrow> 'a field list \<Rightarrow> string \<Rightarrow> 'a \<Rightarrow> 'a option" where
  "Decode strict fs text x =
     (case parse_json text of None \<Rightarrow> None | Some (j, _) \<Rightarrow> decode_struct strict fs j x)"

definition Unmarshal :: "'a field list \<Rightarrow> string \<Rightarrow> 'a \<Rightarrow> 'a option" where
  "Unmarshal fs text x =
     (case parse_json text of
        None \<Rightarrow> None
      | Some (j, r) \<Rightarrow> if skip r = [] then decode_struct False fs j x else None)"

text \<open>The same for a slice of structs that stands alone.\<close>

definition Marshal_list :: "'a field list \<Rightarrow> 'a list \<Rightarrow> string" where
  "Marshal_list fs xs = print_json (JArr (map (encode_struct fs) xs))"

definition Unmarshal_list :: "'a field list \<Rightarrow> 'a \<Rightarrow> string \<Rightarrow> 'a list option" where
  "Unmarshal_list fs zero text =
     (case parse_json text of
        None \<Rightarrow> None
      | Some (j, r) \<Rightarrow>
          if skip r \<noteq> [] then None
          else case j of
                 JNull \<Rightarrow> Some []
               | JArr js \<Rightarrow> decode_list (decode_struct False fs) zero js []
               | _ \<Rightarrow> None)"

lemma encode_struct_JObj: "\<exists>kvs. encode_struct fs x = JObj kvs"
  by (simp add: encode_struct_def)

text \<open>
  The contract of a struct: its fields are typed; what it writes for a value \<open>plain\<close> is read back
  into any \<open>blank\<close> struct, by a strict decoder and by one that is not; and its strings are UTF-8.
\<close>

locale codec =
  fixes fs :: "'a field list" and blank plain :: "'a \<Rightarrow> bool"
  assumes fields_typed: "list_all typed fs"
    and read_back: "plain x \<Longrightarrow> blank y \<Longrightarrow> decode_struct strict fs (encode_struct fs x) y = Some x"
    and written_plain: "plain x \<Longrightarrow> json_plain (encode_struct fs x)"
begin

lemma parse_Marshal: "plain x \<Longrightarrow> stops r \<Longrightarrow> parse_json (Marshal fs x @ r) = Some (encode_struct fs x, r)"
  unfolding Marshal_def by (intro parse_print written_plain)

lemma Decode_Marshal:
  "plain x \<Longrightarrow> blank y \<Longrightarrow> stops r \<Longrightarrow> Decode strict fs (Marshal fs x @ r) y = Some x"
  by (simp add: Decode_def parse_Marshal read_back)

lemma Decode_Marshal_only: "plain x \<Longrightarrow> blank y \<Longrightarrow> Decode strict fs (Marshal fs x) y = Some x"
  using Decode_Marshal [of x y "[]" strict] by (simp add: stops_def)

lemma Decode_Encode: "plain x \<Longrightarrow> blank y \<Longrightarrow> Decode strict fs (Encode fs x) y = Some x"
  using Decode_Marshal [of x y "[CHR 0x0A]" strict]
  by (simp add: Encode_def stops_def number_char_def is_digit_def)

lemma Unmarshal_Marshal: "plain x \<Longrightarrow> blank y \<Longrightarrow> Unmarshal fs (Marshal fs x) y = Some x"
  using parse_Marshal [of x "[]"] by (simp add: Unmarshal_def stops_def read_back)

text \<open>A text that was cut off is not read.\<close>

lemma parse_cut: "plain x \<Longrightarrow> Marshal fs x = d @ q \<Longrightarrow> q \<noteq> [] \<Longrightarrow> parse_json d = None"
  using written_plain [of x] encode_struct_JObj [of fs x] parse_json_cut unfolding Marshal_def by metis

lemma Decode_cut: "plain x \<Longrightarrow> Marshal fs x = d @ q \<Longrightarrow> q \<noteq> [] \<Longrightarrow> Decode strict fs d y = None"
  by (simp add: Decode_def parse_cut)

lemma Unmarshal_cut: "plain x \<Longrightarrow> Marshal fs x = d @ q \<Longrightarrow> q \<noteq> [] \<Longrightarrow> Unmarshal fs d y = None"
  by (simp add: Unmarshal_def parse_cut)

lemma Decode_accepts:
  "(\<exists>x. Decode strict fs text y = Some x) \<longleftrightarrow>
   (\<exists>j r. parse_json text = Some (j, r) \<and> has_type strict (struct_type fs) j)"
  using decode_struct_typed [OF fields_typed, of strict] by (auto simp: Decode_def split: option.splits)

end

lemma field_simps [simp]:
  "fname (str_field n e sget supd) = n"
  "fget (str_field n e sget supd) x = (if e \<and> sget x = '''' then None else Some (JStr (sget x)))"
  "fput (str_field n e sget supd) strict (JStr s) x = Some (supd (\<lambda>_. s) x)"
  "fname (bool_field n bget bupd) = n"
  "fget (bool_field n bget bupd) x = Some (JBool (bget x))"
  "fput (bool_field n bget bupd) strict (JBool b) x = Some (bupd (\<lambda>_. b) x)"
  "fname (num_field n e nget nput) = n"
  "fget (num_field n e nget nput) x = (if e \<and> nget x = 0 then None else Some (JNum (nget x)))"
  "fput (num_field n e nget nput) strict (JNum i) x = (if in_int64 i then Some (nput i x) else None)"
  by (simp_all add: field_defs)

lemma list_field_simps [simp]:
  "fname (list_field n fs zero get upd) = n"
  "fget (list_field n fs zero get upd) x = Some (if get x = [] then JNull else JArr (map (encode_struct fs) (get x)))"
  "fput (list_field n fs zero get upd) strict JNull x = Some (upd (\<lambda>_. []) x)"
  "fput (list_field n fs zero get upd) strict (JArr js) x =
     map_option (\<lambda>es. upd (\<lambda>_. es) x) (decode_list (decode_struct strict fs) zero js (get x))"
  by (simp_all add: field_defs)

lemma sint_zero [simp]: "sint (w :: int64) = 0 \<longleftrightarrow> w = 0"
  by (rule signed_eq_0_iff)

lemmas codec_simps = encode_struct_def List.map_filter_simps field_named_def json_plain.simps
  wire_status_def wire_compare_def wire_op_def utf8_simps

text \<open>The values that keep to UTF-8 and to the numbers of the wire, struct by struct.\<close>

definition plain_put_request :: "PutRequest \<Rightarrow> bool" where
  "plain_put_request x \<longleftrightarrow> utf8 (PutRequest.Key x) \<and> utf8 (PutRequest.Value x)"

definition plain_put_response :: "PutResponse \<Rightarrow> bool" where
  "plain_put_response x \<longleftrightarrow> wire_status (PutResponse.RespStatus x) \<and> utf8 (PutResponse.PrevValue x)"

definition plain_append_request :: "AppendRequest \<Rightarrow> bool" where
  "plain_append_request x \<longleftrightarrow> utf8 (AppendRequest.Key x) \<and> utf8 (AppendRequest.Value x)"

definition plain_append_response :: "AppendResponse \<Rightarrow> bool" where
  "plain_append_response x \<longleftrightarrow> wire_status (AppendResponse.RespStatus x) \<and> utf8 (AppendResponse.PrevValue x)"

definition plain_get_request :: "GetRequest \<Rightarrow> bool" where
  "plain_get_request x \<longleftrightarrow> utf8 (GetRequest.Key x)"

definition plain_get_response :: "GetResponse \<Rightarrow> bool" where
  "plain_get_response x \<longleftrightarrow> wire_status (GetResponse.RespStatus x) \<and> utf8 (GetResponse.Value x)"

definition plain_cas_request :: "CASRequest \<Rightarrow> bool" where
  "plain_cas_request x \<longleftrightarrow> utf8 (CASRequest.Key x) \<and> utf8 (CASRequest.CompareValue x) \<and> utf8 (CASRequest.Value x)"

definition plain_cas_response :: "CASResponse \<Rightarrow> bool" where
  "plain_cas_response x \<longleftrightarrow> wire_status (CASResponse.RespStatus x) \<and> utf8 (CASResponse.PrevValue x)"

definition plain_list_request :: "ListRequest \<Rightarrow> bool" where
  "plain_list_request x \<longleftrightarrow> utf8 (ListRequest.Prefix x) \<and> utf8 (ListRequest.KeyAfter x) \<and> in_int64 (ListRequest.Limit x)"

definition plain_join_request :: "JoinRequest \<Rightarrow> bool" where
  "plain_join_request x \<longleftrightarrow> in_int64 (JoinRequest.ID x) \<and> utf8 (JoinRequest.RaftAddr x) \<and> utf8 (JoinRequest.HTTPAddr x)"

definition plain_join_response :: "JoinResponse \<Rightarrow> bool" where
  "plain_join_response x \<longleftrightarrow> wire_status (JoinResponse.RespStatus x)"

definition plain_leave_request :: "LeaveRequest \<Rightarrow> bool" where
  "plain_leave_request x \<longleftrightarrow> in_int64 (LeaveRequest.ID x)"

definition plain_leave_response :: "LeaveResponse \<Rightarrow> bool" where
  "plain_leave_response x \<longleftrightarrow> wire_status (LeaveResponse.RespStatus x)"

definition plain_peer_info :: "PeerInfo \<Rightarrow> bool" where
  "plain_peer_info x \<longleftrightarrow> in_int64 (PeerInfo.ID x) \<and> utf8 (PeerInfo.HTTPAddr x)"

definition plain_status_response :: "StatusResponse \<Rightarrow> bool" where
  "plain_status_response x \<longleftrightarrow> wire_status (StatusResponse.RespStatus x) \<and> in_int64 (StatusResponse.ID x) \<and> in_int64 (StatusResponse.PeerCount x)"

definition plain_watch_event :: "WatchEvent \<Rightarrow> bool" where
  "plain_watch_event x \<longleftrightarrow> utf8 (WatchEvent.Key x) \<and> utf8 (WatchEvent.Value x) \<and> WatchEvent.Type x = EventInvalid"

definition plain_txn_condition :: "TxnCondition \<Rightarrow> bool" where
  "plain_txn_condition x \<longleftrightarrow> utf8 (TxnCondition.Key x) \<and> utf8 (TxnCondition.Value x) \<and> wire_compare (TxnCondition.Compare x)"

definition plain_txn_op :: "TxnOp \<Rightarrow> bool" where
  "plain_txn_op x \<longleftrightarrow> wire_op (TxnOp.Op x) \<and> utf8 (TxnOp.Key x) \<and> utf8 (TxnOp.Value x) \<and> utf8 (TxnOp.CompareValue x)"

definition plain_txn_op_result :: "TxnOpResult \<Rightarrow> bool" where
  "plain_txn_op_result x \<longleftrightarrow> utf8 (TxnOpResult.Key x) \<and> utf8 (TxnOpResult.PrevValue x)"

definition plain_grant_response :: "LeaseGrantResponse \<Rightarrow> bool" where
  "plain_grant_response x \<longleftrightarrow> wire_status (LeaseGrantResponse.RespStatus x)"

definition plain_keepalive_response :: "LeaseKeepAliveResponse \<Rightarrow> bool" where
  "plain_keepalive_response x \<longleftrightarrow> wire_status (LeaseKeepAliveResponse.RespStatus x)"

definition plain_revoke_response :: "LeaseRevokeResponse \<Rightarrow> bool" where
  "plain_revoke_response x \<longleftrightarrow> wire_status (LeaseRevokeResponse.RespStatus x)"

interpretation w_put_request: codec put_request_fields "\<lambda>_. True" plain_put_request
  by unfold_locales (simp_all add: put_request_fields_def codec_simps plain_put_request_def)

interpretation w_put_response: codec put_response_fields "\<lambda>_. True" plain_put_response
  by unfold_locales (simp_all add: put_response_fields_def codec_simps plain_put_response_def)

interpretation w_append_request: codec append_request_fields "\<lambda>_. True" plain_append_request
  by unfold_locales (simp_all add: append_request_fields_def codec_simps plain_append_request_def)

interpretation w_append_response: codec append_response_fields "\<lambda>_. True" plain_append_response
  by unfold_locales (simp_all add: append_response_fields_def codec_simps plain_append_response_def)

interpretation w_get_request: codec get_request_fields "\<lambda>_. True" plain_get_request
  by unfold_locales (simp_all add: get_request_fields_def codec_simps plain_get_request_def)

interpretation w_get_response: codec get_response_fields "\<lambda>_. True" plain_get_response
  by unfold_locales (simp_all add: get_response_fields_def codec_simps plain_get_response_def)

interpretation w_cas_request: codec cas_request_fields "\<lambda>_. True" plain_cas_request
  by unfold_locales (simp_all add: cas_request_fields_def codec_simps plain_cas_request_def)

interpretation w_cas_response: codec cas_response_fields "\<lambda>_. True" plain_cas_response
  by unfold_locales (simp_all add: cas_response_fields_def codec_simps plain_cas_response_def)

interpretation w_list_request: codec list_request_fields "\<lambda>_. True" plain_list_request
  by unfold_locales (simp_all add: list_request_fields_def codec_simps plain_list_request_def)

interpretation w_join_request: codec join_request_fields "\<lambda>_. True" plain_join_request
  by unfold_locales (simp_all add: join_request_fields_def codec_simps plain_join_request_def)

interpretation w_join_response: codec join_response_fields "\<lambda>_. True" plain_join_response
  by unfold_locales (simp_all add: join_response_fields_def codec_simps plain_join_response_def)

interpretation w_leave_request: codec leave_request_fields "\<lambda>_. True" plain_leave_request
  by unfold_locales (simp_all add: leave_request_fields_def codec_simps plain_leave_request_def)

interpretation w_leave_response: codec leave_response_fields "\<lambda>_. True" plain_leave_response
  by unfold_locales (simp_all add: leave_response_fields_def codec_simps plain_leave_response_def)

interpretation w_peer_info: codec peer_info_fields "\<lambda>_. True" plain_peer_info
  by unfold_locales (simp_all add: peer_info_fields_def codec_simps plain_peer_info_def)

interpretation w_status_response: codec status_response_fields "\<lambda>_. True" plain_status_response
  by unfold_locales (simp_all add: status_response_fields_def codec_simps plain_status_response_def)

interpretation w_watch_event: codec watch_event_fields "\<lambda>y. WatchEvent.Value y = '''' \<and> WatchEvent.Type y = EventInvalid" plain_watch_event
  by unfold_locales (simp_all add: watch_event_fields_def codec_simps plain_watch_event_def)

interpretation w_txn_condition: codec txn_condition_fields "\<lambda>_. True" plain_txn_condition
  by unfold_locales (simp_all add: txn_condition_fields_def codec_simps plain_txn_condition_def)

interpretation w_txn_op: codec txn_op_fields "\<lambda>y. y = zero_op" plain_txn_op
  by unfold_locales (simp_all add: txn_op_fields_def codec_simps plain_txn_op_def zero_op_def)

interpretation w_txn_op_result: codec txn_op_result_fields "\<lambda>y. y = zero_result" plain_txn_op_result
  by unfold_locales (simp_all add: txn_op_result_fields_def codec_simps plain_txn_op_result_def zero_result_def)

interpretation w_grant_request: codec grant_request_fields "\<lambda>_. True" "\<lambda>_. True"
  by unfold_locales (simp_all add: grant_request_fields_def codec_simps)

interpretation w_grant_response: codec grant_response_fields "\<lambda>_. True" plain_grant_response
  by unfold_locales (simp_all add: grant_response_fields_def codec_simps plain_grant_response_def)

interpretation w_keepalive_request: codec keepalive_request_fields "\<lambda>_. True" "\<lambda>_. True"
  by unfold_locales (simp_all add: keepalive_request_fields_def codec_simps)

interpretation w_keepalive_response: codec keepalive_response_fields "\<lambda>_. True" plain_keepalive_response
  by unfold_locales (simp_all add: keepalive_response_fields_def codec_simps plain_keepalive_response_def)

interpretation w_revoke_request: codec revoke_request_fields "\<lambda>_. True" "\<lambda>_. True"
  by unfold_locales (simp_all add: revoke_request_fields_def codec_simps)

interpretation w_revoke_response: codec revoke_response_fields "\<lambda>_. True" plain_revoke_response
  by unfold_locales (simp_all add: revoke_response_fields_def codec_simps plain_revoke_response_def)

subsection \<open>Structs that hold lists and maps\<close>

definition plain_members_response :: "MembersResponse \<Rightarrow> bool" where
  "plain_members_response x \<longleftrightarrow>
     wire_status (MembersResponse.RespStatus x) \<and> list_all plain_peer_info (MembersResponse.Members x)"

definition plain_txn_request :: "TxnRequest \<Rightarrow> bool" where
  "plain_txn_request x \<longleftrightarrow>
     list_all plain_txn_condition (TxnRequest.Conditions x) \<and>
     list_all plain_txn_op (TxnRequest.Success x) \<and> list_all plain_txn_op (TxnRequest.Failure x)"

definition plain_txn_response :: "TxnResponse \<Rightarrow> bool" where
  "plain_txn_response x \<longleftrightarrow>
     wire_status (TxnResponse.RespStatus x) \<and> list_all plain_txn_op_result (TxnResponse.Results x)"

definition plain_list_response :: "ListResponse \<Rightarrow> bool" where
  "plain_list_response x \<longleftrightarrow>
     wire_status (ListResponse.RespStatus x) \<and> utf8 (ListResponse.NextKey x) \<and>
     fmpred (\<lambda>k v. utf8 k \<and> utf8 v) (ListResponse.Pairs x)"

context codec
begin

lemma read_back_list:
  assumes "list_all plain xs" and "blank zero"
  shows "decode_list (decode_struct strict fs) zero (map (encode_struct fs) xs) [] = Some xs"
  using assms by (intro decode_list_encode) (auto simp: list_all_iff read_back)

lemma written_plain_list: "list_all plain xs \<Longrightarrow> list_all json_plain (map (encode_struct fs) xs)"
  by (auto simp: list_all_iff written_plain)

lemma Unmarshal_Marshal_list:
  assumes "list_all plain xs" and "blank zero"
  shows "Unmarshal_list fs zero (Marshal_list fs xs) = Some xs"
proof -
  have "parse_json (Marshal_list fs xs @ []) = Some (JArr (map (encode_struct fs) xs), [])"
    unfolding Marshal_list_def using written_plain_list [OF assms(1)] by (intro parse_print) (simp_all add: stops_def)
  then show ?thesis
    using read_back_list [OF assms, of False] by (simp add: Unmarshal_list_def)
qed

end

lemmas element_codecs =
  w_peer_info.read_back_list w_peer_info.written_plain_list w_peer_info.fields_typed
  w_txn_condition.read_back_list w_txn_condition.written_plain_list w_txn_condition.fields_typed
  w_txn_op.read_back_list w_txn_op.written_plain_list w_txn_op.fields_typed
  w_txn_op_result.read_back_list w_txn_op_result.written_plain_list w_txn_op_result.fields_typed

lemma encode_struct_Cons:
  "encode_struct (f # fs) x = JObj (case fget f x of
     None \<Rightarrow> List.map_filter (\<lambda>f. map_option (Pair (fname f)) (fget f x)) fs
   | Some j \<Rightarrow> (fname f, j) # List.map_filter (\<lambda>f. map_option (Pair (fname f)) (fget f x)) fs)"
  by (simp add: encode_struct_def List.map_filter_simps split: option.splits)

lemmas outer_codec_simps = encode_struct_Cons List.map_filter_simps field_named_def json_plain.simps
  wire_status_def utf8_simps element_codecs

interpretation w_members_response: codec members_response_fields "\<lambda>y. MembersResponse.Members y = []"
  plain_members_response
  by unfold_locales (simp_all add: members_response_fields_def plain_members_response_def outer_codec_simps)

interpretation w_txn_request: codec txn_request_fields
  "\<lambda>y. TxnRequest.Conditions y = [] \<and> TxnRequest.Success y = [] \<and> TxnRequest.Failure y = []" plain_txn_request
  by unfold_locales (simp_all add: txn_request_fields_def plain_txn_request_def outer_codec_simps)

interpretation w_txn_response: codec txn_response_fields "\<lambda>y. TxnResponse.Results y = []" plain_txn_response
  by unfold_locales (simp_all add: txn_response_fields_def plain_txn_response_def outer_codec_simps)

lemma decode_pairs_strings:
  "decode_pairs (map (\<lambda>k. (k, JStr (v k))) ks) m = Some (fold (\<lambda>k. fmupd k (v k)) ks m)"
  by (induction ks arbitrary: m) simp_all

lemma fmlookup_fold_fmupd:
  "fmlookup (fold (\<lambda>k. fmupd k (v k)) ks m) i = (if i \<in> set ks then Some (v i) else fmlookup m i)"
  by (induction ks arbitrary: m) auto

lemma decode_pairs_encode:
  "decode_pairs (map (\<lambda>k. (k, JStr (the (fmlookup m k)))) (sorted_list_of_fset (fmdom m))) fmempty = Some m"
  unfolding decode_pairs_strings
  by (auto intro!: fmap_ext simp: fmlookup_fold_fmupd fmlookup_dom_iff fmdom_notI)

lemma map_field_simps [simp]:
  "fname (map_field n get upd) = n"
  "fget (map_field n get upd) x =
     Some (JObj (map (\<lambda>k. (k, JStr (the (fmlookup (get x) k)))) (sorted_list_of_fset (fmdom (get x)))))"
  "fput (map_field n get upd) strict (JObj kvs) x = map_option (\<lambda>m. upd (\<lambda>_. m) x) (decode_pairs kvs (get x))"
  by (simp_all add: field_defs)

lemma fmpred_sorted:
  "fmpred P m \<Longrightarrow> list_all (\<lambda>k. P k (the (fmlookup m k))) (sorted_list_of_fset (fmdom m))"
  by (auto simp: list_all_iff fmlookup_dom_iff intro: fmpredD)

interpretation w_list_response: codec list_response_fields "\<lambda>y. ListResponse.Pairs y = fmempty" plain_list_response
proof
  show "list_all typed list_response_fields"
    by (simp add: list_response_fields_def)
  show "decode_struct strict list_response_fields (encode_struct list_response_fields x) y = Some x"
    if "plain_list_response x" and "ListResponse.Pairs y = fmempty" for strict x y
    using that by (simp add: list_response_fields_def plain_list_response_def codec_simps decode_pairs_encode)
  show "json_plain (encode_struct list_response_fields x)" if "plain_list_response x" for x
    using that fmpred_sorted [of "\<lambda>k v. utf8 k \<and> utf8 v" "ListResponse.Pairs x"]
    by (simp add: list_response_fields_def plain_list_response_def codec_simps list.pred_map comp_def)
qed

subsection \<open>Watch events\<close>

text \<open>The calls of \<open>writeSSE\<close> and \<open>readSSE\<close>. The type of an event is not part of the text.\<close>

definition zero_event :: WatchEvent where
  "zero_event = \<lparr>WatchEvent.Key = '''', Value = '''', Revision = 0, Type = EventInvalid\<rparr>"

definition json_Marshal :: "WatchEvent \<Rightarrow> string" where
  "json_Marshal e = Marshal watch_event_fields e"

definition json_Unmarshal :: "string \<Rightarrow> WatchEvent option" where
  "json_Unmarshal s = Unmarshal watch_event_fields s zero_event"

lemma json_Marshal_text:
  "json_Marshal e =
     CHR ''{'' # quote ''key'' @ CHR '':'' # quote (WatchEvent.Key e) @
     (if WatchEvent.Value e = '''' then ''''
      else CHR '','' # quote ''value'' @ CHR '':'' # quote (WatchEvent.Value e)) @
     CHR '','' # quote ''revision'' @ CHR '':'' # FormatInt (WatchEvent.Revision e) @ [CHR ''}'']"
  by (simp add: json_Marshal_def Marshal_def watch_event_fields_def codec_simps FormatInt_format_int)

lemma json_Marshal_Type: "json_Marshal (e\<lparr>Type := t\<rparr>) = json_Marshal e"
  by (simp add: json_Marshal_text)

lemma json_roundtrip:
  assumes "utf8 (WatchEvent.Key e)" and "utf8 (WatchEvent.Value e)"
  shows "json_Unmarshal (json_Marshal e) = Some (e\<lparr>Type := EventInvalid\<rparr>)"
  using w_watch_event.Unmarshal_Marshal [of "e\<lparr>Type := EventInvalid\<rparr>" zero_event] assms
    json_Marshal_Type [of EventInvalid e]
  by (simp add: json_Unmarshal_def json_Marshal_def plain_watch_event_def zero_event_def)

lemma json_Marshal_printable: "x \<in> set (json_Marshal e) \<Longrightarrow> 32 \<le> (of_char x :: nat)"
  by (auto simp: json_Marshal_text FormatInt_format_int dest: quote_printable format_int_printable split: if_splits)

lemma json_Unmarshal_cut:
  assumes "utf8 (WatchEvent.Key e)" and "utf8 (WatchEvent.Value e)" and "json_Marshal e = d @ q" and "q \<noteq> []"
  shows "json_Unmarshal d = None"
  using w_watch_event.Unmarshal_cut [of "e\<lparr>Type := EventInvalid\<rparr>" d q zero_event] assms
    json_Marshal_Type [of EventInvalid e]
  by (simp add: json_Unmarshal_def json_Marshal_def plain_watch_event_def)

lemma FormatInt_printable: "x \<in> set (FormatInt i) \<Longrightarrow> 32 \<le> (of_char x :: nat)"
  by (simp add: FormatInt_format_int format_int_printable)


subsection \<open>Strings that are not UTF-8\<close>

lemma Decode_Marshal_coerced:
  assumes "whole (encode_struct fs x)"
  shows "Decode strict fs (Marshal fs x) y = decode_struct strict fs (coerced (encode_struct fs x)) y"
  using parse_print_coerced [OF assms, of "[]"] by (simp add: Decode_def Marshal_def stops_def)

text \<open>
  C19: what arrives is what was sent, made UTF-8. Whatever bytes the keys and values of a put, an append, a
  compare-and-swap or a read have, the text of the request is read, strictly or not, as the request with every
  byte that is not part of a UTF-8 character replaced by U+FFFD, and nothing else is changed; and
  the value in the answer to a read is treated alike. Strings that are UTF-8 arrive as they are. So
  two different malformed keys may become one key.
\<close>
theorem strings_arrive_as_utf8:
  "Decode strict put_request_fields (Marshal put_request_fields p) p' =
     Some (p\<lparr>PutRequest.Key := to_valid (PutRequest.Key p), PutRequest.Value := to_valid (PutRequest.Value p)\<rparr>) \<and>
   Decode strict append_request_fields (Marshal append_request_fields a) a' =
     Some (a\<lparr>AppendRequest.Key := to_valid (AppendRequest.Key a), AppendRequest.Value := to_valid (AppendRequest.Value a)\<rparr>) \<and>
   Decode strict cas_request_fields (Marshal cas_request_fields c) c' =
     Some (c\<lparr>CASRequest.Key := to_valid (CASRequest.Key c), CASRequest.CompareValue := to_valid (CASRequest.CompareValue c),
             CASRequest.Value := to_valid (CASRequest.Value c)\<rparr>) \<and>
   Decode strict get_request_fields (Marshal get_request_fields g) g' =
     Some (g\<lparr>GetRequest.Key := to_valid (GetRequest.Key g)\<rparr>) \<and>
   (wire_status (GetResponse.RespStatus r) \<longrightarrow>
     Decode strict get_response_fields (Marshal get_response_fields r) r' =
       Some (r\<lparr>GetResponse.Value := to_valid (GetResponse.Value r)\<rparr>)) \<and>
   utf8 (to_valid s) \<and> (utf8 s \<longrightarrow> to_valid s = s)"
  by (simp add: Decode_Marshal_coerced codec_simps to_valid_simps put_request_fields_def append_request_fields_def
      cas_request_fields_def get_request_fields_def get_response_fields_def utf8_to_valid to_valid_utf8)

theorem strings_arrive_as_utf8_witness:
  "Decode True get_response_fields (Marshal get_response_fields
      \<lparr>GetResponse.RespStatus = StatusOK, KeyFound = True, Value = [CHR 0xFF], Revision = 1\<rparr>)
      \<lparr>GetResponse.RespStatus = StatusInvalid, KeyFound = False, Value = [], Revision = 0\<rparr> =
    Some \<lparr>GetResponse.RespStatus = StatusOK, KeyFound = True, Value = [CHR 0xEF, CHR 0xBF, CHR 0xBD], Revision = 1\<rparr> \<and>
   to_valid ''k'' = ''k''"
proof -
  have "to_valid [CHR 0xFF] = [CHR 0xEF, CHR 0xBF, CHR 0xBD]"
    by (simp add: to_valid_def runes_step rune_len_def rune_size_def valid_rune_def replacement_def)
  then show ?thesis
    using strings_arrive_as_utf8 [where strict = True
      and r = "\<lparr>GetResponse.RespStatus = StatusOK, KeyFound = True, Value = [CHR 0xFF], Revision = 1\<rparr>"
      and r' = "\<lparr>GetResponse.RespStatus = StatusInvalid, KeyFound = False, Value = [], Revision = 0\<rparr>" and s = "''k''"]
    by simp
qed

end
