(* ===== verification/Membership.thy ===== *)
theory Membership
  imports Wire
begin

text \<open>
  Cluster membership in \<open>kvservice.go\<close>: the address book \<open>peers\<close>, its persistence, the committed
  configuration changes, and the admin handlers \<open>/join/\<close>, \<open>/leave/\<close>, \<open>/status/\<close>, \<open>/members/\<close>.

  The durable storage and the Raft server are not part of the repository. The storage is a pair of
  functions \<open>sget\<close> and \<open>sset\<close> on a state of any type; what the Raft server answers (whether it
  leads, whether connecting and proposing worked) is an argument. The stored bytes are the JSON text
  of a list of peers.
\<close>

subsection \<open>The address book\<close>

record persistedPeer =
  ID :: int
  RaftAddr :: string
  HTTPAddr :: string

definition persisted_peer_fields :: "persistedPeer field list" where
  "persisted_peer_fields =
     [int_field ''id'' persistedPeer.ID persistedPeer.ID_update,
      str_field ''raft_addr'' False persistedPeer.RaftAddr persistedPeer.RaftAddr_update,
      str_field ''http_addr'' False persistedPeer.HTTPAddr persistedPeer.HTTPAddr_update]"

definition zero_persisted_peer :: persistedPeer where
  "zero_persisted_peer = \<lparr>persistedPeer.ID = 0, RaftAddr = '''', HTTPAddr = ''''\<rparr>"

definition plain_persisted_peer :: "persistedPeer \<Rightarrow> bool" where
  "plain_persisted_peer x \<longleftrightarrow>
     in_int64 (persistedPeer.ID x) \<and> utf8 (persistedPeer.RaftAddr x) \<and> utf8 (persistedPeer.HTTPAddr x)"

interpretation w_persisted_peer: codec persisted_peer_fields "\<lambda>_. True" plain_persisted_peer
  by unfold_locales (simp_all add: persisted_peer_fields_def codec_simps plain_persisted_peer_def)

definition peerStoreKey :: string where
  "peerStoreKey = ''kvpeers''"

definition httpAddr :: "KVService \<Rightarrow> (KVService, string) outcome" where
  "httpAddr = locking (\<lambda>s.
     case fmlookup (peers s) (service_id s) of
       Some pi \<Rightarrow> Returns s (peerInfo.HTTPAddr pi)
     | None \<Rightarrow> Returns s '''')"

definition load_peer :: "int \<Rightarrow> persistedPeer \<Rightarrow> (int, peerInfo) fmap \<Rightarrow> (int, peerInfo) fmap" where
  "load_peer self p m =
     (if persistedPeer.ID p \<noteq> self
      then fmupd (persistedPeer.ID p)
             \<lparr>peerInfo.RaftAddr = persistedPeer.RaftAddr p, HTTPAddr = persistedPeer.HTTPAddr p\<rparr> m
      else m)"

definition loadPeers :: "('st \<Rightarrow> string \<Rightarrow> string option) \<Rightarrow> 'st \<Rightarrow> KVService \<Rightarrow> (KVService, unit) outcome" where
  "loadPeers sget st s =
     (case sget st peerStoreKey of
        None \<Rightarrow> Returns s ()
      | Some text \<Rightarrow>
          (case Unmarshal_list persisted_peer_fields zero_persisted_peer text of
             None \<Rightarrow> Returns s ()
           | Some ps \<Rightarrow>
               locking (\<lambda>s. Returns (s\<lparr>peers := fold (load_peer (service_id s)) ps (peers s)\<rparr>) ()) s))"

definition stored_peers :: "int map_order \<Rightarrow> (int, peerInfo) fmap \<Rightarrow> persistedPeer list" where
  "stored_peers ro m =
     map (\<lambda>i. let pi = the (fmlookup m i)
              in \<lparr>persistedPeer.ID = i, RaftAddr = peerInfo.RaftAddr pi, HTTPAddr = peerInfo.HTTPAddr pi\<rparr>)
       (range_of ro (fmdom m))"

definition savePeers :: "int map_order \<Rightarrow> (string \<Rightarrow> string \<Rightarrow> 'st \<Rightarrow> 'st) \<Rightarrow> 'st \<Rightarrow> KVService
    \<Rightarrow> (KVService, 'st) outcome" where
  "savePeers ro sset st s =
     and_then (lockKV s) (\<lambda>s _.
       let ps = stored_peers ro (peers s); s = unlockKV s
       in Returns s (sset peerStoreKey (Marshal_list persisted_peer_fields ps) st))"

definition KnownPeers :: "KVService \<Rightarrow> (KVService, (int, peerInfo) fmap) outcome" where
  "KnownPeers = locking (\<lambda>s. Returns s (peers s))"

definition SetLocalHTTPAddr :: "int map_order \<Rightarrow> (string \<Rightarrow> string \<Rightarrow> 'st \<Rightarrow> 'st) \<Rightarrow> string \<Rightarrow> 'st
    \<Rightarrow> KVService \<Rightarrow> (KVService, 'st) outcome" where
  "SetLocalHTTPAddr ro sset addr st s =
     and_then (lockKV s) (\<lambda>s _.
       savePeers ro sset st
         (unlockKV (s\<lparr>peers := fmupd (service_id s) \<lparr>peerInfo.RaftAddr = '''', HTTPAddr = addr\<rparr> (peers s)\<rparr>)))"

definition PeerIDs :: "KVService \<Rightarrow> (KVService, int list) outcome" where
  "PeerIDs = locking (\<lambda>s. Returns s (peerIDs s))"

subsection \<open>Committed configuration changes\<close>

text \<open>
  What \<open>handleCommittedConfigChange\<close> reads of a \<open>raft.ConfigChangeEntry\<close>: which of the two kinds it
  is, if any, and the node. The handler ends with \<open>go kvs.savePeers()\<close>, which runs later on its own.
\<close>

datatype config_change = AddNode int | RemoveNode int | OtherChange

definition handleCommittedConfigChange :: "config_change \<Rightarrow> KVService \<Rightarrow> (KVService, unit) outcome" where
  "handleCommittedConfigChange cc = locking (\<lambda>s.
     case cc of
       AddNode n \<Rightarrow>
         (let s = (case fmlookup (pendingJoinAddrs s) n of
                     Some pi \<Rightarrow> s\<lparr>peers := fmupd n pi (peers s),
                                  pendingJoinAddrs := fmdrop n (pendingJoinAddrs s)\<rparr>
                   | None \<Rightarrow> s);
              s = (if n \<noteq> service_id s then s\<lparr>peerIDs := peerIDs s @ [n]\<rparr> else s)
          in Returns s ())
     | RemoveNode n \<Rightarrow>
         Returns (s\<lparr>peers := fmdrop n (peers s), peerIDs := filter (\<lambda>i. i \<noteq> n) (peerIDs s)\<rparr>) ()
     | OtherChange \<Rightarrow> Returns s ())"

subsection \<open>Admin handlers\<close>

text \<open>
  \<open>resolved\<close> is what \<open>net.ResolveTCPAddr\<close> makes of the Raft address, \<open>connect\<close> the error of
  \<open>rs.ConnectToPeer\<close>, \<open>add\<close> the result of \<open>rs.AddPeer\<close>.
\<close>

definition handleJoin :: "JoinRequest http_request \<Rightarrow> bool \<Rightarrow> (string \<Rightarrow> bool) \<Rightarrow> (int \<Rightarrow> string \<Rightarrow> string option)
    \<Rightarrow> (int \<Rightarrow> string \<Rightarrow> bool) \<Rightarrow> KVService \<Rightarrow> (KVService, JoinResponse http_reply) outcome" where
  "handleJoin req isLeader resolved connect add s =
     (case readRequestJSON req of
        Inl err \<Rightarrow> Returns s (ReplyError 400 err)
      | Inr jr \<Rightarrow>
          let n = JoinRequest.ID jr; addr = JoinRequest.RaftAddr jr in
          if \<not> isLeader then sendHTTPResponse \<lparr>JoinResponse.RespStatus = StatusNotLeader\<rparr> s
          else if \<not> resolved addr then Returns s (ReplyError 400 ''invalid raft address'')
          else case connect n addr of
            Some err \<Rightarrow> Returns s (ReplyError 500 err)
          | None \<Rightarrow>
              and_then (locking (\<lambda>s. Returns (s\<lparr>pendingJoinAddrs :=
                  fmupd n \<lparr>peerInfo.RaftAddr = addr, HTTPAddr = JoinRequest.HTTPAddr jr\<rparr> (pendingJoinAddrs s)\<rparr>) ()) s)
                (\<lambda>s _.
                  if \<not> add n addr then
                    and_then (locking (\<lambda>s. Returns (s\<lparr>pendingJoinAddrs := fmdrop n (pendingJoinAddrs s)\<rparr>) ()) s)
                      (\<lambda>s _. sendHTTPResponse \<lparr>JoinResponse.RespStatus = StatusFailedCommit\<rparr> s)
                  else sendHTTPResponse \<lparr>JoinResponse.RespStatus = StatusOK\<rparr> s))"

definition handleLeave :: "LeaveRequest http_request \<Rightarrow> bool \<Rightarrow> (int \<Rightarrow> bool) \<Rightarrow> KVService
    \<Rightarrow> (KVService, LeaveResponse http_reply) outcome" where
  "handleLeave req isLeader remove s =
     (case readRequestJSON req of
        Inl err \<Rightarrow> Returns s (ReplyError 400 err)
      | Inr lr \<Rightarrow>
          if \<not> isLeader then sendHTTPResponse \<lparr>LeaveResponse.RespStatus = StatusNotLeader\<rparr> s
          else if \<not> remove (LeaveRequest.ID lr)
          then sendHTTPResponse \<lparr>LeaveResponse.RespStatus = StatusFailedCommit\<rparr> s
          else sendHTTPResponse \<lparr>LeaveResponse.RespStatus = StatusOK\<rparr> s)"

definition handleStatus :: "bool \<Rightarrow> KVService \<Rightarrow> (KVService, StatusResponse http_reply) outcome" where
  "handleStatus isLeader s =
     and_then (locking (\<lambda>s. Returns s (fcard (fmdom (peers s)), service_id s)) s) (\<lambda>s (peerCount, i).
       sendHTTPResponse \<lparr>StatusResponse.RespStatus = StatusOK, ID = i, IsLeader = isLeader,
                         PeerCount = int peerCount\<rparr> s)"

definition handleMembers :: "int map_order \<Rightarrow> KVService \<Rightarrow> (KVService, MembersResponse http_reply) outcome" where
  "handleMembers ro s =
     and_then (lockKV s) (\<lambda>s _.
     and_then (httpAddr s) (\<lambda>s addr.
       let members = \<lparr>PeerInfo.ID = service_id s, HTTPAddr = addr\<rparr> #
             map (\<lambda>i. \<lparr>PeerInfo.ID = i, HTTPAddr = peerInfo.HTTPAddr (the (fmlookup (peers s) i))\<rparr>)
               (range_of ro (fmdom (peers s)))
       in sendHTTPResponse \<lparr>MembersResponse.RespStatus = StatusOK, Members = members\<rparr> (unlockKV s)))"

subsection \<open>Lemmas\<close>

lemma handleCommittedConfigChange_returns:
  assumes "\<not> locked s"
  shows "\<exists>s'. handleCommittedConfigChange cc s = Returns s' () \<and> \<not> locked s' \<and>
    machine_of s' = machine_of s \<and> service_id s' = service_id s \<and> dstore s' = dstore s \<and>
    commitSubs s' = commitSubs s \<and> chans s' = chans s \<and> next_chan s' = next_chan s \<and>
    eventBuf s' = eventBuf s \<and> watchSubs s' = watchSubs s \<and>
    lastSnapshotIndex s' = lastSnapshotIndex s \<and> installed s' = installed s"
  using assms
  by (auto simp: handleCommittedConfigChange_def locking_free unlockKV_def machine_of_def Let_def
      split: config_change.splits option.splits)

lemma handleCommittedConfigChange_wf:
  assumes "kv_wf s" and "handleCommittedConfigChange cc s = Returns s' ()"
  shows "kv_wf s'" and "machine_of s' = machine_of s" and "lastSnapshotIndex s' = lastSnapshotIndex s"
    and "installed s' = installed s"
proof -
  have "\<not> locked s" using assms(1) by (simp add: kv_wf_def)
  note f = handleCommittedConfigChange_returns [OF this, of cc]
  then show "machine_of s' = machine_of s" "lastSnapshotIndex s' = lastSnapshotIndex s"
    "installed s' = installed s"
    using assms(2) by auto
  show "kv_wf s'"
    using f assms watch_wf_cong [of s' s] subs_wf_cong [of s' s] by (auto simp: kv_wf_def)
qed

lemma config_change_peerIDs:
  assumes "\<not> locked s" and "handleCommittedConfigChange cc s = Returns s' ()"
  shows "peerIDs s' = (case cc of
      AddNode n \<Rightarrow> if n \<noteq> service_id s then peerIDs s @ [n] else peerIDs s
    | RemoveNode n \<Rightarrow> filter (\<lambda>i. i \<noteq> n) (peerIDs s)
    | OtherChange \<Rightarrow> peerIDs s)"
  using assms
  by (auto simp: handleCommittedConfigChange_def locking_free unlockKV_def Let_def
      split: config_change.splits option.splits if_splits)

fun apply_changes :: "config_change list \<Rightarrow> KVService \<Rightarrow> (KVService, unit) outcome" where
  "apply_changes [] s = Returns s ()"
| "apply_changes (cc # ccs) s = and_then (handleCommittedConfigChange cc s) (\<lambda>s _. apply_changes ccs s)"

definition change_members :: "int \<Rightarrow> config_change \<Rightarrow> int set \<Rightarrow> int set" where
  "change_members self cc M =
     (case cc of AddNode n \<Rightarrow> M \<union> ({n} - {self}) | RemoveNode n \<Rightarrow> M - {n} | OtherChange \<Rightarrow> M)"

lemma load_stored_peers:
  assumes "distinct js" and "set js \<subseteq> fset (fmdom b)"
  shows "fmlookup (fold (load_peer self) (map (\<lambda>i. let pi = the (fmlookup b i)
       in \<lparr>persistedPeer.ID = i, RaftAddr = peerInfo.RaftAddr pi, HTTPAddr = peerInfo.HTTPAddr pi\<rparr>) js) m) k =
     (if k \<in> set js \<and> k \<noteq> self then fmlookup b k else fmlookup m k)"
  using assms
proof (induction js arbitrary: m)
  case Nil
  then show ?case by simp
next
  case (Cons i js)
  then have "fmlookup b i = Some (the (fmlookup b i))"
    by (auto simp: fmlookup_dom_iff)
  with Cons show ?case
    by (auto simp: load_peer_def Let_def)
qed

subsection \<open>Properties\<close>

text \<open>
  C40: \<open>GET /members/\<close> deadlocks the node. The handler takes the service's mutex and, holding it,
  calls \<open>httpAddr\<close>, which takes it again. So on a node that is otherwise idle the request never
  returns, the mutex is never released, and from then on applying a committed command, registering
  for a commit, and the status handler all block.
\<close>
theorem members_request_deadlocks:
  assumes "\<not> locked s"
  shows "\<exists>s'. handleMembers ro s = Blocks s' \<and> machine_of s' = machine_of s \<and>
    (\<forall>r now cmd i t. handleCommand r now cmd i t s' = Blocks s') \<and>
    (\<forall>i. createCommitSubscription i s' = Blocks s') \<and> (\<forall>b. handleStatus b s' = Blocks s') \<and>
    (\<forall>cc. handleCommittedConfigChange cc s' = Blocks s')"
  using assms
  by (intro exI [of _ "s\<lparr>locked := True\<rparr>"])
    (simp add: handleMembers_def httpAddr_def lockKV_def createCommitSubscription_def handleStatus_def
      handleCommittedConfigChange_def locking_held locked_commit_blocks)

theorem members_request_deadlocks_witness:
  "\<exists>s'. handleMembers ascending (New 0 [1]) = Blocks s' \<and> machine_of s' = machine_of (New 0 [1]) \<and>
    (\<forall>r now cmd i t. handleCommand r now cmd i t s' = Blocks s') \<and>
    (\<forall>i. createCommitSubscription i s' = Blocks s') \<and> (\<forall>b. handleStatus b s' = Blocks s') \<and>
    (\<forall>cc. handleCommittedConfigChange cc s' = Blocks s')"
  by (rule members_request_deadlocks) (simp add: New_def)

definition plain_book :: "KVService \<Rightarrow> bool" where
  "plain_book s \<longleftrightarrow>
     fmpred (\<lambda>i pi. in_int64 i \<and> utf8 (peerInfo.RaftAddr pi) \<and> utf8 (peerInfo.HTTPAddr pi)) (peers s)"

lemma stored_peers_plain: "plain_book s \<Longrightarrow> list_all plain_persisted_peer (stored_peers ro (peers s))"
  by (auto simp: plain_book_def stored_peers_def plain_persisted_peer_def list_all_iff Let_def fmlookup_dom_iff
      fmpred_iff)

lemma address_book_reloads:
  assumes storage: "\<And>st k v. sget (sset k v st) k = Some v"
    and "\<not> locked s" and "service_id s = n" and "plain_book s"
  shows "\<exists>st' t. savePeers ro sset st s = Returns s st' \<and> loadPeers sget st' (New n ps) = Returns t () \<and>
    peers t = fmdrop n (peers s) \<and> service_id t = n \<and> \<not> locked t"
proof -
  let ?st = "sset peerStoreKey (Marshal_list persisted_peer_fields (stored_peers ro (peers s))) st"
  have sv: "savePeers ro sset st s = Returns s ?st"
    using assms(2) by (simp add: savePeers_def lockKV_def unlockKV_def)
  have "\<not> locked (New n ps)" by (simp add: New_def)
  then obtain t where t: "loadPeers sget ?st (New n ps) = Returns t ()"
    "peers t = fold (load_peer n) (stored_peers ro (peers s)) fmempty"
    "service_id t = n" "\<not> locked t"
    using w_persisted_peer.Unmarshal_Marshal_list [OF stored_peers_plain [OF assms(4)], of zero_persisted_peer]
    by (simp add: loadPeers_def storage locking_free New_def unlockKV_def)
  have "peers t = fmdrop n (peers s)"
    unfolding t(2) stored_peers_def
    by (intro fmap_ext) (auto simp: load_stored_peers dest: fmdom_notD)
  with sv t(1,3,4) show ?thesis by blast
qed

text \<open>
  The address book survives a restart, except for the node's own entry. With a storage that
  returns what was last stored under a key, a node that saves its book as JSON text and restarts on
  the same storage reads every peer's addresses back, if the ids have 64 bits and the addresses are
  UTF-8; the entry for the node itself, which \<open>SetLocalHTTPAddr\<close> writes, is stored but not read back.
\<close>
lemma address_book_survives_restart:
  assumes storage: "\<And>st k v. sget (sset k v st) k = Some v"
    and "\<not> locked s" and "service_id s = n" and "plain_book s"
  shows "\<exists>s' st' t. savePeers ro sset st s = Returns s' st' \<and> loadPeers sget st' (New n ps) = Returns t () \<and>
    peers s' = peers s \<and> peers t = fmdrop n (peers s)"
  using address_book_reloads [where sget = sget and sset = sset, OF assms] by fastforce

lemma address_book_survives_restart_witness:
  "\<exists>s s' st' t.
    SetLocalHTTPAddr ascending (\<lambda>k v st. st(k \<mapsto> v)) ''localhost:8080'' Map.empty (New 0 [1]) = Returns s st' \<and>
    savePeers ascending (\<lambda>k v st. st(k \<mapsto> v)) st' s = Returns s' st' \<and>
    loadPeers (\<lambda>st k. st k) st' (New 0 [1]) = Returns t () \<and>
    fmlookup (peers s) 0 \<noteq> None \<and> peers t = fmdrop 0 (peers s)"
proof -
  obtain s st' where s: "SetLocalHTTPAddr ascending (\<lambda>k v st. st(k \<mapsto> v)) ''localhost:8080'' Map.empty (New 0 [1]) = Returns s st'"
    "\<not> locked s" "service_id s = 0" "fmlookup (peers s) 0 \<noteq> None" "plain_book s"
    "st' = [peerStoreKey \<mapsto> Marshal_list persisted_peer_fields (stored_peers ascending (peers s))]"
    by (simp add: SetLocalHTTPAddr_def savePeers_def lockKV_def unlockKV_def New_def plain_book_def utf8_simps
        in_int64_def fmpred_iff)
  have "savePeers ascending (\<lambda>k v st. st(k \<mapsto> v)) st' s = Returns s st'"
    using s(2,6) by (simp add: savePeers_def lockKV_def unlockKV_def)
  with address_book_survives_restart [where sget = "\<lambda>st k. st k" and sset = "\<lambda>k v st. st(k \<mapsto> v)",
      OF _ s(2,3,5), of ascending st' "[1]"] s show ?thesis
    by fastforce
qed

text \<open>
  C32: the peer list follows the committed changes. However many configuration changes commit, in
  whatever order and with whatever repetitions, the ids in \<open>peerIDs\<close> are those of the reference
  membership: additions of other nodes, minus removals. None of the changes touches the store,
  the deduplication table or the revision.
\<close>
theorem peer_list_follows_changes:
  assumes "kv_wf s"
  shows "\<exists>s'. apply_changes ccs s = Returns s' () \<and> kv_wf s' \<and> machine_of s' = machine_of s \<and>
    set (peerIDs s') = fold (change_members (service_id s)) ccs (set (peerIDs s))"
  using assms
proof (induction ccs arbitrary: s)
  case Nil
  then show ?case by simp
next
  case (Cons cc ccs)
  have free: "\<not> locked s" using Cons.prems by (simp add: kv_wf_def)
  obtain u where u: "handleCommittedConfigChange cc s = Returns u ()" "service_id u = service_id s"
    using handleCommittedConfigChange_returns [OF free, of cc] by blast
  have "set (peerIDs u) = change_members (service_id s) cc (set (peerIDs s))"
    unfolding config_change_peerIDs [OF free u(1)] change_members_def by (auto split: config_change.splits)
  with Cons.IH [OF handleCommittedConfigChange_wf(1) [OF Cons.prems u(1)]]
    handleCommittedConfigChange_wf(2) [OF Cons.prems u(1)] u show ?case
    by simp
qed

theorem peer_list_follows_changes_witness:
  "\<exists>s'. apply_changes [AddNode 2, AddNode 2, RemoveNode 1] (New 0 [1]) = Returns s' () \<and> kv_wf s' \<and>
    machine_of s' = machine_of (New 0 [1]) \<and> set (peerIDs s') = {2}"
proof -
  have "fold (change_members (service_id (New 0 [1]))) [AddNode 2, AddNode 2, RemoveNode 1]
      (set (peerIDs (New 0 [1]))) = {2}"
    by (simp add: change_members_def New_def) auto
  with peer_list_follows_changes [OF kv_wf_New, of "[AddNode 2, AddNode 2, RemoveNode 1]" 0 "[1]"]
  show ?thesis by metis
qed

text \<open>
  Only the node that handled the join learns the new node's addresses. On the leader a join
  that Raft accepts, followed by the committed addition, puts both addresses into the book and
  clears the pending entry. A follower that applies the same committed addition has no pending
  entry for the node, and its book stays as it was, although its peer list grows.
\<close>
lemma join_addresses_stay_on_the_leader:
  assumes "\<not> locked s" and "readRequestJSON req = Inr jr" and "resolved (JoinRequest.RaftAddr jr)"
    and "connect (JoinRequest.ID jr) (JoinRequest.RaftAddr jr) = None"
    and "add (JoinRequest.ID jr) (JoinRequest.RaftAddr jr)"
    and "\<not> locked f" and "fmlookup (pendingJoinAddrs f) (JoinRequest.ID jr) = None"
    and "service_id f \<noteq> JoinRequest.ID jr"
  shows "\<exists>s1 s2 f'. handleJoin req True resolved connect add s =
      Returns s1 (ReplyJSON \<lparr>JoinResponse.RespStatus = StatusOK\<rparr>) \<and>
    handleCommittedConfigChange (AddNode (JoinRequest.ID jr)) s1 = Returns s2 () \<and>
    fmlookup (peers s2) (JoinRequest.ID jr) =
      Some \<lparr>peerInfo.RaftAddr = JoinRequest.RaftAddr jr, HTTPAddr = JoinRequest.HTTPAddr jr\<rparr> \<and>
    fmlookup (pendingJoinAddrs s2) (JoinRequest.ID jr) = None \<and>
    handleCommittedConfigChange (AddNode (JoinRequest.ID jr)) f = Returns f' () \<and>
    peers f' = peers f \<and> peerIDs f' = peerIDs f @ [JoinRequest.ID jr]"
  using assms
  by (simp add: handleJoin_def handleCommittedConfigChange_def locking_free unlockKV_def Let_def
      sendHTTPResponse_def)

lemma join_addresses_stay_on_the_leader_witness:
  "\<exists>s1 s2 f'. handleJoin (json_request \<lparr>JoinRequest.ID = 3, RaftAddr = ''a:1'', HTTPAddr = ''a:2''\<rparr>) True
      (\<lambda>_. True) (\<lambda>_ _. None) (\<lambda>_ _. True) (New 0 [1]) = Returns s1 (ReplyJSON \<lparr>JoinResponse.RespStatus = StatusOK\<rparr>) \<and>
    handleCommittedConfigChange (AddNode 3) s1 = Returns s2 () \<and>
    fmlookup (peers s2) 3 = Some \<lparr>peerInfo.RaftAddr = ''a:1'', HTTPAddr = ''a:2''\<rparr> \<and>
    handleCommittedConfigChange (AddNode 3) (New 1 [0]) = Returns f' () \<and> peers f' = fmempty"
  using join_addresses_stay_on_the_leader [where s = "New 0 [1]" and f = "New 1 [0]" and resolved = "\<lambda>_. True"
      and connect = "\<lambda>_ _. None" and add = "\<lambda>_ _. True",
      OF _ read_json_request [of "\<lparr>JoinRequest.ID = 3, RaftAddr = ''a:1'', HTTPAddr = ''a:2''\<rparr>"]]
  by (simp add: New_def) metis

end
