(* ===== verification/Serving.thy ===== *)
theory Serving
  imports Handlers
begin

text \<open>
  What a client of the HTTP interface is promised: the handlers of theory \<open>Handlers\<close> composed with
  the apply loop. The locale \<open>log_handler\<close> is what the nine handlers have in common, a command and
  the response made of the committed command; \<open>served\<close> is proved in it once, for any number of
  other entries committed before and after the handler's own.
\<close>

subsection \<open>The channel of a waiting handler\<close>

abbreviation indices :: "(env \<times> Command \<times> int \<times> int) list \<Rightarrow> int set" where
  "indices es \<equiv> (\<lambda>x. fst (snd (snd x))) ` set es"

lemma committed_chan:
  "fmlookup (commitSubs s) index \<noteq> Some c \<Longrightarrow>
     fmlookup (chans (committed ro index trm m' cmd' es s)) c = fmlookup (chans s) c"
  by (simp add: committed_def)

lemma apply_entries_Returns:
  assumes "kv_wf s" and "list_all submitted (commands es)" and "lease_room (commands es) (dstore s)"
  shows "\<exists>s' rs. apply_entries es s = Returns s' rs"
  by (rule apply_entries_total [OF assms]) blast

lemma apply_one:
  assumes "kv_wf s" and "submitted cmd" and "lease_room (cmd # cs) (dstore s)"
  obtains m' cmd' ev where "machine_step ro now cmd (machine_of s) = (m', cmd')"
    and "handleCommand ro now cmd i t s = Returns (committed ro i t m' cmd' ev s) cmd'"
    and "kv_wf (committed ro i t m' cmd' ev s)" and "lease_room cs (m_ds m')"
proof -
  obtain m' cmd' where ms: "machine_step ro now cmd (machine_of s) = (m', cmd')"
    by (cases "machine_step ro now cmd (machine_of s)")
  obtain ev where h: "handleCommand ro now cmd i t s = Returns (committed ro i t m' cmd' ev s) cmd'"
    using handleCommand_eq [OF assms(1,2) ms] by blast
  have room: "lease_room (cmd # cs) (m_ds (machine_of s))"
    using assms(3) by simp
  have "ds_wf (m_ds m')"
    using machine_step_wf [OF _ assms(2) _ ms] lease_room_step(2) [OF room assms(2) ms] assms(1)
    by (simp add: kv_wf_def)
  from that [OF ms h kv_wf_committed [OF assms(1) this] lease_room_step(1) [OF room assms(2) ms]]
  show thesis .
qed

lemma apply_entries_frame:
  assumes "kv_wf s" and "list_all submitted (commands es)" and "lease_room (commands es @ cs) (dstore s)"
    and "apply_entries es s = Returns s' rs"
  shows "kv_wf s' \<and> service_id s' = service_id s \<and> lease_room cs (dstore s') \<and> length rs = length es \<and>
    commitSubs s' = fmfilter (\<lambda>j. j \<notin> indices es) (commitSubs s) \<and>
    (\<forall>c. (\<forall>j \<in> indices es. fmlookup (commitSubs s) j \<noteq> Some c) \<longrightarrow>
      fmlookup (chans s') c = fmlookup (chans s) c)"
  using assms
proof (induction es arbitrary: s rs)
  case Nil
  then show ?case by simp
next
  case (Cons x es)
  obtain ro now cmd i t where x: "x = ((ro, now), cmd, i, t)" by (cases x) auto
  have sub: "submitted cmd" and room: "lease_room (cmd # (commands es @ cs)) (dstore s)"
    using Cons.prems(2,3) by (simp_all add: x)
  obtain m' cmd' ev where
    "machine_step ro now cmd (machine_of s) = (m', cmd')"
    and h: "handleCommand ro now cmd i t s = Returns (committed ro i t m' cmd' ev s) cmd'"
    and wf: "kv_wf (committed ro i t m' cmd' ev s)" and left: "lease_room (commands es @ cs) (m_ds m')"
    by (rule apply_one [OF Cons.prems(1) sub room])
  obtain qs where r: "apply_entries es (committed ro i t m' cmd' ev s) = Returns s' qs" "rs = cmd' # qs"
    using Cons.prems(4) h by (auto simp: x and_then_Returns)
  have "lease_room (commands es @ cs) (dstore (committed ro i t m' cmd' ev s))"
    using left by simp
  note IH = Cons.IH [OF wf _ this r(1)]
  have "fmfilter (\<lambda>j. j \<notin> indices es) (fmdrop i (commitSubs s)) =
      fmfilter (\<lambda>j. j \<notin> indices (x # es)) (commitSubs s)"
    by (intro fmap_ext) (simp add: x)
  with IH Cons.prems(2) r(2) show ?case
    by (auto simp: x committed_chan split: if_splits)
qed

lemma commit_reaches_handler:
  assumes wf1: "kv_wf s1" and c: "fmlookup (commitSubs s1) i = Some c" and sub: "submitted cmd"
    and "list_all submitted (commands (es @ fs))"
    and room1: "lease_room (commands es @ cmd # commands fs) (dstore s1)" and i: "i \<notin> indices es"
  shows "\<exists>u v qs rs m' cmd'. apply_entries es s1 = Returns u qs \<and> kv_wf u \<and>
    machine_step ro now cmd (machine_of u) = (m', cmd') \<and>
    apply_entries (es @ ((ro, now), cmd, i, t) # fs) s1 = Returns v (qs @ cmd' # rs) \<and>
    fst (receive_commit c v) = Received cmd' \<and> service_id v = service_id s1"
proof -
  have subs: "list_all submitted (commands es)" "list_all submitted (commands fs)"
    using assms(4) by simp_all
  have "lease_room (commands es) (dstore s1)"
    using room1 by (simp add: lease_room_def)
  then obtain u qs where u: "apply_entries es s1 = Returns u qs"
    using apply_entries_Returns [OF wf1 subs(1)] by blast
  note uf = apply_entries_frame [OF wf1 subs(1) room1 u]
  have ui: "fmlookup (commitSubs u) i = Some c" and wfu: "kv_wf u"
    and roomu: "lease_room (cmd # commands fs) (dstore u)"
    using uf c i by simp_all
  obtain m' cmd' ev where
    ms: "machine_step ro now cmd (machine_of u) = (m', cmd')" and
    h: "handleCommand ro now cmd i t u = Returns (committed ro i t m' cmd' ev u) cmd'"
    and wfx: "kv_wf (committed ro i t m' cmd' ev u)" and roomx: "lease_room (commands fs) (m_ds m')"
    by (rule apply_one [OF wfu sub roomu])
  let ?x = "committed ro i t m' cmd' ev u"
  have roomx': "lease_room (commands fs @ []) (dstore ?x)" "lease_room (commands fs) (dstore ?x)"
    using roomx by simp_all
  obtain v rs where v: "apply_entries fs ?x = Returns v rs"
    using apply_entries_Returns [OF wfx subs(2) roomx'(2)] by blast
  note vf = apply_entries_frame [OF wfx subs(2) roomx'(1) v]
  have "fmlookup (commitSubs ?x) j \<noteq> Some c" for j
    using wfu ui unfolding kv_wf_def subs_wf_def by (auto split: if_splits)
  with vf have "fmlookup (chans v) c = fmlookup (chans ?x) c"
    by blast
  then have "fst (receive_commit c v) = Received cmd'"
    using ui by (simp add: committed_def receive_commit_def recv_def)
  moreover have "apply_entries (es @ ((ro, now), cmd, i, t) # fs) s1 = Returns v (qs @ cmd' # rs)"
    using u h v by (simp add: apply_entries_append)
  ultimately show ?thesis
    using u wfu ms vf uf by auto
qed

lemma receive_commit_frame [simp]: "service_id (snd (receive_commit c s)) = service_id s"
  by (simp add: receive_commit_def split: option.splits prod.splits)

lemma end_request_Received:
  assumes "fst (receive_commit c s) = Received cmd" and "ServiceID cmd = service_id s"
    and "respond cmd = Some r"
  shows "\<exists>s'. end_request failed respond FromSub c s = Returns s' (ReplyJSON r)"
  using assms receive_commit_frame [of c s]
  by (cases "receive_commit c s") (simp add: end_request_def sendHTTPResponse_def)

subsection \<open>The contract of a handler\<close>

locale log_handler =
  fixes mkCommand :: "KVService \<Rightarrow> 'q \<Rightarrow> Command"
    and notLeader :: 'r
    and failed :: 'r
    and respond :: "'q \<Rightarrow> Command \<Rightarrow> 'r option"
  assumes sub: "submitted (mkCommand s q)"
    and own: "ServiceID (mkCommand s q) = service_id s"
    and answers: "machine_step ro now (mkCommand s q) m = (m', c) \<Longrightarrow> respond q c \<noteq> None"
begin

lemma served:
  assumes "kv_wf s" and "readRequestJSON req = Inr q" and "submit (mkCommand s q) = i" and "0 \<le> i"
    and "fmlookup (commitSubs s) i = None"
    and "list_all submitted (commands (es @ fs))"
    and "lease_room (commands es @ mkCommand s q # commands fs) (dstore s)" and "i \<notin> indices es"
  shows "\<exists>s1 c u v qs rs cmd' r s2.
    begin_request req mkCommand notLeader submit s = Returns s1 (Pending q c) \<and>
    apply_entries es s1 = Returns u qs \<and>
    apply_entries (es @ ((ro, now), mkCommand s q, i, t) # fs) s1 = Returns v (qs @ cmd' # rs) \<and>
    cmd' = snd (machine_step ro now (mkCommand s q) (machine_of u)) \<and> kv_wf u \<and>
    respond q cmd' = Some r \<and> end_request failed (respond q) FromSub c v = Returns s2 (ReplyJSON r)"
proof -
  obtain s1 c where cr: "createCommitSubscription i s = Returns s1 c"
    by (simp add: createCommitSubscription_fresh [OF assms(1,5)])
  note s1 = createCommitSubscription_Returns(2,3) [OF assms(1) cr]
  have b: "begin_request req mkCommand notLeader submit s = Returns s1 (Pending q c)"
    using assms(2-4) by (simp add: begin_request_def cr)
  have w: "kv_wf s1" "fmlookup (commitSubs s1) i = Some c" "service_id s1 = service_id s"
    "lease_room (commands es @ mkCommand s q # commands fs) (dstore s1)"
    using kv_wf_createCommitSubscription [OF assms(1) cr] assms(7) by (simp_all add: s1)
  obtain u v qs rs m' cmd' where u: "apply_entries es s1 = Returns u qs" "kv_wf u"
    and ms: "machine_step ro now (mkCommand s q) (machine_of u) = (m', cmd')"
    and v: "apply_entries (es @ ((ro, now), mkCommand s q, i, t) # fs) s1 = Returns v (qs @ cmd' # rs)"
      "fst (receive_commit c v) = Received cmd'" "service_id v = service_id s1"
    using commit_reaches_handler [OF w(1,2) sub assms(6) w(4) assms(8), of ro now t] by blast
  have sid: "ServiceID cmd' = service_id v"
    using machine_step_IsDuplicate(3) [OF sub ms] own v(3) w(3) by simp
  obtain r where r: "respond q cmd' = Some r"
    using answers [OF ms] by blast
  obtain s2 where "end_request failed (respond q) FromSub c v = Returns s2 (ReplyJSON r)"
    using end_request_Received [where respond = "respond q", OF v(2) sid r, of failed] by blast
  moreover have "cmd' = snd (machine_step ro now (mkCommand s q) (machine_of u))"
    using ms by simp
  ultimately show ?thesis
    using b u v(1) r by blast
qed

end

lemma machine_step_Revision:
  assumes "submitted c" and "machine_step ro now c m = (m', c')"
  shows "Command.Revision c' = m_rev m'"
    and "m_rev m' = (if m_duplicate c (m_last m) then m_rev m else m_bump (Kind c) (m_rev m))"
proof -
  obtain ds' d where "execute ro now c (m_ds m) = Returns ds' d"
    using execute_returns [OF assms(1)] by blast
  with assms(2) show "Command.Revision c' = m_rev m'"
    "m_rev m' = (if m_duplicate c (m_last m) then m_rev m else m_bump (Kind c) (m_rev m))"
    by (auto simp: machine_step_def split: if_splits)
qed

lemma machine_step_TxnResult:
  assumes "submitted c" and "Kind c = CommandTxn" and "machine_step ro now c m = (m', c')"
    and "\<not> IsDuplicate c'"
  shows "TxnResult c' \<noteq> None"
proof -
  obtain ds' d where x: "execute ro now c (m_ds m) = Returns ds' d"
    using execute_returns [OF assms(1)] by blast
  obtain td ok rs where "TxnField c = Some td"
    "Txn (TxnData.Conditions td) (TxnData.Success td) (TxnData.Failure td) (m_ds m) = ((ok, rs), ds')"
    and d: "d = c\<lparr>TxnResult := Some \<lparr>TxnApplyResult.Succeeded = ok, Results = rs\<rparr>\<rparr>"
    by (rule execute_Txn [OF assms(2) x])
  have "\<not> m_duplicate c (m_last m)"
    using assms(4) machine_step_IsDuplicate(1) [OF assms(1,3)] by simp
  with assms(3) x d show ?thesis by (auto simp: machine_step_def)
qed

interpretation h_put: log_handler put_command "put_status StatusNotLeader" "put_status StatusFailedCommit"
    "\<lambda>_. put_response"
  by unfold_locales (simp_all add: handler_commands_submitted handler_commands_ServiceID put_response_def)

interpretation h_append: log_handler append_command "append_status StatusNotLeader"
    "append_status StatusFailedCommit" "\<lambda>_. append_response"
  by unfold_locales (simp_all add: handler_commands_submitted handler_commands_ServiceID append_response_def)

interpretation h_get: log_handler get_command "get_status StatusNotLeader" "get_status StatusFailedCommit"
    "\<lambda>_. get_response"
  by unfold_locales (simp_all add: handler_commands_submitted handler_commands_ServiceID get_response_def)

interpretation h_cas: log_handler cas_command "cas_status StatusNotLeader" "cas_status StatusFailedCommit"
    "\<lambda>_. cas_response"
  by unfold_locales (simp_all add: handler_commands_submitted handler_commands_ServiceID cas_response_def)

interpretation h_list: log_handler list_command "list_status StatusNotLeader"
    "list_status StatusFailedCommit" "\<lambda>_. list_response"
  by unfold_locales (simp_all add: handler_commands_submitted handler_commands_ServiceID list_response_def)

interpretation h_txn: log_handler txn_command "txn_status StatusNotLeader" "txn_status StatusFailedCommit"
    "\<lambda>_. txn_response"
proof
  show "submitted (txn_command s q)" "ServiceID (txn_command s q) = service_id s" for s q
    by (simp_all add: handler_commands_submitted handler_commands_ServiceID)
  show "txn_response c \<noteq> None" if "machine_step ro now (txn_command s q) m = (m', c)" for ro now s q m m' c
    using machine_step_TxnResult [OF handler_commands_submitted(6) _ that]
    by (auto simp: txn_response_def txn_command_def zeroCommand_def)
qed

interpretation h_grant: log_handler grant_command "grant_status StatusNotLeader"
    "grant_status StatusFailedCommit" grant_response
  by unfold_locales (simp_all add: handler_commands_submitted handler_commands_ServiceID grant_response_def)

interpretation h_keepalive: log_handler keepalive_command "keepalive_status StatusNotLeader"
    "keepalive_status StatusFailedCommit" keepalive_response
  by unfold_locales (simp_all add: handler_commands_submitted handler_commands_ServiceID keepalive_response_def)

interpretation h_revoke: log_handler revoke_command "revoke_status StatusNotLeader"
    "revoke_status StatusFailedCommit" "\<lambda>_. revoke_response"
  by unfold_locales (simp_all add: handler_commands_submitted handler_commands_ServiceID revoke_response_def)

subsection \<open>Answers\<close>

lemma value_answer:
  assumes "kv_wf u" and "submitted cmd" and "\<not> is_duplicate cmd u"
    and "Kind cmd \<in> {CommandGet, CommandPut, CommandAppend, CommandCAS}"
    and "machine_step ro now cmd (machine_of u) = (m', cmd')"
  shows "(ResultValue cmd', ResultFound cmd') = Get (Command.Key cmd) (dstore u)"
proof -
  have wf: "ds_wf (m_ds (machine_of u))"
    using assms(1) by (simp add: kv_wf_def)
  from assms(3) have fresh: "\<not> m_duplicate cmd (m_last (machine_of u))"
    by (simp add: is_duplicate_machine)
  have "Kind cmd = CommandLeaseGrant \<Longrightarrow> lease_ids_left (m_ds (machine_of u))"
    using assms(4) by auto
  from machine_step_refines_spec [OF wf assms(2) fresh this assms(5)] show ?thesis
    using assms(4) by (auto simp: spec_answer_def service_abs_def Get_def ds_get_spec)
qed

lemma duplicate_get_answer:
  assumes "is_duplicate cmd u" and "Kind cmd = CommandGet" and "machine_step ro now cmd (machine_of u) = (m', cmd')"
  shows "(ResultValue cmd', ResultFound cmd') = Get (Command.Key cmd) (dstore u)"
  using assms by (auto simp: machine_step_def is_duplicate_machine execute_duplicate_def exec_get_def
      split: prod.splits)

lemma grant_answer:
  assumes "kv_wf u" and "Kind cmd = CommandLeaseGrant" and "\<not> is_duplicate cmd u"
    and "sint (leaseIDSeq (dstore u)) < maxInt64" and "machine_step ro now cmd (machine_of u) = (m', cmd')"
  shows "\<exists>lid l. ResultValue cmd' = FormatInt lid \<and> lid \<noteq> 0 \<and> fmlookup (leases (dstore u)) lid = None \<and>
    fmlookup (leases (m_ds m')) lid = Some l \<and> Lease.Keys l = {||}"
proof -
  obtain lid ds' where g: "GrantLease now (LeaseTTL cmd) (dstore u) = (lid, ds')"
    by (cases "GrantLease now (LeaseTTL cmd) (dstore u)")
  with assms(2,3,5) have "m_ds m' = ds'" "ResultValue cmd' = FormatInt lid"
    by (auto simp: machine_step_def is_duplicate_machine execute_def)
  moreover have "ds_wf (dstore u)"
    using assms(1) by (simp add: kv_wf_def)
  note fresh = ds_grant(2,3) [OF this assms(4) g]
  moreover have "\<exists>l. fmlookup (leases ds') lid = Some l \<and> Lease.Keys l = {||}"
    using g by (auto simp: GrantLease_def Let_def)
  ultimately show ?thesis
    by (auto simp: fmdom_notD)
qed

lemma put_answer:
  assumes "kv_wf u" and "machine_step ro now (put_command s pr) (machine_of u) = (m', cmd')"
    and "put_response cmd' = Some r"
  shows "if is_duplicate (put_command s pr) u then r = put_status StatusDuplicateRequest
     else PutResponse.RespStatus r = StatusOK \<and>
       (PutResponse.PrevValue r, PutResponse.KeyFound r) = Get (PutRequest.Key pr) (dstore u) \<and>
       PutResponse.Revision r = currentRevision u + 1"
proof -
  have k: "Kind (put_command s pr) = CommandPut" "Command.Key (put_command s pr) = PutRequest.Key pr"
    by (simp_all add: put_command_def zeroCommand_def)
  show ?thesis
    using assms(3) value_answer [OF assms(1) handler_commands_submitted(1) _ _ assms(2)]
      machine_step_IsDuplicate(1) [OF handler_commands_submitted(1) assms(2)]
      machine_step_Revision [OF handler_commands_submitted(1) assms(2)]
    by (auto simp: put_response_def is_duplicate_machine k m_bump_def is_write_def)
qed

lemma get_answer:
  assumes "kv_wf u" and "machine_step ro now (get_command s gr) (machine_of u) = (m', cmd')"
    and "get_response cmd' = Some r"
  shows "GetResponse.RespStatus r = StatusOK"
    and "(GetResponse.Value r, GetResponse.KeyFound r) = Get (GetRequest.Key gr) (dstore u)"
    and "GetResponse.Revision r = currentRevision u"
proof -
  note ms = assms(2)
  have k: "Kind (get_command s gr) = CommandGet" "Command.Key (get_command s gr) = GetRequest.Key gr"
    by (simp_all add: get_command_def zeroCommand_def)
  have "(ResultValue cmd', ResultFound cmd') = Get (GetRequest.Key gr) (dstore u)"
    using value_answer [OF assms(1) handler_commands_submitted(3) _ _ ms] duplicate_get_answer [OF _ _ ms]
    by (cases "is_duplicate (get_command s gr) u") (simp_all add: k)
  moreover have "Command.Revision cmd' = currentRevision u"
    using machine_step_Revision [OF handler_commands_submitted(3) ms] by (simp add: k m_bump_def is_write_def)
  moreover have "Kind cmd' = CommandGet"
    using machine_step_IsDuplicate(2) [OF handler_commands_submitted(3) ms] k by simp
  ultimately show "GetResponse.RespStatus r = StatusOK"
    "(GetResponse.Value r, GetResponse.KeyFound r) = Get (GetRequest.Key gr) (dstore u)"
    "GetResponse.Revision r = currentRevision u"
    using assms(3) by (auto simp: get_response_def)
qed

text \<open>
  A put is answered with what it did. On the node whose log the command enters at index i, with
  any entries committed before and after it, the handler that registered for i is served: the
  response is OK with the value the key had when the entry was applied and the revision the write
  got, or says duplicate if the command was recognised as a repeated request.
\<close>
lemma put_is_answered:
  assumes "kv_wf s" and "readRequestJSON req = Inr pr" and "submit (put_command s pr) = i" and "0 \<le> i"
    and "fmlookup (commitSubs s) i = None" and "list_all submitted (commands (es @ fs))"
    and "lease_room (commands es @ put_command s pr # commands fs) (dstore s)" and "i \<notin> indices es"
  shows "\<exists>s1 c u v qs rs r s2. handlePut_begin req submit s = Returns s1 (Pending pr c) \<and>
    apply_entries es s1 = Returns u qs \<and>
    apply_entries (es @ ((ro, now), put_command s pr, i, t) # fs) s1 = Returns v rs \<and>
    handlePut_end pr FromSub c v = Returns s2 (ReplyJSON r) \<and>
    (if is_duplicate (put_command s pr) u then r = put_status StatusDuplicateRequest
     else PutResponse.RespStatus r = StatusOK \<and>
       (PutResponse.PrevValue r, PutResponse.KeyFound r) = Get (PutRequest.Key pr) (dstore u) \<and>
       PutResponse.Revision r = currentRevision u + 1)"
proof -
  obtain s1 c u v qs rs cmd' r s2 where
    b: "handlePut_begin req submit s = Returns s1 (Pending pr c)"
    and u: "apply_entries es s1 = Returns u qs" "kv_wf u"
    and v: "apply_entries (es @ ((ro, now), put_command s pr, i, t) # fs) s1 = Returns v (qs @ cmd' # rs)"
    and c: "cmd' = snd (machine_step ro now (put_command s pr) (machine_of u))"
    and r: "put_response cmd' = Some r" "handlePut_end pr FromSub c v = Returns s2 (ReplyJSON r)"
    using h_put.served [where submit = submit and es = es and fs = fs and ro = ro and now = now and t = t, OF assms] unfolding handler_defs by blast
  obtain m' where ms: "machine_step ro now (put_command s pr) (machine_of u) = (m', cmd')"
    using c by (cases "machine_step ro now (put_command s pr) (machine_of u)") auto
  note put_answer [OF u(2) ms r(1)]
  with b u(1) v r(2) show ?thesis by blast
qed

definition a_put :: PutRequest where
  "a_put = \<lparr>PutRequest.Key = ''k'', Value = ''v'', ClientID = 7, RequestID = 1, LeaseID = 0\<rparr>"

lemma put_is_answered_witness:
  "\<exists>s1 c v rs r s2. handlePut_begin (json_request a_put) (\<lambda>_. 0) (New 0 []) = Returns s1 (Pending a_put c) \<and>
    apply_entries [((ascending, 5), put_command (New 0 []) a_put, 0, 1)] s1 = Returns v rs \<and>
    handlePut_end a_put FromSub c v = Returns s2 (ReplyJSON r)"
proof -
  have "lease_room (commands [] @ put_command (New 0 []) a_put # commands []) (dstore (New 0 []))"
    by (simp add: lease_room_def put_command_def zeroCommand_def)
  from put_is_answered [OF kv_wf_New read_json_request refl _ _ _ this, where submit = "\<lambda>_. 0" and t = 1
    and ro = ascending and now = 5] show ?thesis
    by (simp del: apply_entries.simps) blast
qed

text \<open>
  A get is answered with the state at its place in the log, also when it is a repeated request.
  The response carries the value of the key, and the revision, after exactly the entries before
  its own have been applied.
\<close>
lemma get_is_answered:
  assumes "kv_wf s" and "readRequestJSON req = Inr gr" and "submit (get_command s gr) = i" and "0 \<le> i"
    and "fmlookup (commitSubs s) i = None" and "list_all submitted (commands (es @ fs))"
    and "lease_room (commands es @ get_command s gr # commands fs) (dstore s)" and "i \<notin> indices es"
  shows "\<exists>s1 c u v qs rs r s2. handleGet_begin req submit s = Returns s1 (Pending gr c) \<and>
    apply_entries es s1 = Returns u qs \<and>
    apply_entries (es @ ((ro, now), get_command s gr, i, t) # fs) s1 = Returns v rs \<and>
    handleGet_end gr FromSub c v = Returns s2 (ReplyJSON r) \<and> GetResponse.RespStatus r = StatusOK \<and>
    (GetResponse.Value r, GetResponse.KeyFound r) = Get (GetRequest.Key gr) (dstore u) \<and>
    GetResponse.Revision r = currentRevision u"
proof -
  obtain s1 c u v qs rs cmd' r s2 where
    b: "handleGet_begin req submit s = Returns s1 (Pending gr c)"
    and u: "apply_entries es s1 = Returns u qs" "kv_wf u"
    and v: "apply_entries (es @ ((ro, now), get_command s gr, i, t) # fs) s1 = Returns v (qs @ cmd' # rs)"
    and c: "cmd' = snd (machine_step ro now (get_command s gr) (machine_of u))"
    and r: "get_response cmd' = Some r" "handleGet_end gr FromSub c v = Returns s2 (ReplyJSON r)"
    using h_get.served [where submit = submit and es = es and fs = fs and ro = ro and now = now and t = t, OF assms] unfolding handler_defs by blast
  obtain m' where ms: "machine_step ro now (get_command s gr) (machine_of u) = (m', cmd')"
    using c by (cases "machine_step ro now (get_command s gr) (machine_of u)") auto
  note get_answer [OF u(2) ms r(1)]
  with b u(1) v r(2) show ?thesis by blast
qed

definition a_get :: GetRequest where
  "a_get = \<lparr>GetRequest.Key = ''k'', ClientID = 8, RequestID = 1\<rparr>"

lemma get_is_answered_witness:
  "\<exists>s1 c u v qs rs r s2. handleGet_begin (json_request a_get) (\<lambda>_. 1) (New 0 []) = Returns s1 (Pending a_get c) \<and>
    apply_entries [((ascending, 5), put_k ''v'' 1, 0, 1)] s1 = Returns u qs \<and>
    apply_entries ([((ascending, 5), put_k ''v'' 1, 0, 1)] @ ((ascending, 6), get_command (New 0 []) a_get, 1, 1) # []) s1 =
      Returns v rs \<and>
    handleGet_end a_get FromSub c v = Returns s2 (ReplyJSON r) \<and> GetResponse.RespStatus r = StatusOK \<and>
    (GetResponse.Value r, GetResponse.KeyFound r) = Get (GetRequest.Key a_get) (dstore u) \<and>
    GetResponse.Revision r = currentRevision u"
  by (rule get_is_answered) (simp_all add: kv_wf_New lease_room_def get_command_def zeroCommand_def)

text \<open>
  A lease grant hands out a fresh lease. Unless the command is a repeated request, the id in
  the response, which the handler parses back from the text the apply loop printed it to, is the
  id under which the lease was stored; it was not in use before, is not zero, and is live with no
  key attached afterwards.
\<close>
lemma lease_grant_is_answered:
  assumes "kv_wf s" and "readRequestJSON req = Inr lr" and "submit (grant_command s lr) = i" and "0 \<le> i"
    and "fmlookup (commitSubs s) i = None" and "list_all submitted (commands es)"
    and "lease_room (commands es @ [grant_command s lr]) (dstore s)" and "i \<notin> indices es"
  shows "\<exists>s1 c u v qs rs r s2. handleLeaseGrant_begin req submit s = Returns s1 (Pending lr c) \<and>
    apply_entries es s1 = Returns u qs \<and>
    apply_entries (es @ [((ro, now), grant_command s lr, i, t)]) s1 = Returns v rs \<and>
    handleLeaseGrant_end lr FromSub c v = Returns s2 (ReplyJSON r) \<and>
    (if is_duplicate (grant_command s lr) u then r = grant_status StatusDuplicateRequest
     else LeaseGrantResponse.RespStatus r = StatusOK \<and> LeaseGrantResponse.ID r \<noteq> 0 \<and>
       fmlookup (leases (dstore u)) (LeaseGrantResponse.ID r) = None \<and>
       (\<exists>l. fmlookup (leases (dstore v)) (LeaseGrantResponse.ID r) = Some l \<and> Lease.Keys l = {||}))"
proof -
  let ?cmd = "grant_command s lr"
  have a: "list_all submitted (commands (es @ []))" "lease_room (commands es @ ?cmd # commands []) (dstore s)"
    using assms(6,7) by simp_all
  obtain s1 c u v qs rs cmd' r s2 where
    b: "handleLeaseGrant_begin req submit s = Returns s1 (Pending lr c)"
    and u: "apply_entries es s1 = Returns u qs" "kv_wf u"
    and v: "apply_entries (es @ [((ro, now), ?cmd, i, t)]) s1 = Returns v (qs @ cmd' # rs)"
    and c: "cmd' = snd (machine_step ro now ?cmd (machine_of u))"
    and r: "grant_response lr cmd' = Some r" "handleLeaseGrant_end lr FromSub c v = Returns s2 (ReplyJSON r)"
    using h_grant.served [where submit = submit and es = es and fs = "[]" and ro = ro and now = now and t = t,
        OF assms(1-5) a assms(8)] unfolding handler_defs by blast
  obtain m' where ms: "machine_step ro now ?cmd (machine_of u) = (m', cmd')"
    using c by (cases "machine_step ro now ?cmd (machine_of u)") auto
  have k: "Kind ?cmd = CommandLeaseGrant" "\<not> IsDuplicate ?cmd"
    by (simp_all add: grant_command_def zeroCommand_def)
  have room: "lease_room (commands es @ [?cmd]) (dstore s1)" and w: "kv_wf s1"
    using b assms(1-5,7) createCommitSubscription_fresh [OF assms(1,5)]
      kv_wf_createCommitSubscription [OF assms(1)]
    by (auto simp: handler_defs begin_request_def and_then_Returns)
  have left: "sint (leaseIDSeq (dstore u)) < maxInt64"
    using apply_entries_frame [OF w assms(6) room u(1)] k by (simp add: lease_room_def)
  obtain ev where "handleCommand ro now ?cmd i t u = Returns (committed ro i t m' cmd' ev u) cmd'"
    using handleCommand_eq [OF u(2) handler_commands_submitted(7) ms] by blast
  then have dv: "dstore v = m_ds m'"
    using v u(1) by (auto simp: apply_entries_append)
  note dup = machine_step_IsDuplicate(1) [OF handler_commands_submitted(7) ms]
  have "if is_duplicate ?cmd u then r = grant_status StatusDuplicateRequest
     else LeaseGrantResponse.RespStatus r = StatusOK \<and> LeaseGrantResponse.ID r \<noteq> 0 \<and>
       fmlookup (leases (dstore u)) (LeaseGrantResponse.ID r) = None \<and>
       (\<exists>l. fmlookup (leases (dstore v)) (LeaseGrantResponse.ID r) = Some l \<and> Lease.Keys l = {||})"
    using grant_answer [OF u(2) k(1) _ left ms] r(1) dup dv
    by (auto simp: grant_response_def is_duplicate_machine ParseInt_FormatInt_eq)
  with b u(1) v r(2) show ?thesis by blast
qed

definition a_grant :: LeaseGrantRequest where
  "a_grant = \<lparr>LeaseGrantRequest.TTL = 60, ClientID = 9, RequestID = 1\<rparr>"

lemma lease_grant_is_answered_witness:
  "\<exists>s1 c u v qs rs r s2. handleLeaseGrant_begin (json_request a_grant) (\<lambda>_. 1) (New 0 []) = Returns s1 (Pending a_grant c) \<and>
    apply_entries [((ascending, 5), grant_60, 0, 1)] s1 = Returns u qs \<and>
    apply_entries ([((ascending, 5), grant_60, 0, 1)] @ [((ascending, 6), grant_command (New 0 []) a_grant, 1, 1)]) s1 =
      Returns v rs \<and>
    handleLeaseGrant_end a_grant FromSub c v = Returns s2 (ReplyJSON r) \<and>
    (if is_duplicate (grant_command (New 0 []) a_grant) u then r = grant_status StatusDuplicateRequest
     else LeaseGrantResponse.RespStatus r = StatusOK \<and> LeaseGrantResponse.ID r \<noteq> 0 \<and>
       fmlookup (leases (dstore u)) (LeaseGrantResponse.ID r) = None \<and>
       (\<exists>l. fmlookup (leases (dstore v)) (LeaseGrantResponse.ID r) = Some l \<and> Lease.Keys l = {||}))"
  by (rule lease_grant_is_answered)
    (simp_all add: kv_wf_New lease_room_def grant_command_def zeroCommand_def)

text \<open>
  Renewing a lease that does not exist is reported as a success. If the entry is applied when
  no lease has the id, nothing is renewed, and yet the response has the status OK and carries the
  id, as it does for a live lease.
\<close>
lemma keepalive_of_unknown_lease_is_ok:
  assumes "kv_wf s" and "readRequestJSON req = Inr kl" and "submit (keepalive_command s kl) = i"
    and "0 \<le> i" and "fmlookup (commitSubs s) i = None"
    and "lease_room [keepalive_command s kl] (dstore s)"
    and "fmlookup (leases (dstore s)) (LeaseKeepAliveRequest.ID kl) = None"
    and "\<not> is_duplicate (keepalive_command s kl) s"
  shows "\<exists>s1 c v rs s2. handleLeaseKeepAlive_begin req submit s = Returns s1 (Pending kl c) \<and>
    apply_entries [((ro, now), keepalive_command s kl, i, t)] s1 = Returns v rs \<and> dstore v = dstore s \<and>
    handleLeaseKeepAlive_end kl FromSub c v =
      Returns s2 (ReplyJSON \<lparr>LeaseKeepAliveResponse.RespStatus = StatusOK, ID = LeaseKeepAliveRequest.ID kl\<rparr>)"
proof -
  let ?cmd = "keepalive_command s kl"
  have a: "list_all submitted (commands ([] @ []))" "lease_room (commands [] @ ?cmd # commands []) (dstore s)"
    "i \<notin> indices []"
    using assms(6) by simp_all
  obtain s1 c u v qs rs cmd' r s2 where
    b: "handleLeaseKeepAlive_begin req submit s = Returns s1 (Pending kl c)"
    and u: "apply_entries [] s1 = Returns u qs" "kv_wf u"
    and v: "apply_entries ([] @ [((ro, now), ?cmd, i, t)]) s1 = Returns v (qs @ cmd' # rs)"
    and c: "cmd' = snd (machine_step ro now ?cmd (machine_of u))"
    and r: "keepalive_response kl cmd' = Some r" "handleLeaseKeepAlive_end kl FromSub c v = Returns s2 (ReplyJSON r)"
    using h_keepalive.served [where submit = submit and es = "[]" and fs = "[]" and ro = ro and now = now
        and t = t, OF assms(1-5) a] unfolding handler_defs by blast
  have k: "Kind ?cmd = CommandLeaseKeepAlive" "Command.LeaseID ?cmd = LeaseKeepAliveRequest.ID kl"
    by (simp_all add: keepalive_command_def zeroCommand_def)
  have su: "machine_of u = machine_of s"
    using b u(1) assms(1-5) createCommitSubscription_fresh [OF assms(1,5)]
    by (auto simp: handler_defs begin_request_def and_then_Returns)
  obtain m' where ms: "machine_step ro now ?cmd (machine_of u) = (m', cmd')"
    using c by (cases "machine_step ro now ?cmd (machine_of u)") auto
  obtain ev where "handleCommand ro now ?cmd i t u = Returns (committed ro i t m' cmd' ev u) cmd'"
    using handleCommand_eq [OF u(2) handler_commands_submitted(8) ms] by blast
  then have "dstore v = m_ds m'"
    using v u(1) by auto
  moreover have "m_ds m' = dstore s" "\<not> IsDuplicate cmd'"
    using ms k assms(7,8) machine_step_IsDuplicate(1) [OF handler_commands_submitted(8) ms]
    by (auto simp: machine_step_def is_duplicate_machine su execute_def KeepAliveLease_def)
  ultimately show ?thesis
    using b v r by (auto simp: keepalive_response_def)
qed

definition a_keepalive :: LeaseKeepAliveRequest where
  "a_keepalive = \<lparr>LeaseKeepAliveRequest.ID = 3, ClientID = 9, RequestID = 1\<rparr>"

lemma keepalive_of_unknown_lease_is_ok_witness:
  "\<exists>s1 c v rs s2. handleLeaseKeepAlive_begin (json_request a_keepalive) (\<lambda>_. 0) (New 0 []) =
      Returns s1 (Pending a_keepalive c) \<and>
    apply_entries [((ascending, 5), keepalive_command (New 0 []) a_keepalive, 0, 1)] s1 = Returns v rs \<and>
    dstore v = dstore (New 0 []) \<and>
    handleLeaseKeepAlive_end a_keepalive FromSub c v =
      Returns s2 (ReplyJSON \<lparr>LeaseKeepAliveResponse.RespStatus = StatusOK, ID = LeaseKeepAliveRequest.ID a_keepalive\<rparr>)"
  by (rule keepalive_of_unknown_lease_is_ok)
    (simp_all add: kv_wf_New lease_room_def keepalive_command_def zeroCommand_def NewDataStore_def
      is_duplicate_def)

subsection \<open>When a handler is not served\<close>




text \<open>
  C39: a handler that registers after its entry was applied waits forever. The handler submits
  first and registers second. If the apply loop gets to the entry in between, the handler registers
  for an index that has already been served; no entry at any other index wakes it, so it stays
  blocked until the client gives up, although its command took effect.
\<close>
theorem late_handler_is_never_served:
  assumes "kv_wf s" and "readRequestJSON req = Inr pr" and "submit (put_command s pr) = i" and "0 \<le> i"
    and "fmlookup (commitSubs s) i = None" and "list_all submitted (commands fs)"
    and "lease_room (put_command s pr # commands fs) (dstore s)" and "i \<notin> indices fs"
  shows "\<exists>u rs s1 c v qs v'. apply_entries [((ro, now), put_command s pr, i, t)] s = Returns u rs \<and>
    handlePut_begin req submit u = Returns s1 (Pending pr c) \<and> apply_entries fs s1 = Returns v qs \<and>
    handlePut_end pr FromSub c v = Blocks v'"
proof -
  let ?cmd = "put_command s pr"
  obtain m' cmd' ev where
    "machine_step ro now ?cmd (machine_of s) = (m', cmd')" and
    h: "handleCommand ro now ?cmd i t s = Returns (committed ro i t m' cmd' ev s) cmd'"
    and wfu: "kv_wf (committed ro i t m' cmd' ev s)" and room: "lease_room (commands fs) (m_ds m')"
    by (rule apply_one [OF assms(1) handler_commands_submitted(1) assms(7)])
  let ?u = "committed ro i t m' cmd' ev s"
  have i: "fmlookup (commitSubs ?u) i = None" by simp
  have "put_command ?u pr = ?cmd"
    by (simp add: put_command_def)
  obtain s1 c where cr: "createCommitSubscription i ?u = Returns s1 c"
    by (simp add: createCommitSubscription_fresh [OF wfu i])
  note s1 = createCommitSubscription_Returns(2,3) [OF wfu cr]
  have b: "handlePut_begin req submit ?u = Returns s1 (Pending pr c)"
    using assms(2-4) \<open>put_command ?u pr = ?cmd\<close> by (simp add: handler_defs begin_request_def cr)
  have w: "kv_wf s1" "fmlookup (commitSubs s1) i = Some c" "lease_room (commands fs @ []) (dstore s1)"
    "fmlookup (chans s1) c = Some (make_chan 1)"
    using kv_wf_createCommitSubscription [OF wfu cr] room by (simp_all add: s1)
  have "lease_room (commands fs) (dstore s1)"
    using w(3) by simp
  then obtain v qs where v: "apply_entries fs s1 = Returns v qs"
    using apply_entries_Returns [OF w(1) assms(6)] by blast
  have "\<forall>j \<in> indices fs. fmlookup (commitSubs s1) j \<noteq> Some c"
    using w(1,2) assms(8) unfolding kv_wf_def subs_wf_def by blast
  then have "fmlookup (chans v) c = Some (make_chan 1)"
    using apply_entries_frame [OF w(1) assms(6) w(3) v] w(4) by simp
  then have "\<exists>v'. handlePut_end pr FromSub c v = Blocks v'"
    by (simp add: handlePut_end_def end_request_def receive_commit_def recv_def make_chan_def)
  with h b v show ?thesis by auto
qed

theorem late_handler_is_never_served_witness:
  "\<exists>u rs s1 c v qs v'. apply_entries [((ascending, 5), put_command (New 0 []) a_put, 0, 1)] (New 0 []) = Returns u rs \<and>
    handlePut_begin (json_request a_put) (\<lambda>_. 0) u = Returns s1 (Pending a_put c) \<and>
    apply_entries [((ascending, 6), grant_60, 1, 1)] s1 = Returns v qs \<and> handlePut_end a_put FromSub c v = Blocks v'"
  by (rule late_handler_is_never_served)
    (simp_all add: kv_wf_New lease_room_def put_command_def zeroCommand_def)

end
