(* ===== verification/Updater.thy ===== *)
theory Updater
  imports Membership Serving
begin

text \<open>
  The apply loop \<open>runUpdater\<close> of \<open>kvservice.go\<close> as a state machine beside the other goroutines of
  a node. \<open>loop_step\<close> has one rule per branch of the two \<open>select\<close> statements: the first polls the
  snapshot channel, the second waits on the snapshot channel, the commit channel and the done
  channel. \<open>env_step\<close> is everything else that may happen in between: the Raft layer delivers a
  snapshot or an entry or closes a channel, an HTTP handler registers for a commit or takes its
  answer, a watcher comes, reads and goes, a join is prepared. \<open>reachable\<close> are the states of a node
  that was started with \<open>New\<close>.

  The channels carry what Raft delivers: snapshots that were encoded on some node (or bytes that do
  not decode) and commands that a node submitted. A lease grant is applied only while the lease
  counter, an int64 that starts at 0 and moves by one per grant, has not reached its maximum.
\<close>

subsection \<open>The loop\<close>

datatype log_entry = CommandEntry Command int int | ConfigEntry config_change | OtherEntry

datatype loop_pc = AtPoll | AtSelect | Exited

record updater =
  svc :: KVService
  pc :: loop_pc
  snapshotCh :: "(int \<times> gob_bytes) list"
  snapshotCh_closed :: bool
  commitChan :: "log_entry list"
  commitChan_closed :: bool
  snapshotDone :: bool
  restores :: nat

inductive loop_step :: "updater \<Rightarrow> updater \<Rightarrow> bool" where
  poll_snapshot: "pc u = AtPoll \<Longrightarrow> snapshotCh u = (i, b) # rest \<Longrightarrow>
    handleSnapshot i b (svc u) = Returns s () \<Longrightarrow>
    loop_step u (u\<lparr>svc := s, snapshotCh := rest, restores := restores u + 1\<rparr>)"
| poll_closed: "pc u = AtPoll \<Longrightarrow> snapshotCh u = [] \<Longrightarrow> snapshotCh_closed u \<Longrightarrow>
    loop_step u (u\<lparr>pc := Exited\<rparr>)"
| poll_default: "pc u = AtPoll \<Longrightarrow> snapshotCh u = [] \<Longrightarrow> \<not> snapshotCh_closed u \<Longrightarrow>
    loop_step u (u\<lparr>pc := AtSelect\<rparr>)"
| select_snapshot: "pc u = AtSelect \<Longrightarrow> snapshotCh u = (i, b) # rest \<Longrightarrow>
    handleSnapshot i b (svc u) = Returns s () \<Longrightarrow>
    loop_step u (u\<lparr>svc := s, snapshotCh := rest, restores := restores u + 1, pc := AtPoll\<rparr>)"
| select_snapshot_closed: "pc u = AtSelect \<Longrightarrow> snapshotCh u = [] \<Longrightarrow> snapshotCh_closed u \<Longrightarrow>
    loop_step u (u\<lparr>pc := Exited\<rparr>)"
| select_command: "pc u = AtSelect \<Longrightarrow> commitChan u = CommandEntry cmd index trm # rest \<Longrightarrow>
    (Kind cmd = CommandLeaseGrant \<Longrightarrow> lease_ids_left (dstore (svc u))) \<Longrightarrow>
    handleCommand ro now cmd index trm (svc u) = Returns s c \<Longrightarrow>
    loop_step u (u\<lparr>svc := s, commitChan := rest, pc := AtPoll\<rparr>)"
| select_config: "pc u = AtSelect \<Longrightarrow> commitChan u = ConfigEntry cc # rest \<Longrightarrow>
    handleCommittedConfigChange cc (svc u) = Returns s () \<Longrightarrow>
    loop_step u (u\<lparr>svc := s, commitChan := rest, pc := AtPoll\<rparr>)"
| select_other: "pc u = AtSelect \<Longrightarrow> commitChan u = OtherEntry # rest \<Longrightarrow>
    loop_step u (u\<lparr>commitChan := rest, pc := AtPoll\<rparr>)"
| select_commit_closed: "pc u = AtSelect \<Longrightarrow> commitChan u = [] \<Longrightarrow> commitChan_closed u \<Longrightarrow>
    loop_step u (u\<lparr>pc := Exited\<rparr>)"
| select_done: "pc u = AtSelect \<Longrightarrow> snapshotDone u \<Longrightarrow> loop_step u (u\<lparr>pc := Exited\<rparr>)"

inductive_cases loop_stepE: "loop_step u u'"

subsection \<open>The other goroutines\<close>

definition sound_bytes :: "gob_bytes \<Rightarrow> bool" where
  "sound_bytes b \<longleftrightarrow>
     (case decodeSnapshot b of
        Inl err \<Rightarrow> True
      | Inr snap \<Rightarrow> ds_wf (m_ds (snapshot_machine snap NewDataStore)))"

definition sound_entry :: "log_entry \<Rightarrow> bool" where
  "sound_entry e \<longleftrightarrow> (case e of CommandEntry cmd i t \<Rightarrow> submitted cmd | _ \<Rightarrow> True)"

inductive env_step :: "updater \<Rightarrow> updater \<Rightarrow> bool" where
  deliver_snapshot: "sound_bytes b \<Longrightarrow> env_step u (u\<lparr>snapshotCh := snapshotCh u @ [(i, b)]\<rparr>)"
| deliver_entry: "sound_entry e \<Longrightarrow> env_step u (u\<lparr>commitChan := commitChan u @ [e]\<rparr>)"
| close_snapshots: "env_step u (u\<lparr>snapshotCh_closed := True\<rparr>)"
| close_commits: "env_step u (u\<lparr>commitChan_closed := True\<rparr>)"
| signal_done: "env_step u (u\<lparr>snapshotDone := True\<rparr>)"
| handler_registers: "createCommitSubscription i (svc u) = Returns s c \<Longrightarrow> env_step u (u\<lparr>svc := s\<rparr>)"
| handler_receives: "receive_commit c (svc u) = (r, s) \<Longrightarrow> env_step u (u\<lparr>svc := s\<rparr>)"
| watch_opens: "handleWatch_open pre since lastID canFlush (svc u) = Returns s r \<Longrightarrow> env_step u (u\<lparr>svc := s\<rparr>)"
| watch_reads: "handleWatch_next sid (svc u) = (r, s) \<Longrightarrow> env_step u (u\<lparr>svc := s\<rparr>)"
| watch_closes: "env_step u (u\<lparr>svc := handleWatch_close sid (svc u)\<rparr>)"
| join_request: "handleJoin req isLeader resolved connect add (svc u) = Returns s r \<Longrightarrow> env_step u (u\<lparr>svc := s\<rparr>)"

definition started :: "int \<Rightarrow> int list \<Rightarrow> updater" where
  "started n ps = \<lparr>svc = New n ps, pc = AtPoll, snapshotCh = [], snapshotCh_closed = False, commitChan = [],
     commitChan_closed = False, snapshotDone = False, restores = 0\<rparr>"

inductive reachable :: "int \<Rightarrow> int list \<Rightarrow> updater \<Rightarrow> bool" for n ps where
  reach_start: "reachable n ps (started n ps)"
| reach_loop: "reachable n ps u \<Longrightarrow> loop_step u u' \<Longrightarrow> reachable n ps u'"
| reach_env: "reachable n ps u \<Longrightarrow> env_step u u' \<Longrightarrow> reachable n ps u'"

subsection \<open>Invariant\<close>

definition upd_inv :: "updater \<Rightarrow> bool" where
  "upd_inv u \<longleftrightarrow> kv_wf (svc u) \<and> list_all (\<lambda>(i, b). sound_bytes b) (snapshotCh u) \<and>
     list_all sound_entry (commitChan u) \<and>
     (restores u = 0 \<longrightarrow> lastSnapshotIndex (svc u) = - 1 \<and> installed (svc u) = [])"

lemma snapshot_machine_indep: "snapshot_machine snap ds = snapshot_machine snap ds'"
  by (simp add: snapshot_machine_def RestoreAll_def RestoreFromLeaseSnapshot_def)

lemma handleSnapshot_inv:
  assumes "kv_wf s" and "sound_bytes b" and "handleSnapshot i b s = Returns s' ()"
  shows "kv_wf s'"
proof (cases b)
  case (GobOf snap)
  have "\<not> locked s" using assms(1) by (simp add: kv_wf_def)
  with assms(3) GobOf have "s' = restored i snap s"
    by (simp add: handleSnapshot_eq)
  moreover have "ds_wf (m_ds (snapshot_machine snap (dstore s)))"
    using assms(2) GobOf snapshot_machine_indep [of snap "dstore s" NewDataStore] by (simp add: sound_bytes_def)
  ultimately show ?thesis
    using kv_wf_restored [OF assms(1)] by simp
next
  case (GobGarbage msg)
  with assms show ?thesis by (simp add: handleSnapshot_def)
qed

lemma handleCommand_inv:
  assumes "kv_wf s" and "submitted cmd" and "Kind cmd = CommandLeaseGrant \<Longrightarrow> lease_ids_left (dstore s)"
    and "handleCommand ro now cmd i t s = Returns s' c"
  shows "kv_wf s'"
    and "lastSnapshotIndex s = - 1 \<Longrightarrow> lastSnapshotIndex s' = - 1 \<and> installed s' = installed s"
proof -
  obtain m' cmd' where ms: "machine_step ro now cmd (machine_of s) = (m', cmd')"
    by (cases "machine_step ro now cmd (machine_of s)")
  obtain ev where h: "handleCommand ro now cmd i t s = Returns (committed ro i t m' cmd' ev s) cmd'"
    using handleCommand_eq [OF assms(1,2) ms] by blast
  have "ds_wf (m_ds m')"
    using machine_step_wf [OF _ assms(2) _ ms] assms(1,3) by (simp add: kv_wf_def)
  with h assms(4) show "kv_wf s'"
    using kv_wf_committed [OF assms(1)] by simp
  show "lastSnapshotIndex s = - 1 \<Longrightarrow> lastSnapshotIndex s' = - 1 \<and> installed s' = installed s"
    using h assms(4) by (auto simp: committed_def after_snapshot_def)
qed

lemma kv_wf_cong:
  assumes "kv_wf s" and "locked s' = locked s" and "dstore s' = dstore s" and "eventBuf s' = eventBuf s"
    and "watchSubs s' = watchSubs s" and "commitSubs s' = commitSubs s" and "chans s' = chans s"
    and "next_chan s' = next_chan s"
  shows "kv_wf s'"
  using assms watch_wf_cong [of s' s] subs_wf_cong [of s' s] by (simp add: kv_wf_def)

lemma receive_commit_inv:
  assumes "kv_wf s" and "receive_commit c s = (r, s')"
  shows "kv_wf s'" and "lastSnapshotIndex s' = lastSnapshotIndex s" and "installed s' = installed s"
proof -
  show "lastSnapshotIndex s' = lastSnapshotIndex s" "installed s' = installed s"
    using assms(2) by (auto simp: receive_commit_def split: option.splits prod.splits)
  show "kv_wf s'"
  proof (cases "fmlookup (chans s) c")
    case None
    with assms show ?thesis by (simp add: receive_commit_def)
  next
    case (Some cn)
    obtain cn' where r: "recv cn = (r, cn')" and s': "s' = s\<lparr>chans := fmupd c cn' (chans s)\<rparr>"
      using assms(2) Some by (auto simp: receive_commit_def split: prod.splits)
    have subs: "subs_wf s" using assms(1) by (simp add: kv_wf_def)
    have "cn' = make_chan 1" if "fmlookup (commitSubs s) i = Some c" for i
      using subs that Some r unfolding subs_wf_def by (auto simp: recv_def make_chan_def)
    with subs Some have "subs_wf s'"
      unfolding subs_wf_def s' by (auto split: if_splits)
    with assms(1) show ?thesis
      using watch_wf_cong [of s' s] by (simp add: kv_wf_def s')
  qed
qed

lemma watch_inv:
  assumes "kv_wf s"
  shows "handleWatch_open pre since lastID canFlush s = Returns s' r \<Longrightarrow>
      kv_wf s' \<and> lastSnapshotIndex s' = lastSnapshotIndex s \<and> installed s' = installed s"
    and "handleWatch_next sid s = (x, s') \<Longrightarrow>
      kv_wf s' \<and> lastSnapshotIndex s' = lastSnapshotIndex s \<and> installed s' = installed s"
    and "kv_wf (handleWatch_close sid s) \<and> lastSnapshotIndex (handleWatch_close sid s) = lastSnapshotIndex s \<and>
      installed (handleWatch_close sid s) = installed s"
proof -
  have w: "watch_wf s" using assms by (simp add: kv_wf_def)
  have wf: "kv_wf t" if "watch_wf t" "locked t = locked s" "dstore t = dstore s" "commitSubs t = commitSubs s"
    "chans t = chans s" "next_chan t = next_chan s" for t
    using assms that subs_wf_cong [of t s] by (simp add: kv_wf_def)
  show "kv_wf s' \<and> lastSnapshotIndex s' = lastSnapshotIndex s \<and> installed s' = installed s"
    if o: "handleWatch_open pre since lastID canFlush s = Returns s' r"
  proof -
    obtain sid t where st: "subscribeWatch pre s = (sid, t)" by (cases "subscribeWatch pre s")
    then have "s' = s \<or> s' = t"
      using o by (auto simp: handleWatch_open_def split: option.splits if_splits outcome.splits)
    with watch_wf_subscribe(1) [OF w st] st w show ?thesis
      by (auto intro!: wf simp: subscribeWatch_def Let_def)
  qed
  show "kv_wf s' \<and> lastSnapshotIndex s' = lastSnapshotIndex s \<and> installed s' = installed s"
    if "handleWatch_next sid s = (x, s')"
    using that w
    by (auto intro!: wf simp: handleWatch_next_def watch_wf_def recv_def fmpred_iff
        split: option.splits prod.splits list.splits if_splits) (metis Suc_leD length_Cons)
  show "kv_wf (handleWatch_close sid s) \<and> lastSnapshotIndex (handleWatch_close sid s) = lastSnapshotIndex s \<and>
      installed (handleWatch_close sid s) = installed s"
    using w by (auto intro!: wf simp: handleWatch_close_def unsubscribeWatch_def watch_wf_def fmpred_iff
        split: option.splits)
qed

lemma handleJoin_inv:
  assumes "kv_wf s" and "handleJoin req isLeader resolved connect add s = Returns s' r"
  shows "kv_wf s' \<and> lastSnapshotIndex s' = lastSnapshotIndex s \<and> installed s' = installed s"
proof -
  have "\<not> locked s" using assms(1) by (simp add: kv_wf_def)
  then show ?thesis
    using assms
    by (auto simp: handleJoin_def sendHTTPResponse_def locking_free unlockKV_def Let_def
        intro!: kv_wf_cong [OF assms(1)] split: sum.splits option.splits if_splits)
qed

lemma loop_step_inv:
  assumes "loop_step u u'" and "upd_inv u"
  shows "upd_inv u'"
  using assms(1)
proof cases
  case (poll_snapshot i b rest s)
  with assms(2) show ?thesis
    using handleSnapshot_inv [of "svc u" b i s] by (simp add: upd_inv_def)
next
  case (select_snapshot i b rest s)
  with assms(2) show ?thesis
    using handleSnapshot_inv [of "svc u" b i s] by (simp add: upd_inv_def)
next
  case (select_command cmd index trm rest ro now s c)
  with assms(2) show ?thesis
    using handleCommand_inv [of "svc u" cmd ro now index trm s c]
    by (simp add: upd_inv_def sound_entry_def)
next
  case (select_config cc rest s)
  with assms(2) show ?thesis
    using handleCommittedConfigChange_wf [of "svc u" cc s] by (simp add: upd_inv_def)
qed (use assms(2) in \<open>simp_all add: upd_inv_def\<close>)

lemma env_step_inv:
  assumes "env_step u u'" and "upd_inv u"
  shows "upd_inv u'"
  using assms(1)
proof cases
  case (handler_registers i s c)
  have "kv_wf (svc u)" using assms(2) by (simp add: upd_inv_def)
  note wf = kv_wf_createCommitSubscription [OF this handler_registers(2)]
    and s = createCommitSubscription_Returns(3) [OF this handler_registers(2)]
  have "lastSnapshotIndex s = lastSnapshotIndex (svc u)" "installed s = installed (svc u)"
    by (simp_all add: s)
  with wf handler_registers(1) assms(2) show ?thesis
    by (simp add: upd_inv_def)
next
  case (handler_receives c r s)
  with assms(2) show ?thesis
    using receive_commit_inv [of "svc u" c r s] by (simp add: upd_inv_def)
next
  case (watch_opens pre since lastID canFlush s r)
  with assms(2) show ?thesis
    using watch_inv(1) [of "svc u" pre since lastID canFlush s r] by (simp add: upd_inv_def)
next
  case (watch_reads sid r s)
  with assms(2) show ?thesis
    using watch_inv(2) [of "svc u" sid r s] by (simp add: upd_inv_def)
next
  case (watch_closes sid)
  with assms(2) show ?thesis
    using watch_inv(3) [of "svc u" sid] by (simp add: upd_inv_def)
next
  case (join_request req isLeader resolved connect add s r)
  with assms(2) show ?thesis
    using handleJoin_inv [of "svc u" req isLeader resolved connect add s r] by (simp add: upd_inv_def)
qed (use assms(2) in \<open>simp_all add: upd_inv_def\<close>)

lemma reachable_inv: "reachable n ps u \<Longrightarrow> upd_inv u"
proof (induction rule: reachable.induct)
  case reach_start
  show ?case by (simp add: upd_inv_def started_def kv_wf_New)
next
  case (reach_loop u u')
  then show ?case by (blast intro: loop_step_inv)
next
  case (reach_env u u')
  then show ?case by (blast intro: env_step_inv)
qed

lemma handleSnapshot_returns:
  assumes "kv_wf s"
  shows "\<exists>s'. handleSnapshot i b s = Returns s' ()"
proof (cases b)
  case (GobOf snap)
  have "\<not> locked s" using assms by (simp add: kv_wf_def)
  then show ?thesis by (simp add: GobOf handleSnapshot_eq)
qed (simp add: handleSnapshot_def)

lemma handleCommand_returns:
  assumes "kv_wf s" and "submitted cmd"
  shows "\<exists>s' c. handleCommand ro now cmd i t s = Returns s' c"
proof -
  obtain m' cmd' where ms: "machine_step ro now cmd (machine_of s) = (m', cmd')"
    by (cases "machine_step ro now cmd (machine_of s)")
  show ?thesis
    using handleCommand_eq [OF assms ms] by blast
qed



lemma progress_snapshot:
  assumes "upd_inv u" and "pc u = AtPoll \<or> pc u = AtSelect" and "snapshotCh u \<noteq> [] \<or> snapshotCh_closed u"
  shows "\<exists>u'. loop_step u u'"
proof (cases "snapshotCh u")
  case Nil
  with assms(2,3) show ?thesis
    by (auto intro: poll_closed select_snapshot_closed)
next
  case (Cons x rest)
  obtain i b where x: "x = (i, b)" by (cases x)
  obtain s where "handleSnapshot i b (svc u) = Returns s ()"
    using handleSnapshot_returns assms(1) unfolding upd_inv_def by blast
  with assms(2) Cons x show ?thesis
    by (auto intro: poll_snapshot select_snapshot)
qed


lemma busy_node:
  assumes "submitted cmd" and "Kind cmd \<noteq> CommandLeaseGrant"
  obtains s c where "handleCommand ascending 5 cmd 0 1 (New n ps) = Returns s c"
    and "reachable n ps (started n ps\<lparr>commitChan := [CommandEntry cmd 0 1], pc := AtSelect\<rparr>)"
    and "reachable n ps (started n ps\<lparr>svc := s\<rparr>)"
proof -
  let ?a = "started n ps\<lparr>commitChan := [CommandEntry cmd 0 1]\<rparr>"
  obtain s c where h: "handleCommand ascending 5 cmd 0 1 (New n ps) = Returns s c"
    using handleCommand_returns [OF kv_wf_New assms(1)] by blast
  have "env_step (started n ps) (started n ps\<lparr>commitChan := commitChan (started n ps) @ [CommandEntry cmd 0 1]\<rparr>)"
    using assms(1) by (intro deliver_entry) (simp add: sound_entry_def)
  then have "reachable n ps ?a"
    using reach_env [OF reach_start] by (simp add: started_def)
  moreover have "loop_step ?a (?a\<lparr>pc := AtSelect\<rparr>)"
    by (intro poll_default) (simp_all add: started_def)
  ultimately have r: "reachable n ps (?a\<lparr>pc := AtSelect\<rparr>)"
    by (rule reach_loop)
  have "loop_step (?a\<lparr>pc := AtSelect\<rparr>) ((?a\<lparr>pc := AtSelect\<rparr>)\<lparr>svc := s, commitChan := [], pc := AtPoll\<rparr>)"
    using assms(2) h by (intro select_command [where cmd = cmd and ro = ascending and now = 5])
      (simp_all add: started_def)
  from reach_loop [OF r this] have "reachable n ps (started n ps\<lparr>svc := s\<rparr>)"
    by (simp add: started_def)
  with h r show thesis by (rule that)
qed

subsection \<open>Properties\<close>

text \<open>
  C6: the invariant of a node holds in every reachable state. However the apply loop interleaves
  with deliveries from Raft, snapshots, registrations, watchers and joins: between two steps the
  mutex is free, the maps of the store agree with each other, the event ring is sound, and every
  registered handler waits on an open empty channel of its own.
\<close>
theorem node_invariant:
  assumes "reachable n ps u"
  shows "kv_wf (svc u)"
  using reachable_inv [OF assms] by (simp add: upd_inv_def)

theorem node_invariant_witness:
  "\<exists>u c. reachable 0 [] u \<and>
    handleCommand ascending 5 (put_k ''v'' 1) 0 1 (New 0 []) = Returns (svc u) c \<and> kv_wf (svc u)"
proof -
  obtain s c where "handleCommand ascending 5 (put_k ''v'' 1) 0 1 (New 0 []) = Returns s c"
    "reachable 0 [] (started 0 []\<lparr>svc := s\<rparr>)"
    by (rule busy_node [of "put_k ''v'' 1" 0 "[]"]) simp_all
  with node_invariant [of 0 "[]" "started 0 []\<lparr>svc := s\<rparr>"] show ?thesis
    by (intro exI [of _ "started 0 []\<lparr>svc := s\<rparr>"]) auto
qed



text \<open>
  A node that never restored a snapshot never takes one. The apply loop only considers taking a
  snapshot once \<open>lastSnapshotIndex\<close> is non-negative, which only a restore makes it; it starts at
  -1. So however many entries such a node applies, it has handed no snapshot to Raft, and its log
  is never compacted.
\<close>
lemma no_snapshot_before_a_restore:
  assumes "reachable n ps u" and "restores u = 0"
  shows "installed (svc u) = [] \<and> lastSnapshotIndex (svc u) = - 1"
  using reachable_inv [OF assms(1)] assms(2) by (simp add: upd_inv_def)

lemma no_snapshot_before_a_restore_witness:
  "\<exists>s c. handleCommand ascending 5 (put_k ''v'' 1) 0 1 (New 0 []) = Returns s c \<and>
    installed s = [] \<and> lastSnapshotIndex s = - 1"
proof -
  obtain s c where h: "handleCommand ascending 5 (put_k ''v'' 1) 0 1 (New 0 []) = Returns s c"
    and r: "reachable 0 [] (started 0 []\<lparr>svc := s\<rparr>)"
    by (rule busy_node [of "put_k ''v'' 1" 0 "[]"]) simp_all
  have "restores (started 0 []\<lparr>svc := s\<rparr>) = 0"
    by (simp add: started_def)
  from no_snapshot_before_a_restore [OF r this] h show ?thesis by simp
qed

text \<open>
  A pending snapshot goes before the entries. When the loop polls and a snapshot is waiting,
  its next step restores that snapshot, and no entry of the commit channel is consumed in it.
\<close>
lemma pending_snapshot_goes_first:
  assumes "pc u = AtPoll" and "snapshotCh u = (i, b) # rest" and "loop_step u u'"
  shows "handleSnapshot i b (svc u) = Returns (svc u') () \<and> commitChan u' = commitChan u \<and>
    snapshotCh u' = rest"
  using assms(3) by (cases rule: loop_stepE) (use assms(1,2) in auto)

lemma pending_snapshot_goes_first_witness:
  "\<exists>u'. loop_step (started 0 []\<lparr>snapshotCh := [(9, GobGarbage ''x'')], commitChan := [OtherEntry]\<rparr>) u' \<and>
    commitChan u' = [OtherEntry]"
proof -
  let ?u = "started 0 []\<lparr>snapshotCh := [(9, GobGarbage ''x'')], commitChan := [OtherEntry]\<rparr>"
  have "upd_inv ?u"
    by (simp add: upd_inv_def started_def kv_wf_New sound_bytes_def sound_entry_def)
  then obtain u' where st: "loop_step ?u u'"
    using progress_snapshot [of ?u] by (auto simp: started_def)
  from pending_snapshot_goes_first [OF _ _ st, of 9 "GobGarbage ''x''" "[]"] st show ?thesis
    by (auto simp: started_def)
qed

text \<open>
  The priority holds only where the loop polls. A snapshot that arrives after the poll competes with
  the entries in the second \<open>select\<close>, which may take either: an entry that follows the snapshot in
  the log is then applied first, and the restore that comes next undoes it.
\<close>
lemma entry_may_overtake_a_snapshot:
  assumes enc: "encodeSnapshot ascending (New 1 []) = Inr b"
  shows "\<exists>u1 u2 u3. reachable 0 [] u1 \<and> snapshotCh u1 = [(9, b)] \<and>
    commitChan u1 = [CommandEntry (put_k ''v'' 1) 10 1] \<and> loop_step u1 u2 \<and> commitChan u2 = [] \<and>
    snapshotCh u2 = [(9, b)] \<and> loop_step u2 u3 \<and> fmlookup (data (dstore (svc u3))) ''k'' = None"
proof -
  let ?e = "CommandEntry (put_k ''v'' 1) 10 1"
  let ?u0 = "started 0 []\<lparr>pc := AtSelect\<rparr>"
  let ?u1 = "?u0\<lparr>snapshotCh := [(9, b)], commitChan := [?e]\<rparr>"
  obtain snap where snap: "b = GobOf snap" "snapshot_machine snap NewDataStore = machine_of (New 1 [])"
    using snapshot_machine_of_encode [OF enc, of NewDataStore] .
  have "sound_bytes b" "sound_entry ?e"
    using kv_wf_New [of 1 "[]"] snap by (simp_all add: sound_bytes_def sound_entry_def kv_wf_def)
  moreover have r0: "reachable 0 [] ?u0"
    by (rule reach_loop [OF reach_start], rule poll_default) (simp_all add: started_def)
  ultimately have r1: "reachable 0 [] ?u1"
    using reach_env [OF reach_env [OF r0 deliver_snapshot [where i = 9 and b = b]] deliver_entry [where e = ?e]]
    by (simp add: started_def)
  obtain s c where h: "handleCommand ascending 5 (put_k ''v'' 1) 10 1 (New 0 []) = Returns s c"
    using handleCommand_returns [OF kv_wf_New sample_commands(1)] by blast
  then have wf: "kv_wf s"
    using handleCommand_inv(1) [OF kv_wf_New sample_commands(1)] by simp
  let ?u2 = "?u1\<lparr>svc := s, commitChan := [], pc := AtPoll\<rparr>"
  have l1: "loop_step ?u1 ?u2"
    using h by (intro select_command [where cmd = "put_k ''v'' 1" and ro = ascending and now = 5]) (simp_all add: started_def)
  obtain t where t: "handleSnapshot 9 b s = Returns t ()" "machine_of t = machine_of (New 1 [])"
    by (rule snapshot_roundtrip [OF kv_wf_New wf enc])
  have "loop_step ?u2 (?u2\<lparr>svc := t, snapshotCh := [], restores := restores ?u2 + 1\<rparr>)" (is "loop_step _ ?u3")
    using t(1) by (intro poll_snapshot) simp_all
  moreover have "dstore t = NewDataStore"
    using t(2) by (simp add: machine_of_def New_def)
  then have "fmlookup (data (dstore (svc ?u3))) ''k'' = None"
    by (simp add: NewDataStore_def)
  ultimately show ?thesis
    using r1 l1 by (intro exI [of _ ?u1] exI [of _ ?u2] exI [of _ ?u3]) simp
qed

lemma snapshot_bytes_committed:
  assumes "encodeSnapshot ro s = Inr b" and "machine_of s = machine_of s'"
  shows "encodeSnapshot ro s' = Inr b"
  using assms by (simp add: encodeSnapshot_def machine_of_def)

text \<open>
  C36: once a node has restored a snapshot it takes one every hundred entries. Applying the entry at
  an index that is at least a hundred past the last snapshot hands Raft one snapshot for exactly
  that index and term, whose bytes restore the state reached by the entry on any node; an earlier
  entry hands over nothing.
\<close>
theorem snapshot_every_hundred_entries:
  assumes "kv_wf s" and "submitted cmd" and "0 \<le> lastSnapshotIndex s"
    and "Kind cmd = CommandLeaseGrant \<Longrightarrow> lease_ids_left (dstore s)"
    and "handleCommand ro now cmd index trm s = Returns s' c" and "kv_wf t"
  shows "if index - lastSnapshotIndex s < 100
    then installed s' = installed s \<and> lastSnapshotIndex s' = lastSnapshotIndex s
    else \<exists>bytes t'. installed s' = installed s @ [(index, trm, bytes)] \<and> lastSnapshotIndex s' = index \<and>
      handleSnapshot index bytes t = Returns t' () \<and> machine_of t' = machine_of s'"
proof -
  obtain m' cmd' where ms: "machine_step ro now cmd (machine_of s) = (m', cmd')"
    by (cases "machine_step ro now cmd (machine_of s)")
  obtain ev where "handleCommand ro now cmd index trm s = Returns (committed ro index trm m' cmd' ev s) cmd'"
    using handleCommand_eq [OF assms(1,2) ms] by blast
  with assms(5) have s': "s' = committed ro index trm m' cmd' ev s" by auto
  define w where "w = fold push_event ev (notified (fmlookup (commitSubs s) index) cmd'
    ((put_machine m' s)\<lparr>commitSubs := fmdrop index (commitSubs s)\<rparr>))"
  have w: "s' = after_snapshot ro index trm w" "lastSnapshotIndex w = lastSnapshotIndex s" "installed w = installed s"
    by (simp_all add: s' committed_def w_def)
  have "encodeSnapshot ro w = Inr (snapshot_bytes ro w)"
    using encodeSnapshot_defined [of ro w] by (auto simp: snapshot_bytes_def)
  moreover have "machine_of w = machine_of s'"
    by (simp add: w(1))
  ultimately have enc: "encodeSnapshot ro s' = Inr (snapshot_bytes ro w)"
    by (rule snapshot_bytes_committed)
  have "kv_wf s'"
    using handleCommand_inv(1) [OF assms(1,2,4,5)] .
  then obtain t' where "handleSnapshot index (snapshot_bytes ro w) t = Returns t' ()" "machine_of t' = machine_of s'"
    by (rule snapshot_roundtrip [OF _ assms(6) enc])
  with w assms(3) show ?thesis
    by (auto simp: after_snapshot_def snapshotThreshold_def)
qed

theorem snapshot_every_hundred_entries_witness:
  "\<exists>s' c bytes t'. handleCommand ascending 5 (put_k ''v'' 1) 107 1 ((New 0 [])\<lparr>lastSnapshotIndex := 7\<rparr>) = Returns s' c \<and>
    installed s' = [(107, 1, bytes)] \<and> handleSnapshot 107 bytes (New 1 []) = Returns t' () \<and>
    machine_of t' = machine_of s'"
proof -
  let ?s = "(New 0 [])\<lparr>lastSnapshotIndex := 7\<rparr>"
  have wf: "kv_wf ?s"
    by (rule kv_wf_cong [OF kv_wf_New [of 0 "[]"]]) simp_all
  obtain s' c where h: "handleCommand ascending 5 (put_k ''v'' 1) 107 1 ?s = Returns s' c"
    using handleCommand_returns [OF wf sample_commands(1)] by blast
  from snapshot_every_hundred_entries [OF wf sample_commands(1) _ _ h kv_wf_New [of 1 "[]"]] h show ?thesis
    by auto
qed

end
