(* ===== verification/Events.thy ===== *)
theory Events
  imports Updater
begin

text \<open>
  The watch events of committed commands. A client that watches everything and keeps a copy of the
  map, storing what a put event says and dropping the key of a delete event, has the store's map:
  \<open>mirror_event\<close> is that client, and \<open>command_events\<close>, the second half of \<open>handleCommand\<close>, tells it
  enough. For a transaction this is not immediate, because the events are produced after all of
  its operations have run and carry final values.
\<close>

definition mirror_event :: "WatchEvent \<Rightarrow> (string, string) fmap \<Rightarrow> (string, string) fmap" where
  "mirror_event e m =
     (case WatchEvent.Type e of
        EventPut \<Rightarrow> fmupd (WatchEvent.Key e) (WatchEvent.Value e) m
      | EventDelete \<Rightarrow> fmdrop (WatchEvent.Key e) m
      | EventInvalid \<Rightarrow> m)"

lemma mirror_put [simp]: "mirror_event (put_event k v r) m = fmupd k v m"
  by (simp add: mirror_event_def put_event_def)

lemma mirror_delete [simp]: "mirror_event (delete_event k v r) m = fmdrop k m"
  by (simp add: mirror_event_def delete_event_def)

lemma event_fields [simp]:
  "WatchEvent.Key (put_event k v r) = k" "WatchEvent.Key (delete_event k v r) = k"
  "WatchEvent.Revision (put_event k v r) = r" "WatchEvent.Revision (delete_event k v r) = r"
  by (simp_all add: put_event_def delete_event_def)

definition known_op :: "TxnOp \<Rightarrow> bool" where
  "known_op op \<longleftrightarrow> (case TxnOp.Op op of TxnOpUnknown _ \<Rightarrow> False | _ \<Rightarrow> True)"

definition known_ops :: "Command \<Rightarrow> bool" where
  "known_ops cmd \<longleftrightarrow> (case TxnField cmd of
     None \<Rightarrow> True
   | Some td \<Rightarrow> list_all known_op (TxnData.Success td @ TxnData.Failure td))"

subsection \<open>Transactions\<close>

lemma attach_data [simp]: "data (attachKeyToLease k i ds) = data ds"
  by (simp add: attachKeyToLease_def Let_def split: option.splits)

lemma put_data: "data (snd (putLocked k v lid ds)) = fmupd k v (data ds)"
  by (simp add: putLocked_def Let_def)

lemma txn_op_data:
  assumes "txn_op op ds = (r, u)"
  shows "case TxnOp.Op op of
      TxnOpPut \<Rightarrow> data u = fmupd (TxnOp.Key op) (TxnOp.Value op) (data ds)
    | TxnOpDelete \<Rightarrow> data u = fmdrop (TxnOp.Key op) (data ds) \<and> TxnOpResult.Key r = TxnOp.Key op
    | TxnOpAppend \<Rightarrow> (\<exists>w. data u = fmupd (TxnOp.Key op) w (data ds))
    | TxnOpCAS \<Rightarrow>
        (if TxnOpResult.KeyFound r \<and> TxnOpResult.PrevValue r = TxnOp.CompareValue op
         then data u = fmupd (TxnOp.Key op) (TxnOp.Value op) (data ds) else data u = data ds)
    | TxnOpUnknown _ \<Rightarrow> u = ds"
  using assms put_data [of "TxnOp.Key op" "TxnOp.Value op" "TxnOp.LeaseID op" ds]
  by (auto simp: txn_op_def deleteLocked_def appendLocked_def casLocked_def Let_def
      split: TxnOpType.splits prod.splits if_splits)

text \<open>
  \<open>fin\<close> is the store after the transaction. A key that no event of the remaining operations
  mentions has its final value already; for the others the last event that mentions it is right.
\<close>

lemma txn_events_mirror:
  assumes "list_all known_op ops" and "txn_ops ops ds = (rs, fin)" and "txn_events revn fin ops rs = Some es"
  shows "fmlookup (fold mirror_event es m) k =
      (if k \<in> WatchEvent.Key ` set es then fmlookup (data fin) k else fmlookup m k) \<and>
    (k \<notin> WatchEvent.Key ` set es \<longrightarrow> fmlookup (data fin) k = fmlookup (data ds) k)"
  using assms
proof (induction ops arbitrary: ds rs es m)
  case Nil
  then show ?case by simp
next
  case (Cons op ops)
  obtain r u where op: "txn_op op ds = (r, u)" by (cases "txn_op op ds")
  obtain rs' where ops: "txn_ops ops u = (rs', fin)" and rs: "rs = r # rs'"
    using Cons.prems(2) op by (auto split: prod.splits)
  obtain es' where es': "txn_events revn fin ops rs' = Some es'" and es: "es = txn_op_events revn fin op r @ es'"
    using Cons.prems(3) rs by auto
  have known: "known_op op" "list_all known_op ops"
    using Cons.prems(1) by simp_all
  note IH = Cons.IH [OF known(2) ops es', of "fold mirror_event (txn_op_events revn fin op r) m"]
  show ?case
  proof (cases "k \<in> WatchEvent.Key ` set es'")
    case True
    with IH show ?thesis by (simp add: es image_Un)
  next
    case False
    with IH have "fmlookup (data fin) k = fmlookup (data u) k" by simp
    moreover have "fst (Get k fin) = w" if "fmlookup (data fin) k = Some w" for w
      using that by (simp add: Get_def lookup_ok_def)
    ultimately show ?thesis
      using False IH txn_op_data [OF op] known(1)
      by (auto simp: es txn_op_events_def known_op_def split: TxnOpType.splits if_splits)
  qed
qed

lemma txn_events_Revision:
  "txn_events revn ds ops rs = Some es \<Longrightarrow> e \<in> set es \<Longrightarrow> WatchEvent.Revision e = revn"
proof (induction revn ds ops rs arbitrary: es rule: txn_events.induct)
  case (3 revn ds op ops r rs)
  then show ?case
    by (auto simp: txn_op_events_def split: TxnOpType.splits if_splits)
qed simp_all

subsection \<open>Revocations\<close>

lemma fold_mirror_deletes:
  "fold mirror_event (map (\<lambda>k. delete_event k v r) ks) m = fmdrop_set (set ks) m"
  by (induction ks arbitrary: m) simp_all

lemma revoke_data:
  assumes "RevokeLease ro lid ds = (ks, t)"
  shows "data t = fmdrop_set (set ks) (data ds)"
  using assms by (auto simp: RevokeLease_def Let_def fold_fmdrop split: option.splits)

lemma expire_loop_data:
  assumes "expire_loop ro lids pairs ds = (pairs', t)"
  shows "\<exists>K. fset (fmdom pairs') = fset (fmdom pairs) \<union> K \<and> data t = fmdrop_set K (data ds)"
  using assms
proof (induction lids arbitrary: pairs ds)
  case (Cons lid lids)
  obtain ks u where r: "RevokeLease ro lid ds = (ks, u)" by (cases "RevokeLease ro lid ds")
  have "expire_loop ro lids (mark_deleted ks pairs) u = (pairs', t)"
    using Cons.prems r by simp
  from Cons.IH [OF this] obtain K where
    "fset (fmdom pairs') = fset (fmdom (mark_deleted ks pairs)) \<union> K" "data t = fmdrop_set K (data u)"
    by blast
  then show ?case
    using revoke_data [OF r] by (intro exI [of _ "set ks \<union> K"]) (auto intro: fmap_ext)
qed (auto intro: fmap_ext)

subsection \<open>Commands\<close>

text \<open>A command as the handlers and the lease expiry loop build it.\<close>

definition plain_command :: "Command \<Rightarrow> bool" where
  "plain_command cmd \<longleftrightarrow> submitted cmd \<and> known_ops cmd \<and> ResultPairs cmd = fmempty"

lemma Get_fst: "fmlookup (data ds) k = Some v \<Longrightarrow> fst (Get k ds) = v"
  by (simp add: Get_def lookup_ok_def)

lemma execute_txn_events_mirror:
  assumes "plain_command cmd" and kind: "Kind cmd = CommandTxn" and x: "execute ro now cmd ds = Returns ds' c"
    and ev: "command_events ro' ds' (c\<lparr>Command.Revision := r\<rparr>) = Some es"
  shows "fold mirror_event es (data ds) = data ds'"
proof -
  have nd: "\<not> IsDuplicate cmd"
    using assms(1) by (simp add: plain_command_def submitted_def)
  obtain td ok rs where td: "TxnField cmd = Some td"
    and T: "Txn (TxnData.Conditions td) (TxnData.Success td) (TxnData.Failure td) ds = ((ok, rs), ds')"
    and c: "c = cmd\<lparr>TxnResult := Some \<lparr>TxnApplyResult.Succeeded = ok, Results = rs\<rparr>\<rparr>"
    by (rule execute_Txn [OF kind x])
  let ?ops = "if ok then TxnData.Success td else TxnData.Failure td"
  have "txn_ops ?ops ds = (rs, ds')"
    using T by (auto simp: Txn_def Let_def split: prod.splits if_splits)
  moreover have "list_all known_op ?ops"
    using assms(1) td by (auto simp: plain_command_def known_ops_def)
  moreover have "txn_events r ds' ?ops rs = Some es"
    using ev kind td nd by (simp add: command_events_def Let_def c)
  ultimately show ?thesis
    using txn_events_mirror [of ?ops ds rs ds' r es "data ds"]
    by (intro fmap_ext) (metis (no_types, lifting))
qed

lemma execute_events_mirror:
  assumes "plain_command cmd" and x: "execute ro now cmd ds = Returns ds' c"
    and ev: "command_events ro' ds' (c\<lparr>Command.Revision := r\<rparr>) = Some es"
  shows "fold mirror_event es (data ds) = data ds'"
proof -
  have nd: "\<not> IsDuplicate cmd" and pairs: "ResultPairs cmd = fmempty"
    using assms(1) by (simp_all add: plain_command_def submitted_def)
  note fr = execute_frame [OF x] and ce = command_events_def Let_def
  show ?thesis
  proof (cases "Kind cmd")
    case CommandTxn
    then show ?thesis
      using execute_txn_events_mirror [OF assms(1) _ x ev] by simp
  next
    case CommandLeaseRevoke
    then obtain ks where k: "RevokeLease ro (Command.LeaseID cmd) ds = (ks, ds')"
      and c: "c = cmd\<lparr>ResultPairs := mark_deleted ks fmempty\<rparr>"
      using x by (auto simp: execute_def split: prod.splits)
    then show ?thesis
      using ev CommandLeaseRevoke nd revoke_data [OF k] by (auto simp: ce fold_mirror_deletes)
  next
    case CommandLeaseExpiry
    then obtain ps where k: "expire_loop ro (LeaseIDs cmd) fmempty ds = (ps, ds')"
      and c: "c = cmd\<lparr>ResultPairs := ps\<rparr>"
      using x pairs by (auto simp: execute_def split: prod.splits)
    then show ?thesis
      using ev CommandLeaseExpiry nd expire_loop_data [OF k] by (auto simp: ce fold_mirror_deletes)
  next
    case CommandPut
    then show ?thesis
      using x ev nd by (auto simp: ce execute_def with_result_eq Put_def put_data)
  next
    case CommandAppend
    then show ?thesis
      using x ev nd by (auto simp: ce execute_def with_result_eq Append_def appendLocked_def Let_def Get_fst)
  next
    case CommandCAS
    then show ?thesis
      using x ev nd
      by (auto simp: ce execute_def with_result_eq CAS_def casLocked_def Let_def Get_fst
          split: prod.splits if_splits)
  qed (use x ev fr nd in \<open>auto simp: ce execute_def GrantLease_def KeepAliveLease_def Let_def
      split: option.splits\<close>)
qed

lemma command_events_Revision:
  assumes "command_events ro ds cmd = Some es" and "e \<in> set es"
  shows "WatchEvent.Revision e = Command.Revision cmd"
  using assms txn_events_Revision
  by (auto simp: command_events_def Let_def split: CommandKind.splits if_splits option.splits)

lemma machine_events_mirror:
  assumes "plain_command cmd" and "machine_step ro now cmd m = (m', cmd')"
    and "command_events ro' (m_ds m') cmd' = Some es"
  shows "fold mirror_event es (data (m_ds m)) = data (m_ds m')"
    and "e \<in> set es \<Longrightarrow> WatchEvent.Revision e = m_rev m'"
proof -
  have sub: "submitted cmd" using assms(1) by (simp add: plain_command_def)
  obtain ds' c where x: "execute ro now cmd (m_ds m) = Returns ds' c"
    using execute_returns [OF sub] by blast
  show "fold mirror_event es (data (m_ds m)) = data (m_ds m')"
  proof (cases "m_duplicate cmd (m_last m)")
    case True
    with assms(2) have "m' = m" "IsDuplicate cmd'"
      using machine_step_IsDuplicate(1) [OF sub assms(2)] by (auto simp: machine_step_def)
    with assms(3) show ?thesis
      by (simp add: command_events_def)
  next
    case False
    with assms(2) x have "m_ds m' = ds'" "cmd' = c\<lparr>Command.Revision := m_bump (Kind cmd) (m_rev m)\<rparr>"
      by (auto simp: machine_step_def)
    with execute_events_mirror [OF assms(1) x] assms(3) show ?thesis by simp
  qed
  show "e \<in> set es \<Longrightarrow> WatchEvent.Revision e = m_rev m'"
    using command_events_Revision [OF assms(3)] machine_step_Revision(1) [OF sub assms(2)] by simp
qed

lemma committed_watch:
  "fmlookup (watchSubs (committed ro i t m' cmd' ev s)) sid =
     map_option (fold deliver ev) (fmlookup (watchSubs s) sid)"
  by (simp add: committed_def)

lemma apply_entries_events:
  assumes "kv_wf s" and "list_all plain_command (commands es)" and "lease_room (commands es) (dstore s)"
  shows "\<exists>s' rs ev. apply_entries es s = Returns s' rs \<and>
    (\<forall>sid. fmlookup (watchSubs s') sid = map_option (fold deliver ev) (fmlookup (watchSubs s) sid)) \<and>
    fold mirror_event ev (data (dstore s)) = data (dstore s')"
  using assms
proof (induction es arbitrary: s)
  case Nil
  then show ?case
    by (intro exI [of _ s] exI [of _ "[]"]) (simp add: option.map_ident)
next
  case (Cons x es)
  obtain ro now cmd i t where x: "x = ((ro, now), cmd, i, t)" by (cases x) auto
  have plain: "plain_command cmd" and sub: "submitted cmd" and room: "lease_room (cmd # commands es) (dstore s)"
    using Cons.prems(2,3) by (simp_all add: x plain_command_def)
  obtain m' cmd' where ms: "machine_step ro now cmd (machine_of s) = (m', cmd')"
    by (cases "machine_step ro now cmd (machine_of s)")
  obtain ev where ev: "command_events ro (m_ds m') cmd' = Some ev"
    and h: "handleCommand ro now cmd i t s = Returns (committed ro i t m' cmd' ev s) cmd'"
    by (rule handleCommand_eq [OF Cons.prems(1) sub ms])
  have "lease_room (cmd # commands es) (m_ds (machine_of s))"
    using room by simp
  note step = lease_room_step [OF this sub ms]
  have "ds_wf (m_ds m')"
    using machine_step_wf [OF _ sub _ ms] step(2) Cons.prems(1) by (simp add: kv_wf_def)
  from Cons.IH [OF kv_wf_committed [OF Cons.prems(1) this, of ro i t cmd' ev]] step(1) Cons.prems(2)
  obtain s' rs ev' where "apply_entries es (committed ro i t m' cmd' ev s) = Returns s' rs"
    "\<forall>sid. fmlookup (watchSubs s') sid = map_option (fold deliver ev') (map_option (fold deliver ev) (fmlookup (watchSubs s) sid))"
    "fold mirror_event ev' (data (m_ds m')) = data (dstore s')"
    by (auto simp: committed_watch)
  with h machine_events_mirror(1) [OF plain ms ev] show ?case
    by (intro exI [of _ s'] exI [of _ "cmd' # rs"] exI [of _ "ev @ ev'"])
      (simp add: x option.map_comp o_def)
qed

subsection \<open>Properties\<close>

text \<open>
  The watch events reproduce the store. For a client that watches without a prefix there is
  one list of events such that the log puts exactly these events, in order, into its channel, up
  to the channel's capacity, and storing and dropping keys as the events say turns the map before
  the log into the map after it: puts, appends, swaps, transactions, revoked and expired leases.
\<close>
lemma watch_events_reproduce_store:
  assumes "kv_wf s" and "list_all plain_command (commands es)" and "lease_room (commands es) (dstore s)"
    and "fmlookup (watchSubs s) sid = Some sub" and "sub_prefix sub = ''''"
  shows "\<exists>s' rs ev sub'. apply_entries es s = Returns s' rs \<and> fmlookup (watchSubs s') sid = Some sub' \<and>
    buffered (ch sub') = take (capacity (ch sub)) (buffered (ch sub) @ ev) \<and>
    fold mirror_event ev (data (dstore s)) = data (dstore s')"
proof -
  obtain s' rs ev where r: "apply_entries es s = Returns s' rs"
    "fmlookup (watchSubs s') sid = Some (fold deliver ev sub)"
    "fold mirror_event ev (data (dstore s)) = data (dstore s')"
    using apply_entries_events [OF assms(1-3)] assms(4) by fastforce
  have "length (buffered (ch sub)) \<le> capacity (ch sub)"
    using assms(1,4) by (auto simp: kv_wf_def watch_wf_def fmpred_iff)
  from fold_deliver_buffered [OF this, of ev] r assms(5) show ?thesis
    by (auto simp: sub_matches_def)
qed

lemma watch_events_reproduce_store_witness:
  "\<exists>s sid s' rs ev sub'. subscribeWatch '''' (New 0 []) = (sid, s) \<and>
    apply_entries [((ascending, 5), put_k ''v'' 1, 0, 1)] s = Returns s' rs \<and>
    fmlookup (watchSubs s') sid = Some sub' \<and> buffered (ch sub') = take 64 ev \<and>
    fold mirror_event ev fmempty = data (dstore s')"
proof -
  obtain sid s where w: "subscribeWatch '''' (New 0 []) = (sid, s)"
    by (cases "subscribeWatch '''' (New 0 [])")
  have "kv_wf s"
    using watch_wf_subscribe(1) [OF _ w] kv_wf_New [of 0 "[]"] w
    by (auto simp: kv_wf_def subscribeWatch_def Let_def subs_wf_def)
  moreover have "fmlookup (watchSubs s) sid = Some (newWatchSub '''' 64)"
    using watch_wf_subscribe(2) [OF _ w] kv_wf_New [of 0 "[]"] by (simp add: kv_wf_def)
  moreover have "dstore s = NewDataStore"
    using w by (auto simp: subscribeWatch_def Let_def)
  moreover have "plain_command (put_k ''v'' 1)"
    by (simp add: plain_command_def) (simp add: put_k_def zeroCommand_def known_ops_def)
  ultimately show ?thesis
    using watch_events_reproduce_store [of s "[((ascending, 5), put_k ''v'' 1, 0, 1)]" sid "newWatchSub '''' 64"] w
    by (simp add: lease_room_def newWatchSub_def make_chan_def NewDataStore_def del: apply_entries.simps)
qed

text \<open>
  An operation of unknown type is announced as a put. A transaction whose only operation has a
  type outside the declared ones leaves the store as it is, but watchers are sent a put event with
  the operation's key and value, which the store does not hold.
\<close>
lemma unknown_operation_is_announced_as_put:
  assumes "kv_wf s" and "submitted cmd" and "\<not> is_duplicate cmd s" and "Kind cmd = CommandTxn"
    and "TxnField cmd = Some \<lparr>TxnData.Conditions = [], Success = [op], Failure = []\<rparr>"
    and "TxnOp.Op op = TxnOpUnknown n"
  shows "\<exists>s' c. handleCommand ro now cmd index trm s = Returns s' c \<and> dstore s' = dstore s \<and>
    eventBuf s' = eb_push (put_event (TxnOp.Key op) (TxnOp.Value op) (currentRevision s + 1)) (eventBuf s)"
proof -
  obtain m' cmd' where ms: "machine_step ro now cmd (machine_of s) = (m', cmd')"
    by (cases "machine_step ro now cmd (machine_of s)")
  obtain ev where ev: "command_events ro (m_ds m') cmd' = Some ev"
    and h: "handleCommand ro now cmd index trm s = Returns (committed ro index trm m' cmd' ev s) cmd'"
    by (rule handleCommand_eq [OF assms(1,2) ms])
  have m': "m_ds m' = dstore s"
    and c: "cmd' = cmd\<lparr>TxnResult := Some \<lparr>TxnApplyResult.Succeeded = True,
        Results = [\<lparr>TxnOpResult.Key = TxnOp.Key op, PrevValue = '''', KeyFound = False\<rparr>]\<rparr>,
        Revision := currentRevision s + 1\<rparr>"
    using ms assms(3-6) by (auto simp: machine_step_def is_duplicate_machine execute_def Txn_def txn_op_def
        Let_def m_bump_def is_write_def)
  have "\<not> IsDuplicate cmd'"
    using assms(2) by (simp add: c submitted_def)
  then have "ev = [put_event (TxnOp.Key op) (TxnOp.Value op) (currentRevision s + 1)]"
    using ev assms(4,5,6) by (simp add: command_events_def Let_def c txn_op_events_def)
  with h m' show ?thesis by simp
qed

definition odd_op :: TxnOp where
  "odd_op = \<lparr>TxnOp.Op = TxnOpUnknown 9, Key = ''k'', Value = ''v'', CompareValue = '''', LeaseID = 0\<rparr>"

definition odd_txn :: Command where
  "odd_txn = (zeroCommand CommandTxn)
     \<lparr>TxnField := Some \<lparr>TxnData.Conditions = [], Success = [odd_op], Failure = []\<rparr>\<rparr>"

lemma unknown_operation_is_announced_as_put_witness:
  "\<exists>s' c. handleCommand ascending 5 odd_txn 0 1 (New 0 []) = Returns s' c \<and> dstore s' = NewDataStore \<and>
    eventBuf s' = eb_push (put_event ''k'' ''v'' 1) (newEventBuffer 1000)"
  using unknown_operation_is_announced_as_put [OF kv_wf_New, of odd_txn 0 "[]" odd_op 9 ascending 5 0 1]
  by (simp add: odd_txn_def odd_op_def zeroCommand_def submitted_def is_duplicate_def)
    (simp add: New_def eventBufferSize_def)

text \<open>
  Resuming a watch skips the rest of a revision. All events of one transaction or one lease
  revocation carry the same revision, which is also the id a client resumes from. After two such
  events, a replay from the revision of the first returns nothing, so a client whose connection
  broke between the two never sees the second.
\<close>
lemma resume_skips_rest_of_revision:
  assumes "eb_wf eb" and "WatchEvent.Revision e1 = r" and "WatchEvent.Revision e2 = r"
    and "list_all (\<lambda>e. WatchEvent.Revision e <=s r) (eb_list eb)"
  shows "\<exists>eb'. push_all [e1, e2] eb = Returns eb' () \<and> Replay r eb' = Returns eb' []"
proof -
  let ?eb = "fold eb_push [e1, e2] eb"
  have wf: "eb_wf (eb_push e1 eb)" "eb_wf (eb_push e2 (eb_push e1 eb))"
    using assms(1) by (simp_all add: eb_push_wf)
  have "set (eb_list ?eb) \<subseteq> set (eb_list eb) \<union> {e1, e2}"
    using ring.contents_push [OF assms(1), of e1] ring.contents_push [OF wf(1), of e2]
    by (auto dest!: in_set_dropD)
  then have "WatchEvent.Revision e <=s r" if "e \<in> set (eb_list ?eb)" for e
    using that assms(2-4) by (auto simp: list_all_iff)
  then have "filter (\<lambda>e. r <s WatchEvent.Revision e) (eb_list ?eb) = []"
    unfolding filter_empty_conv word_sle_eq word_sless_alt by (meson not_less)
  then show ?thesis
    using push_all_returns [OF assms(1), of "[e1, e2]"] Replay_eq [of ?eb r] wf by simp
qed

lemma resume_skips_rest_of_revision_witness:
  "\<exists>eb'. push_all [put_event ''a'' ''1'' 4, put_event ''b'' ''2'' 4] (newEventBuffer 1000) = Returns eb' () \<and>
    Replay 4 eb' = Returns eb' []"
  by (rule resume_skips_rest_of_revision) (simp_all add: eb_wf_new)

end
