(* ===== verification/Cluster.thy ===== *)
theory Cluster
  imports Updater
begin

text \<open>
  A cluster: any number of nodes, each with its apply loop (\<open>loop_step\<close> of theory \<open>Updater\<close>) and
  its HTTP handlers, around one committed log.

  The Raft module is not part of the repository; it appears as what the service relies on. There
  is one committed log, which only grows. \<open>rs.Submit\<close> hands out an index, and an entry committed at
  an index was submitted by a node that was handed this index; any other submission is lost. A
  node gets the entries of the log in order, each on the commit channel; a snapshot comes on its
  own channel while no entry is on its way, and the entries after it follow when the service
  has taken it. A node that restarts begins with an empty service, and Raft delivers its log, or a
  snapshot and the rest, again.

  Everything else interleaves freely: which node submits what, when a handler registers for its
  index (the entry may have been applied by then), when it takes its answer or gives up, which
  node applies how much, at what clock and in which map iteration order. \<open>history\<close> records in the order of time
  what was submitted, committed and answered.
\<close>

subsection \<open>State\<close>

datatype event =
    Invoke int int Command
  | Commit log_entry
  | Respond int int Command Command

record node =
  upd :: updater
  fed :: nat
  waiting :: "(int \<times> nat \<times> Command) list"

record cluster =
  glog :: "log_entry list"
  saved :: "(int \<times> gob_bytes) set"
  node_at :: "int \<Rightarrow> node"
  history :: "event list"

abbreviation svc_at :: "cluster \<Rightarrow> int \<Rightarrow> KVService" where
  "svc_at c n \<equiv> svc (upd (node_at c n))"

definition set_node :: "int \<Rightarrow> node \<Rightarrow> cluster \<Rightarrow> cluster" where
  "set_node n nd c = c\<lparr>node_at := (node_at c)(n := nd)\<rparr>"

definition set_svc :: "KVService \<Rightarrow> node \<Rightarrow> node" where
  "set_svc s nd = nd\<lparr>upd := (upd nd)\<lparr>svc := s\<rparr>\<rparr>"

definition record_event :: "event \<Rightarrow> cluster \<Rightarrow> cluster" where
  "record_event e c = c\<lparr>history := history c @ [e]\<rparr>"

definition fresh_node :: "int \<Rightarrow> int list \<Rightarrow> node" where
  "fresh_node n ps = \<lparr>upd = started n ps, fed = 0, waiting = []\<rparr>"

text \<open>The commands that the nine handlers build.\<close>

definition handler_command :: "KVService \<Rightarrow> Command \<Rightarrow> bool" where
  "handler_command s cmd \<longleftrightarrow>
     cmd \<in> range (put_command s) \<or> cmd \<in> range (append_command s) \<or> cmd \<in> range (get_command s) \<or>
     cmd \<in> range (cas_command s) \<or> cmd \<in> range (list_command s) \<or> cmd \<in> range (txn_command s) \<or>
     cmd \<in> range (grant_command s) \<or> cmd \<in> range (keepalive_command s) \<or> cmd \<in> range (revoke_command s)"

text \<open>
  What a handler makes of its channel, whatever it answers: the committed command if it takes it
  for its own, None for a failed commit.
\<close>

definition await_commit :: "nat \<Rightarrow> KVService \<Rightarrow> (KVService, Command option http_reply) outcome" where
  "await_commit = end_request None (\<lambda>cmd. Some (Some cmd)) FromSub"

subsection \<open>Steps\<close>

inductive cluster_step :: "(int \<Rightarrow> int list) \<Rightarrow> cluster \<Rightarrow> cluster \<Rightarrow> bool" for ps where
  submits: "handler_command (svc_at c n) cmd \<Longrightarrow> 0 \<le> i \<Longrightarrow>
    cluster_step ps c (record_event (Invoke n i cmd) c)"
| ticks: "lease_expiry_tick lro now (svc_at c n) = Some cmd \<Longrightarrow> 0 \<le> i \<Longrightarrow>
    cluster_step ps c (record_event (Invoke n i cmd) c)"
| commits_command: "i = int (length (glog c)) \<Longrightarrow> Invoke n i cmd \<in> set (history c) \<Longrightarrow>
    cluster_step ps c (record_event (Commit (CommandEntry cmd i t)) (c\<lparr>glog := glog c @ [CommandEntry cmd i t]\<rparr>))"
| commits_change: "cluster_step ps c (record_event (Commit (ConfigEntry cc)) (c\<lparr>glog := glog c @ [ConfigEntry cc]\<rparr>))"
| commits_other: "cluster_step ps c (record_event (Commit OtherEntry) (c\<lparr>glog := glog c @ [OtherEntry]\<rparr>))"
| delivers: "nd = node_at c n \<Longrightarrow> fed nd < length (glog c) \<Longrightarrow> snapshotCh (upd nd) = [] \<Longrightarrow>
    cluster_step ps c (set_node n (nd\<lparr>upd := (upd nd)\<lparr>commitChan := commitChan (upd nd) @ [glog c ! fed nd]\<rparr>,
      fed := fed nd + 1\<rparr>) c)"
| delivers_snapshot: "nd = node_at c n \<Longrightarrow> (i, b) \<in> saved c \<Longrightarrow> snapshotCh (upd nd) = [] \<Longrightarrow>
    commitChan (upd nd) = [] \<Longrightarrow>
    cluster_step ps c (set_node n (nd\<lparr>upd := (upd nd)\<lparr>snapshotCh := [(i, b)]\<rparr>, fed := nat (i + 1)\<rparr>) c)"
| loops: "nd = node_at c n \<Longrightarrow> loop_step (upd nd) u \<Longrightarrow>
    cluster_step ps c (set_node n (nd\<lparr>upd := u\<rparr>)
      (c\<lparr>saved := saved c \<union> {(i, b). \<exists>t. (i, t, b) \<in> set (installed (svc u))}\<rparr>))"
| interleaves: "nd = node_at c n \<Longrightarrow> env_step (upd nd) u \<Longrightarrow>
    snapshotCh u = snapshotCh (upd nd) \<Longrightarrow> commitChan u = commitChan (upd nd) \<Longrightarrow>
    cluster_step ps c (set_node n (nd\<lparr>upd := u\<rparr>) c)"
| registers: "nd = node_at c n \<Longrightarrow> Invoke n i cmd \<in> set (history c) \<Longrightarrow>
    createCommitSubscription i (svc_at c n) = Returns s k \<Longrightarrow>
    cluster_step ps c (set_node n ((set_svc s nd)\<lparr>waiting := (i, k, cmd) # waiting nd\<rparr>) c)"
| responds: "nd = node_at c n \<Longrightarrow> (i, k, cmd) \<in> set (waiting nd) \<Longrightarrow>
    await_commit k (svc_at c n) = Returns s (ReplyJSON (Some r)) \<Longrightarrow>
    cluster_step ps c (record_event (Respond n i cmd r)
      (set_node n ((set_svc s nd)\<lparr>waiting := remove1 (i, k, cmd) (waiting nd)\<rparr>) c))"
| fails: "nd = node_at c n \<Longrightarrow> (i, k, cmd) \<in> set (waiting nd) \<Longrightarrow>
    await_commit k (svc_at c n) = Returns s (ReplyJSON None) \<Longrightarrow>
    cluster_step ps c (set_node n ((set_svc s nd)\<lparr>waiting := remove1 (i, k, cmd) (waiting nd)\<rparr>) c)"
| gives_up: "nd = node_at c n \<Longrightarrow> (i, k, cmd) \<in> set (waiting nd) \<Longrightarrow>
    cluster_step ps c (set_node n (nd\<lparr>waiting := remove1 (i, k, cmd) (waiting nd)\<rparr>) c)"
| restarts: "cluster_step ps c (set_node n (fresh_node n (ps n)) c)"

inductive_cases cluster_stepE: "cluster_step ps c c'"

subsection \<open>The sequential machine\<close>

text \<open>What the log means: its commands applied one after the other, with a fixed clock and order.\<close>

definition entry_step :: "log_entry \<Rightarrow> machine \<Rightarrow> machine" where
  "entry_step e m = (case e of CommandEntry cmd i t \<Rightarrow> fst (machine_step ascending 0 cmd m) | _ \<Rightarrow> m)"

definition sequential_state :: "log_entry list \<Rightarrow> machine" where
  "sequential_state g = fold entry_step g (machine_of (New 0 []))"

definition sequential_answer :: "log_entry list \<Rightarrow> nat \<Rightarrow> Command option" where
  "sequential_answer g j =
     (case g ! j of
        CommandEntry cmd i t \<Rightarrow> Some (snd (machine_step ascending 0 cmd (sequential_state (take j g))))
      | _ \<Rightarrow> None)"

text \<open>How far a node is in the log.\<close>

definition applied :: "node \<Rightarrow> nat" where
  "applied nd = fed nd - length (commitChan (upd nd))"

subsection \<open>Histories\<close>

definition commits :: "event list \<Rightarrow> log_entry list" where
  "commits h = List.map_filter (\<lambda>e. case e of Commit x \<Rightarrow> Some x | _ \<Rightarrow> None) h"

definition handed_out :: "event list \<Rightarrow> (int \<times> int) list" where
  "handed_out h = List.map_filter (\<lambda>e. case e of Invoke n i cmd \<Rightarrow> Some (n, i) | _ \<Rightarrow> None) h"

text \<open>What the events before an event say about it.\<close>

definition explained :: "event list \<Rightarrow> event \<Rightarrow> bool" where
  "explained h e \<longleftrightarrow>
     (case e of
        Invoke n i cmd \<Rightarrow> 0 \<le> i \<and> submitted cmd \<and> (ServiceID cmd = n \<or> ServiceID cmd = 0)
      | Commit x \<Rightarrow>
          (case x of
             CommandEntry cmd i t \<Rightarrow> i = int (length (commits h)) \<and> (\<exists>n. Invoke n i cmd \<in> set h)
           | _ \<Rightarrow> True)
      | Respond n i cmd r \<Rightarrow> Invoke n i cmd \<in> set h \<and> 0 \<le> i \<and> nat i < length (commits h) \<and>
          (\<exists>d t. commits h ! nat i = CommandEntry d i t \<and> ServiceID d = n))"

definition causal :: "event list \<Rightarrow> bool" where
  "causal h \<longleftrightarrow> (\<forall>p < length h. explained (take p h) (h ! p))"

text \<open>A cluster that comes up from what Raft has stored: its log, and snapshots of prefixes of it.\<close>

definition good_snapshot :: "log_entry list \<Rightarrow> int \<Rightarrow> gob_bytes \<Rightarrow> bool" where
  "good_snapshot g i b \<longleftrightarrow> 0 \<le> i \<and> nat (i + 1) \<le> length g \<and>
     (case decodeSnapshot b of
        Inl err \<Rightarrow> False
      | Inr snap \<Rightarrow> ds_wf (m_ds (snapshot_machine snap NewDataStore)) \<and>
          replicated_view (snapshot_machine snap NewDataStore) =
            replicated_view (sequential_state (take (nat (i + 1)) g)))"

definition booted :: "(int \<Rightarrow> int list) \<Rightarrow> cluster \<Rightarrow> bool" where
  "booted ps c \<longleftrightarrow> causal (history c) \<and> commits (history c) = glog c \<and>
     (\<forall>n i cmd r. Respond n i cmd r \<notin> set (history c)) \<and>
     (\<forall>(i, b) \<in> saved c. good_snapshot (glog c) i b) \<and>
     (\<forall>n. node_at c n = fresh_node n (ps n))"

inductive reachable_cluster :: "(int \<Rightarrow> int list) \<Rightarrow> cluster \<Rightarrow> cluster \<Rightarrow> bool" for ps c0 where
  boots: "booted ps c0 \<Longrightarrow> reachable_cluster ps c0 c0"
| steps: "reachable_cluster ps c0 c \<Longrightarrow> cluster_step ps c c' \<Longrightarrow> reachable_cluster ps c0 c'"

subsection \<open>Lemmas on logs and histories\<close>

lemma sequential_state_snoc: "sequential_state (g @ [e]) = entry_step e (sequential_state g)"
  by (simp add: sequential_state_def)

lemma sequential_answer_append: "j < length g \<Longrightarrow> sequential_answer (g @ g') j = sequential_answer g j"
  by (simp add: sequential_answer_def nth_append split: log_entry.split)

lemma commits_simps [simp]:
  "commits [] = []" "commits (h @ h') = commits h @ commits h'"
  "commits (Commit x # h) = x # commits h" "commits (Invoke n i cmd # h) = commits h"
  "commits (Respond n i cmd r # h) = commits h"
  by (simp_all add: commits_def List.map_filter_def)

lemma handed_out_simps [simp]:
  "handed_out [] = []" "handed_out (h @ h') = handed_out h @ handed_out h'"
  "handed_out (Commit x # h) = handed_out h" "handed_out (Invoke n i cmd # h) = (n, i) # handed_out h"
  "handed_out (Respond n i cmd r # h) = handed_out h"
  by (simp_all add: handed_out_def List.map_filter_def)

lemma causal_Nil [simp]: "causal []"
  by (simp add: causal_def)

lemma causal_snoc [simp]: "causal (h @ [e]) \<longleftrightarrow> causal h \<and> explained h e"
  by (auto simp: causal_def nth_append less_Suc_eq)

lemma causal_split: "causal (h @ e # h') \<Longrightarrow> explained h e"
  unfolding causal_def by (drule spec [of _ "length h"]) simp

lemma causal_prefix: "causal (h @ h') \<Longrightarrow> causal h"
  by (induction h' rule: rev_induct) (simp_all flip: append_assoc)

lemma handed_out_mem: "Invoke n i cmd \<in> set h \<Longrightarrow> (n, i) \<in> set (handed_out h)"
  by (induction h) (auto simp: handed_out_def List.map_filter_def split: event.splits)

lemma handed_out_once:
  assumes "distinct (handed_out h)" and "h = a @ Invoke n i cmd # b"
  shows "Invoke n i cmd' \<notin> set a" and "Invoke n i cmd' \<notin> set b"
  using assms handed_out_mem [of n i cmd' a] handed_out_mem [of n i cmd' b] by auto

lemma commits_entry:
  assumes "causal h" and "j < length (commits h)"
  shows "\<exists>a b. h = a @ Commit (commits h ! j) # b \<and> length (commits a) = j"
  using assms
proof (induction h rule: rev_induct)
  case (snoc e h)
  show ?case
  proof (cases "j < length (commits h)")
    case True
    with snoc obtain a b where "h = a @ Commit (commits h ! j) # b" "length (commits a) = j"
      by auto
    with True show ?thesis
      by (intro exI [of _ a] exI [of _ "b @ [e]"]) (simp add: nth_append)
  next
    case False
    with snoc.prems(2) have "\<exists>x. e = Commit x \<and> j = length (commits h)"
      by (cases e) auto
    then show ?thesis
      by (intro exI [of _ h] exI [of _ "[]"]) auto
  qed
qed simp

lemma committed_command:
  assumes "causal h" and "j < length (commits h)" and "commits h ! j = CommandEntry cmd i t"
  shows "i = int j" and "\<exists>n. Invoke n i cmd \<in> set h" and "submitted cmd"
proof -
  obtain a b where s: "h = a @ Commit (CommandEntry cmd i t) # b" "length (commits a) = j"
    using commits_entry [OF assms(1,2)] assms(3) by auto
  then have e: "explained a (Commit (CommandEntry cmd i t))"
    using causal_split assms(1) by simp
  then obtain n where n: "Invoke n i cmd \<in> set a" and "i = int j"
    using s(2) by (auto simp: explained_def)
  then show "i = int j" "\<exists>n. Invoke n i cmd \<in> set h"
    using s(1) by auto
  from n obtain a1 a2 where "a = a1 @ Invoke n i cmd # a2"
    by (auto simp: in_set_conv_decomp)
  then show "submitted cmd"
    using causal_split [of a1 "Invoke n i cmd"] assms(1) s(1) by (auto simp: explained_def)
qed

lemma invoke_explained: "causal h \<Longrightarrow> e \<in> set h \<Longrightarrow> \<exists>a. explained a e \<and> set a \<subseteq> set h"
  by (auto simp: in_set_conv_decomp dest: causal_split)

subsection \<open>What a step of the service leaves alone\<close>

text \<open>
  \<open>calm s s'\<close>: no channel that exists in \<open>s\<close> has received anything in \<open>s'\<close> or has been registered anew.
\<close>

definition calm :: "KVService \<Rightarrow> KVService \<Rightarrow> bool" where
  "calm s s' \<longleftrightarrow> service_id s' = service_id s \<and> next_chan s \<le> next_chan s' \<and>
     (\<forall>j k. k < next_chan s \<longrightarrow> fmlookup (commitSubs s') j = Some k \<longrightarrow> fmlookup (commitSubs s) j = Some k) \<and>
     (\<forall>k cn'. k < next_chan s \<longrightarrow> fmlookup (chans s') k = Some cn' \<longrightarrow>
        (\<exists>cn. fmlookup (chans s) k = Some cn \<and> set (buffered cn') \<subseteq> set (buffered cn)))"

definition silent :: "KVService \<Rightarrow> KVService \<Rightarrow> bool" where
  "silent s s' \<longleftrightarrow> calm s s' \<and> machine_of s' = machine_of s \<and> installed s' = installed s"

lemma silent_same:
  assumes "commitSubs s' = commitSubs s" and "chans s' = chans s" and "next_chan s' = next_chan s"
    and "service_id s' = service_id s" and "machine_of s' = machine_of s" and "installed s' = installed s"
  shows "silent s s'"
  using assms by (simp add: silent_def calm_def)

lemma silent_refl [simp]: "silent s s"
  by (rule silent_same) simp_all

lemma silent_register:
  assumes "kv_wf s" and "createCommitSubscription i s = Returns s' k"
  shows "silent s s'"
  unfolding createCommitSubscription_Returns(3) [OF assms] by (simp add: silent_def calm_def)

lemma silent_receive: "receive_commit k s = (r, s') \<Longrightarrow> silent s s'"
  by (auto simp: receive_commit_def recv_def silent_def calm_def split: option.splits prod.splits list.splits if_splits)

lemma silent_undelay: "silent s t \<Longrightarrow> silent s (t\<lparr>delayNextHTTPResponse := b\<rparr>)"
  by (simp add: silent_def calm_def machine_of_def)

lemma silent_await: "await_commit k s = Returns s' r \<Longrightarrow> silent s s'"
  using silent_receive [of k s]
  by (auto simp: await_commit_def end_request_def sendHTTPResponse_def silent_undelay
      split: prod.splits received.splits if_splits)

lemma await_answer:
  assumes "await_commit k s = Returns s' (ReplyJSON (Some r))"
  shows "ServiceID r = service_id s" and "\<exists>cn. fmlookup (chans s) k = Some cn \<and> r \<in> set (buffered cn)"
proof -
  obtain t where t: "receive_commit k s = (Received r, t)" and "ServiceID r = service_id t"
    using assms
    by (auto simp: await_commit_def end_request_def sendHTTPResponse_def
        split: prod.splits received.splits if_splits)
  then show "ServiceID r = service_id s"
    using silent_receive [OF t] by (simp add: silent_def calm_def)
  show "\<exists>cn. fmlookup (chans s) k = Some cn \<and> r \<in> set (buffered cn)"
    using t by (auto simp: receive_commit_def recv_def split: option.splits prod.splits list.splits if_splits)
qed

lemma silent_watch:
  "handleWatch_open pre since lastID canFlush s = Returns s' r \<Longrightarrow> silent s s'"
  "handleWatch_next sid s = (x, s') \<Longrightarrow> silent s s'"
  "silent s (handleWatch_close sid s)"
  by (auto simp: handleWatch_open_def handleWatch_next_def handleWatch_close_def unsubscribeWatch_def
      subscribeWatch_def Let_def machine_of_def intro!: silent_same
      split: option.splits if_splits outcome.splits prod.splits)

lemma silent_join:
  assumes "\<not> locked s" and "handleJoin req isLeader resolved connect add s = Returns s' r"
  shows "silent s s'"
  using assms
  by (auto simp: handleJoin_def sendHTTPResponse_def locking_free unlockKV_def Let_def machine_of_def
      intro!: silent_same split: sum.splits option.splits if_splits)

lemma silent_config:
  assumes "\<not> locked s" and "handleCommittedConfigChange cc s = Returns s' ()"
  shows "silent s s'"
  using handleCommittedConfigChange_returns [OF assms(1), of cc] assms(2) by (auto intro: silent_same)

lemma silent_env:
  assumes "env_step u u'" and "kv_wf (svc u)"
  shows "silent (svc u) (svc u')"
  using assms(1)
proof cases
  case (join_request req isLeader resolved connect add s r)
  with assms(2) show ?thesis
    using silent_join [of "svc u"] by (simp add: kv_wf_def)
qed (use assms(2) in \<open>auto intro: silent_register silent_receive silent_watch\<close>)

lemma calm_restored: "calm s (restored index snap s)"
  by (auto simp: calm_def restored_def close_covered_def put_machine_def Let_def split: if_splits)

lemma committed_channels:
  assumes "kv_wf s"
  shows "service_id (committed ro i t m' r ev s) = service_id s"
    and "next_chan (committed ro i t m' r ev s) = next_chan s"
    and "fmlookup (chans (committed ro i t m' r ev s)) k =
      (if fmlookup (commitSubs s) i = Some k then Some \<lparr>buffered = [r], capacity = 1, closed = True\<rparr>
       else fmlookup (chans s) k)"
  by (simp_all add: committed_def notified_def split: option.splits)


subsection \<open>Invariant\<close>

text \<open>
  Where a node is: its state is that of the sequential machine after the entries it has applied,
  and the commit channel holds the next ones; or a snapshot is on its way.
\<close>

definition in_step :: "log_entry list \<Rightarrow> node \<Rightarrow> bool" where
  "in_step g nd \<longleftrightarrow> fed nd \<le> length g \<and>
     (case snapshotCh (upd nd) of
        [] \<Rightarrow> length (commitChan (upd nd)) \<le> fed nd \<and>
          commitChan (upd nd) = drop (applied nd) (take (fed nd) g) \<and>
          replicated_view (machine_of (svc (upd nd))) = replicated_view (sequential_state (take (applied nd) g))
      | (i, b) # rest \<Rightarrow> rest = [] \<and> commitChan (upd nd) = [] \<and> good_snapshot g i b \<and> fed nd = nat (i + 1))"

text \<open>What a waiting handler may find in its channel.\<close>

definition answer_at :: "log_entry list \<Rightarrow> int \<Rightarrow> Command \<Rightarrow> bool" where
  "answer_at g i x \<longleftrightarrow> 0 \<le> i \<and> nat i < length g \<and> sequential_answer g (nat i) = Some x \<and>
     (\<exists>d t. g ! nat i = CommandEntry d i t \<and> ServiceID x = ServiceID d)"

definition handler_ok :: "log_entry list \<Rightarrow> KVService \<Rightarrow> int \<Rightarrow> nat \<Rightarrow> bool" where
  "handler_ok g s i k \<longleftrightarrow> k < next_chan s \<and> (\<forall>j. fmlookup (commitSubs s) j = Some k \<longrightarrow> j = i) \<and>
     (\<forall>cn. fmlookup (chans s) k = Some cn \<longrightarrow> (\<forall>x \<in> set (buffered cn). answer_at g i x))"

definition node_ok :: "log_entry list \<Rightarrow> event list \<Rightarrow> int \<Rightarrow> node \<Rightarrow> bool" where
  "node_ok g h n nd \<longleftrightarrow> upd_inv (upd nd) \<and> service_id (svc (upd nd)) = n \<and> in_step g nd \<and>
     (\<forall>(i, k, cmd) \<in> set (waiting nd). Invoke n i cmd \<in> set h \<and> handler_ok g (svc (upd nd)) i k) \<and>
     (\<forall>(i, t, b) \<in> set (installed (svc (upd nd))). good_snapshot g i b)"

definition cluster_ok :: "cluster \<Rightarrow> bool" where
  "cluster_ok c \<longleftrightarrow> causal (history c) \<and> commits (history c) = glog c \<and>
     (\<forall>n i cmd r. Respond n i cmd r \<in> set (history c) \<longrightarrow> sequential_answer (glog c) (nat i) = Some r) \<and>
     (\<forall>(i, b) \<in> saved c. good_snapshot (glog c) i b) \<and>
     (\<forall>n. node_ok (glog c) (history c) n (node_at c n))"

lemma good_snapshot_append: "good_snapshot g i b \<Longrightarrow> good_snapshot (g @ g') i b"
  by (auto simp: good_snapshot_def split: sum.splits)

lemma good_snapshot_sound: "good_snapshot g i b \<Longrightarrow> sound_bytes b"
  by (auto simp: good_snapshot_def sound_bytes_def split: sum.splits)

lemma answer_at_append: "answer_at g i x \<Longrightarrow> answer_at (g @ g') i x"
  by (auto simp: answer_at_def sequential_answer_append nth_append)

lemma handler_ok_append: "handler_ok g s i k \<Longrightarrow> handler_ok (g @ g') s i k"
  by (auto simp: handler_ok_def answer_at_append)

lemma in_step_append: "in_step g nd \<Longrightarrow> in_step (g @ g') nd"
  by (auto simp: in_step_def applied_def good_snapshot_append split: list.splits)

lemma node_ok_mono:
  assumes "node_ok g h n nd" and "set h \<subseteq> set h'"
  shows "node_ok (g @ g') h' n nd"
  using assms unfolding node_ok_def
  by (auto simp: in_step_append dest: handler_ok_append good_snapshot_append)

lemma node_ok_history: "node_ok g h n nd \<Longrightarrow> set h \<subseteq> set h' \<Longrightarrow> node_ok g h' n nd"
  using node_ok_mono [of g h n nd h' "[]"] by simp

lemma node_ok_fresh: "node_ok g h n (fresh_node n ps)"
proof -
  have n: "machine_of (New m qs) = machine_of (New n ps)" "service_id (New n ps) = n" "installed (New n ps) = []"
    for m qs
    by (simp_all add: New_def machine_of_def)
  have "in_step g (fresh_node n ps)"
    by (simp add: fresh_node_def started_def in_step_def applied_def sequential_state_def n(1) [of 0 "[]"])
  with reachable_inv [OF reach_start, of n ps] n(2,3) show ?thesis
    by (simp add: node_ok_def fresh_node_def) (simp add: started_def)
qed

lemma in_step_cong:
  assumes "fed nd' = fed nd" and "snapshotCh (upd nd') = snapshotCh (upd nd)"
    and "commitChan (upd nd') = commitChan (upd nd)"
    and "machine_of (svc (upd nd')) = machine_of (svc (upd nd))"
  shows "in_step g nd' \<longleftrightarrow> in_step g nd"
  using assms by (simp add: in_step_def applied_def split: list.split)

lemma handler_ok_calm: "handler_ok g s i k \<Longrightarrow> calm s s' \<Longrightarrow> handler_ok g s' i k"
  unfolding handler_ok_def calm_def by (auto, blast)

lemma handlers_ok_calm:
  assumes "\<forall>(i, k, cmd) \<in> W. Q i cmd \<and> handler_ok g s i k" and "calm s s'"
  shows "\<forall>(i, k, cmd) \<in> W. Q i cmd \<and> handler_ok g s' i k"
  using assms handler_ok_calm by blast

lemma node_ok_silent:
  assumes "node_ok g h n nd" and "silent (svc (upd nd)) (svc u)" and "upd_inv u"
    and "snapshotCh u = snapshotCh (upd nd)" and "commitChan u = commitChan (upd nd)"
  shows "node_ok g h n (nd\<lparr>upd := u\<rparr>)"
proof -
  have c: "calm (svc (upd nd)) (svc u)" and "service_id (svc u) = service_id (svc (upd nd))"
    "machine_of (svc u) = machine_of (svc (upd nd))" "installed (svc u) = installed (svc (upd nd))"
    using assms(2) by (simp_all add: silent_def calm_def)
  moreover have "\<forall>(i, k, cmd) \<in> set (waiting nd). Invoke n i cmd \<in> set h \<and> handler_ok g (svc (upd nd)) i k"
    using assms(1) by (simp add: node_ok_def)
  from handlers_ok_calm [OF this c] have
    "\<forall>(i, k, cmd) \<in> set (waiting nd). Invoke n i cmd \<in> set h \<and> handler_ok g (svc u) i k" .
  ultimately show ?thesis
    using assms in_step_cong [of "nd\<lparr>upd := u\<rparr>" nd g] by (simp add: node_ok_def)
qed


text \<open>A restore: the node is where the snapshot was taken.\<close>

lemma node_ok_restore:
  assumes ok: "node_ok g h n nd" and ch: "snapshotCh (upd nd) = (i, b) # rest"
    and hs: "handleSnapshot i b (svc (upd nd)) = Returns s ()"
    and inv: "upd_inv u" and u: "svc u = s" "snapshotCh u = rest" "commitChan u = commitChan (upd nd)"
  shows "node_ok g h n (nd\<lparr>upd := u\<rparr>)"
proof -
  have st: "rest = []" "commitChan (upd nd) = []" "good_snapshot g i b" "fed nd = nat (i + 1)"
    "fed nd \<le> length g"
    using ok ch by (simp_all add: node_ok_def in_step_def)
  then obtain snap where b: "b = GobOf snap" and v: "replicated_view (snapshot_machine snap NewDataStore) =
      replicated_view (sequential_state (take (nat (i + 1)) g))"
    by (cases b) (simp_all add: good_snapshot_def)
  have "\<not> locked (svc (upd nd))"
    using ok by (simp add: node_ok_def upd_inv_def kv_wf_def)
  with hs b have s: "s = restored i snap (svc (upd nd))"
    by (simp add: handleSnapshot_eq)
  have c: "calm (svc (upd nd)) s"
    unfolding s by (rule calm_restored)
  have "\<forall>(i, k, cmd) \<in> set (waiting nd). Invoke n i cmd \<in> set h \<and> handler_ok g (svc (upd nd)) i k"
    using ok by (simp add: node_ok_def)
  note w = handlers_ok_calm [OF this c]
  have "in_step g (nd\<lparr>upd := u\<rparr>)"
    using st v u snapshot_machine_indep [of snap "dstore (svc (upd nd))" NewDataStore]
    by (simp add: in_step_def applied_def s)
  with w c ok inv u show ?thesis
    by (auto simp: node_ok_def calm_def s)
qed

text \<open>An entry: the node makes the sequential machine's next step.\<close>

lemma in_step_next:
  assumes "in_step g nd" and "commitChan (upd nd) = e # rest"
  shows "snapshotCh (upd nd) = []" and "applied nd < length g" and "g ! applied nd = e"
    and "rest = drop (applied nd + 1) (take (fed nd) g)" and "length rest < fed nd"
    and "fed nd \<le> length g" and "fed nd - length rest = applied nd + 1"
    and "replicated_view (machine_of (svc (upd nd))) = replicated_view (sequential_state (take (applied nd) g))"
proof -
  show "snapshotCh (upd nd) = []"
    using assms by (auto simp: in_step_def split: list.splits)
  then have d: "fed nd \<le> length g" "length (commitChan (upd nd)) \<le> fed nd"
    and dr: "commitChan (upd nd) = drop (applied nd) (take (fed nd) g)"
    and v: "replicated_view (machine_of (svc (upd nd))) = replicated_view (sequential_state (take (applied nd) g))"
    using assms(1) by (simp_all add: in_step_def)
  show "fed nd \<le> length g"
    "replicated_view (machine_of (svc (upd nd))) = replicated_view (sequential_state (take (applied nd) g))"
    by (fact d v)+
  show "length rest < fed nd" "fed nd - length rest = applied nd + 1"
    using assms(2) d(2) by (auto simp: applied_def)
  have a: "applied nd < fed nd"
    using d(2) assms(2) by (simp add: applied_def)
  with d(1) show "applied nd < length g" by simp
  have "e # rest = g ! applied nd # drop (applied nd + 1) (take (fed nd) g)"
    using dr a d(1) Cons_nth_drop_Suc [of "applied nd" "take (fed nd) g"] unfolding assms(2) by simp
  then show "g ! applied nd = e" "rest = drop (applied nd + 1) (take (fed nd) g)"
    by blast+
qed

lemma in_step_advance:
  assumes "in_step g nd" and "commitChan (upd nd) = e # rest" and "commitChan u = rest" and "snapshotCh u = snapshotCh (upd nd)"
    and "replicated_view (machine_of (svc u)) = replicated_view (entry_step e (sequential_state (take (applied nd) g)))"
  shows "in_step g (nd\<lparr>upd := u\<rparr>)" and "applied (nd\<lparr>upd := u\<rparr>) = applied nd + 1"
proof -
  note n = in_step_next [OF assms(1,2)]
  show a: "applied (nd\<lparr>upd := u\<rparr>) = applied nd + 1"
    using n assms(3) by (simp add: applied_def)
  have "sequential_state (take (applied nd + 1) g) = entry_step e (sequential_state (take (applied nd) g))"
    using n(2,3) by (simp add: take_Suc_conv_app_nth sequential_state_snoc)
  with n assms(3,4,5) a show "in_step g (nd\<lparr>upd := u\<rparr>)"
    by (simp add: in_step_def)
qed


lemma committed_installed:
  assumes "(j, t', b) \<in> set (installed (committed ro i t m' r ev s))"
  shows "(j, t', b) \<in> set (installed s) \<or>
    (j = i \<and> (\<exists>w. encodeSnapshot ro w = Inr b \<and> machine_of w = m'))"
proof -
  define w where "w = fold push_event ev (notified (fmlookup (commitSubs s) i) r
    ((put_machine m' s)\<lparr>commitSubs := fmdrop i (commitSubs s)\<rparr>))"
  have w: "committed ro i t m' r ev s = after_snapshot ro i t w" "machine_of w = m'" "installed w = installed s"
    by (simp_all add: committed_def w_def)
  have "encodeSnapshot ro w = Inr (snapshot_bytes ro w)"
    using encodeSnapshot_defined [of ro w] by (auto simp: snapshot_bytes_def)
  with assms w show ?thesis
    by (auto simp: after_snapshot_def split: if_splits)
qed

lemma good_snapshot_encoded:
  assumes "encodeSnapshot ro w = Inr b" and "ds_wf (m_ds (machine_of w))" and "0 \<le> i" and "nat (i + 1) \<le> length g"
    and "replicated_view (machine_of w) = replicated_view (sequential_state (take (nat (i + 1)) g))"
  shows "good_snapshot g i b"
proof -
  obtain snap where "b = GobOf snap" "snapshot_machine snap NewDataStore = machine_of w"
    using snapshot_machine_of_encode [OF assms(1), of NewDataStore] .
  with assms show ?thesis by (simp add: good_snapshot_def)
qed

lemma handler_ok_committed:
  assumes "handler_ok g s i0 k" and "kv_wf s" and "answer_at g i r"
  shows "handler_ok g (committed ro i t m' r ev s) i0 k"
  unfolding handler_ok_def
proof (intro conjI allI impI)
  show "k < next_chan (committed ro i t m' r ev s)"
    using assms(1) by (simp add: handler_ok_def committed_channels [OF assms(2)])
  show "j = i0" if "fmlookup (commitSubs (committed ro i t m' r ev s)) j = Some k" for j
    using that assms(1) by (simp add: handler_ok_def split: if_splits)
  show "\<forall>x \<in> set (buffered cn). answer_at g i0 x"
    if "fmlookup (chans (committed ro i t m' r ev s)) k = Some cn" for cn
    using that assms(1,3) by (auto simp: handler_ok_def committed_channels [OF assms(2)] split: if_splits)
qed

lemma node_ok_command:
  assumes ok: "node_ok g h n nd" and h: "causal h" "commits h = g"
    and ch: "commitChan (upd nd) = CommandEntry cmd i t # rest"
    and hc: "handleCommand ro now cmd i t (svc (upd nd)) = Returns s c"
    and inv: "upd_inv u" and u: "svc u = s" "commitChan u = rest" "snapshotCh u = snapshotCh (upd nd)"
  shows "node_ok g h n (nd\<lparr>upd := u\<rparr>)"
proof -
  let ?s = "svc (upd nd)" and ?a = "applied nd"
  have st: "in_step g nd" and wf: "kv_wf ?s"
    using ok by (simp_all add: node_ok_def upd_inv_def)
  note nx = in_step_next [OF st ch]
  note cc = committed_command [OF h(1), of ?a cmd i t, unfolded h(2), OF nx(2,3)]
  obtain m' r where ms: "machine_step ro now cmd (machine_of ?s) = (m', r)"
    by (cases "machine_step ro now cmd (machine_of ?s)")
  obtain ev where "handleCommand ro now cmd i t ?s = Returns (committed ro i t m' r ev ?s) r"
    using handleCommand_eq [OF wf cc(3) ms] by blast
  with hc have s: "s = committed ro i t m' r ev ?s" by auto
  let ?m = "sequential_state (take ?a g)"
  have vr: "replicated_view m' = replicated_view (fst (machine_step ascending 0 cmd ?m))"
    "r = snd (machine_step ascending 0 cmd ?m)"
    using zodiac.step_view [OF nx(8), of "(ro, now)" cmd "(ascending, 0)"] by (simp_all add: ms)
  then have vs: "replicated_view (machine_of (svc u)) = replicated_view (entry_step (CommandEntry cmd i t) ?m)"
    by (simp add: u s entry_step_def)
  note adv = in_step_advance [OF st ch u(2,3) vs]
  have "answer_at g i r"
    using nx(2,3) cc(1) vr(2) machine_step_IsDuplicate(3) [OF cc(3) ms]
    by (simp add: answer_at_def sequential_answer_def)
  then have w: "\<forall>(i, k, cmd) \<in> set (waiting nd). Invoke n i cmd \<in> set h \<and> handler_ok g s i k"
    using ok handler_ok_committed [OF _ wf] by (auto simp: node_ok_def s)
  have "good_snapshot g j b" if "(j, t', b) \<in> set (installed s)" for j t' b
    using committed_installed [OF that [unfolded s]]
  proof (elim disjE conjE exE)
    fix x assume x: "j = i" "encodeSnapshot ro x = Inr b" "machine_of x = m'"
    have "nat (i + 1) = ?a + 1" "ds_wf (m_ds m')"
      using cc(1) inv by (simp_all add: upd_inv_def kv_wf_def u s nat_add_distrib)
    moreover have "sequential_state (take (?a + 1) g) = entry_step (CommandEntry cmd i t) ?m"
      using nx(2,3) by (simp add: take_Suc_conv_app_nth sequential_state_snoc)
    ultimately show "good_snapshot g j b"
      using good_snapshot_encoded [OF x(2), of i g] x nx(2) cc(1) vr(1) by (simp add: entry_step_def)
  qed (use ok in \<open>auto simp: node_ok_def\<close>)
  with w adv(1) ok inv u show ?thesis
    by (auto simp: node_ok_def s)
qed

lemma node_ok_skip:
  assumes ok: "node_ok g h n nd" and ch: "commitChan (upd nd) = e # rest" and "\<And>m. entry_step e m = m"
    and "silent (svc (upd nd)) (svc u)"
    and inv: "upd_inv u" and u: "commitChan u = rest" "snapshotCh u = snapshotCh (upd nd)"
  shows "node_ok g h n (nd\<lparr>upd := u\<rparr>)"
proof -
  have st: "in_step g nd"
    using ok by (simp add: node_ok_def)
  have c: "calm (svc (upd nd)) (svc u)" and s: "service_id (svc u) = service_id (svc (upd nd))"
    "machine_of (svc u) = machine_of (svc (upd nd))" "installed (svc u) = installed (svc (upd nd))"
    using assms(4) by (simp_all add: silent_def calm_def)
  have "in_step g (nd\<lparr>upd := u\<rparr>)"
    using in_step_advance(1) [OF st ch u] in_step_next(8) [OF st ch] assms(3) s by simp
  moreover have "\<forall>(i, k, cmd) \<in> set (waiting nd). Invoke n i cmd \<in> set h \<and> handler_ok g (svc (upd nd)) i k"
    using ok by (simp add: node_ok_def)
  note handlers_ok_calm [OF this c]
  ultimately show ?thesis
    using ok inv s by (simp add: node_ok_def)
qed

lemma node_ok_loop:
  assumes ok: "node_ok g h n nd" and h: "causal h" "commits h = g" and st: "loop_step (upd nd) u"
  shows "node_ok g h n (nd\<lparr>upd := u\<rparr>)"
proof -
  have inv: "upd_inv u"
    using loop_step_inv [OF st] ok by (simp add: node_ok_def)
  from st show ?thesis
  proof cases
    case (poll_snapshot i b rest s)
    with node_ok_restore [OF ok _ _ inv] show ?thesis by simp
  next
    case (select_snapshot i b rest s)
    with node_ok_restore [OF ok _ _ inv] show ?thesis by simp
  next
    case (select_command cmd i t rest ro now s c)
    with node_ok_command [OF ok h _ _ inv] show ?thesis by simp
  next
    case (select_config cc rest s)
    have "\<not> locked (svc (upd nd))"
      using ok by (simp add: node_ok_def upd_inv_def kv_wf_def)
    with select_config silent_config have "silent (svc (upd nd)) (svc u)" by simp
    with select_config node_ok_skip [OF ok _ _ _ inv] show ?thesis by (simp add: entry_step_def)
  next
    case (select_other rest)
    with node_ok_skip [OF ok _ _ _ inv] show ?thesis by (simp add: entry_step_def)
  qed (use node_ok_silent [OF ok _ inv] in simp_all)
qed


lemma set_node_simps [simp]:
  "glog (set_node n nd c) = glog c" "saved (set_node n nd c) = saved c" "history (set_node n nd c) = history c"
  "node_at (set_node n nd c) = (node_at c)(n := nd)"
  by (simp_all add: set_node_def)

lemma record_event_simps [simp]:
  "glog (record_event e c) = glog c" "saved (record_event e c) = saved c" "node_at (record_event e c) = node_at c"
  "history (record_event e c) = history c @ [e]"
  by (simp_all add: record_event_def)

lemma cluster_ok_node:
  assumes "cluster_ok c" and "node_ok (glog c) (history c) n nd"
  shows "cluster_ok (set_node n nd c)"
  using assms by (simp add: cluster_ok_def)

lemma cluster_ok_at:
  assumes "cluster_ok c"
  shows "node_ok (glog c) (history c) n (node_at c n)" and "kv_wf (svc_at c n)" and "upd_inv (upd (node_at c n))"
    and "service_id (svc_at c n) = n"
  using assms by (simp_all add: cluster_ok_def node_ok_def upd_inv_def)

lemma cluster_ok_event:
  assumes "cluster_ok c" and "explained (history c) e" and "commits [e] = []"
    and "\<And>n i cmd r. e = Respond n i cmd r \<Longrightarrow> sequential_answer (glog c) (nat i) = Some r"
  shows "cluster_ok (record_event e c)"
proof -
  have "node_ok (glog c) (history c @ [e]) n (node_at c n)" for n
    using assms(1) by (auto simp: cluster_ok_def intro: node_ok_history)
  with assms show ?thesis
    by (auto simp: cluster_ok_def)
qed

lemma cluster_ok_commit:
  assumes "cluster_ok c" and "explained (history c) (Commit e)"
  shows "cluster_ok (record_event (Commit e) (c\<lparr>glog := glog c @ [e]\<rparr>))"
proof -
  have ok: "causal (history c)" "commits (history c) = glog c" "\<And>n. node_ok (glog c) (history c) n (node_at c n)"
    using assms(1) by (simp_all add: cluster_ok_def)
  have "nat i < length (glog c)" if "Respond n i cmd r \<in> set (history c)" for n i cmd r
  proof -
    from that obtain a b where s: "history c = a @ Respond n i cmd r # b"
      by (auto simp: in_set_conv_decomp)
    with ok(1) have "explained a (Respond n i cmd r)"
      using causal_split by simp
    with s show ?thesis by (auto simp: explained_def simp flip: ok(2))
  qed
  moreover have "node_ok (glog c @ [e]) (history c @ [Commit e]) n (node_at c n)" for n
    by (rule node_ok_mono [OF ok(3)]) auto
  ultimately show ?thesis
    using assms ok(1,2) by (auto simp: cluster_ok_def sequential_answer_append good_snapshot_append)
qed

lemma handler_command_facts:
  assumes "handler_command s cmd" shows "submitted cmd" and "ServiceID cmd = service_id s"
  using assms by (auto simp: handler_command_def handler_commands_submitted handler_commands_ServiceID)

lemma tick_facts:
  assumes "lease_expiry_tick lro now s = Some cmd" shows "submitted cmd" and "ServiceID cmd = 0"
  using assms
  by (auto simp: lease_expiry_tick_def Let_def submitted_def zeroCommand_def split: if_splits)

lemma node_ok_waiting:
  assumes "node_ok g h n nd" and "set w \<subseteq> set (waiting nd)"
  shows "node_ok g h n (nd\<lparr>waiting := w\<rparr>)"
  using assms in_step_cong [of "nd\<lparr>waiting := w\<rparr>" nd g] by (auto simp: node_ok_def)

lemma node_ok_set_svc:
  assumes "node_ok g h n nd" and "silent (svc (upd nd)) s" and "env_step (upd nd) ((upd nd)\<lparr>svc := s\<rparr>) \<or> upd_inv ((upd nd)\<lparr>svc := s\<rparr>)"
  shows "node_ok g h n (set_svc s nd)"
proof -
  have "upd_inv ((upd nd)\<lparr>svc := s\<rparr>)"
    using assms(1,3) env_step_inv by (auto simp: node_ok_def)
  with node_ok_silent [OF assms(1), of "(upd nd)\<lparr>svc := s\<rparr>"] assms(2) show ?thesis
    by (simp add: set_svc_def)
qed

lemma upd_inv_undelay:
  assumes "upd_inv (u\<lparr>svc := s\<rparr>)" shows "upd_inv (u\<lparr>svc := s\<lparr>delayNextHTTPResponse := b\<rparr>\<rparr>)"
  using assms kv_wf_cong [of s "s\<lparr>delayNextHTTPResponse := b\<rparr>"] by (simp add: upd_inv_def)

lemma upd_inv_await:
  assumes "upd_inv u" and "await_commit k (svc u) = Returns s r"
  shows "upd_inv (u\<lparr>svc := s\<rparr>)"
proof -
  obtain x t where x: "receive_commit k (svc u) = (x, t)" by (cases "receive_commit k (svc u)")
  then have "upd_inv (u\<lparr>svc := t\<rparr>)"
    using env_step_inv [OF handler_receives assms(1)] by simp
  then show ?thesis
    using assms(2) x upd_inv_undelay [where u = u and s = t and b = False]
    by (auto simp: await_commit_def end_request_def sendHTTPResponse_def split: received.splits if_splits)
qed

lemma node_ok_await:
  assumes "node_ok g h n nd" and "await_commit k (svc (upd nd)) = Returns s r"
  shows "node_ok g h n ((set_svc s nd)\<lparr>waiting := remove1 x (waiting nd)\<rparr>)"
proof -
  have "upd_inv ((upd nd)\<lparr>svc := s\<rparr>)"
    using upd_inv_await [OF _ assms(2)] assms(1) by (simp add: node_ok_def)
  then have "node_ok g h n (set_svc s nd)"
    using node_ok_set_svc [OF assms(1) silent_await [OF assms(2)]] by blast
  from node_ok_waiting [OF this] show ?thesis
    by (simp add: set_svc_def set_remove1_subset)
qed

lemma node_ok_register:
  assumes ok: "node_ok g h n nd" and inv: "Invoke n i cmd \<in> set h"
    and cr: "createCommitSubscription i (svc (upd nd)) = Returns s k"
  shows "node_ok g h n ((set_svc s nd)\<lparr>waiting := (i, k, cmd) # waiting nd\<rparr>)"
proof -
  have wf: "kv_wf (svc (upd nd))"
    using ok by (simp add: node_ok_def upd_inv_def)
  have k: "k = next_chan (svc (upd nd))" and s: "s = (svc (upd nd))\<lparr>chans := fmupd k (make_chan 1) (chans (svc (upd nd))),
      next_chan := k + 1, commitSubs := fmupd i k (commitSubs (svc (upd nd)))\<rparr>"
    using createCommitSubscription_Returns(2,3) [OF wf cr] by simp_all
  have "env_step (upd nd) ((upd nd)\<lparr>svc := s\<rparr>)"
    using handler_registers [OF cr] .
  then have n: "node_ok g h n (set_svc s nd)"
    using node_ok_set_svc [OF ok silent_register [OF wf cr]] by blast
  have "handler_ok g s i k"
    using fresh_chan_unused [OF wf] unfolding k
    by (auto simp: handler_ok_def s k make_chan_def split: if_splits)
  with n inv in_step_cong [of "(set_svc s nd)\<lparr>waiting := (i, k, cmd) # waiting nd\<rparr>" "set_svc s nd" g] show ?thesis
    by (simp add: node_ok_def set_svc_def)
qed

lemma node_ok_deliver:
  assumes ok: "node_ok g h n nd" and h: "causal h" "commits h = g"
    and "fed nd < length g" and "snapshotCh (upd nd) = []"
  shows "node_ok g h n (nd\<lparr>upd := (upd nd)\<lparr>commitChan := commitChan (upd nd) @ [g ! fed nd]\<rparr>, fed := fed nd + 1\<rparr>)"
proof -
  have "sound_entry (g ! fed nd)"
    using committed_command(3) [OF h(1), of "fed nd"] assms(4)
    by (auto simp: h(2) sound_entry_def split: log_entry.splits)
  then have "upd_inv ((upd nd)\<lparr>commitChan := commitChan (upd nd) @ [g ! fed nd]\<rparr>)"
    using env_step_inv [OF deliver_entry] ok by (simp add: node_ok_def)
  moreover have "in_step g (nd\<lparr>upd := (upd nd)\<lparr>commitChan := commitChan (upd nd) @ [g ! fed nd]\<rparr>, fed := fed nd + 1\<rparr>)"
    using ok assms(4,5) by (auto simp: node_ok_def in_step_def applied_def take_Suc_conv_app_nth)
  ultimately show ?thesis
    using ok by (simp add: node_ok_def)
qed

lemma node_ok_deliver_snapshot:
  assumes ok: "node_ok g h n nd" and "good_snapshot g i b" and "commitChan (upd nd) = []" and "snapshotCh (upd nd) = []"
  shows "node_ok g h n (nd\<lparr>upd := (upd nd)\<lparr>snapshotCh := [(i, b)]\<rparr>, fed := nat (i + 1)\<rparr>)"
proof -
  have "upd_inv ((upd nd)\<lparr>snapshotCh := [(i, b)]\<rparr>)"
    using env_step_inv [OF deliver_snapshot [OF good_snapshot_sound [OF assms(2)]], of "upd nd" i] ok assms(4)
    by (simp add: node_ok_def)
  with ok assms(2,3) show ?thesis
    by (simp add: node_ok_def in_step_def good_snapshot_def)
qed

lemma cluster_step_ok:
  assumes "cluster_step ps c c'" and ok: "cluster_ok c"
  shows "cluster_ok c'"
proof -
  note at = cluster_ok_at [OF ok]
  have h: "causal (history c)" "commits (history c) = glog c"
    using ok by (simp_all add: cluster_ok_def)
  from assms(1) show ?thesis
  proof cases
    case (submits n cmd i)
    with handler_command_facts [OF submits(2)] at(4) show ?thesis
      by (auto intro!: cluster_ok_event [OF ok] simp: explained_def)
  next
    case (ticks lro now n cmd i)
    with tick_facts [OF ticks(2)] show ?thesis
      by (auto intro!: cluster_ok_event [OF ok] simp: explained_def)
  next
    case (commits_command i n cmd t)
    with h show ?thesis
      by (auto intro!: cluster_ok_commit [OF ok] simp: explained_def)
  next
    case (commits_change cc)
    then show ?thesis
      by (auto intro!: cluster_ok_commit [OF ok] simp: explained_def)
  next
    case commits_other
    then show ?thesis
      by (auto intro!: cluster_ok_commit [OF ok] simp: explained_def)
  next
    case (delivers nd n)
    with node_ok_deliver [OF at(1) h, of n] show ?thesis
      by (auto intro: cluster_ok_node [OF ok])
  next
    case (delivers_snapshot nd n i b)
    then have "good_snapshot (glog c) i b"
      using ok by (auto simp: cluster_ok_def)
    with delivers_snapshot node_ok_deliver_snapshot [OF at(1)] show ?thesis
      by (auto intro: cluster_ok_node [OF ok])
  next
    case (loops nd n u)
    with node_ok_loop [OF at(1) h, of n u] have nk: "node_ok (glog c) (history c) n (nd\<lparr>upd := u\<rparr>)"
      by simp
    then have "\<forall>(i, t, b) \<in> set (installed (svc u)). good_snapshot (glog c) i b"
      by (simp add: node_ok_def)
    with nk ok loops(1) show ?thesis
      by (auto simp: cluster_ok_def)
  next
    case (interleaves nd n u)
    have "upd_inv u"
      using env_step_inv [OF interleaves(3)] at(3) interleaves(2) by simp
    with node_ok_silent [OF at(1) _ this, of n] silent_env [OF interleaves(3)] interleaves at(2) show ?thesis
      by (auto intro: cluster_ok_node [OF ok])
  next
    case (registers nd n i cmd s k)
    with node_ok_register [OF at(1), of n i cmd s k] show ?thesis
      by (auto intro: cluster_ok_node [OF ok])
  next
    case (responds nd n i k cmd s r)
    have w: "Invoke n i cmd \<in> set (history c)" "handler_ok (glog c) (svc_at c n) i k"
      using at(1) [of n] responds(2,3) by (auto simp: node_ok_def)
    have a: "answer_at (glog c) i r" "ServiceID r = n"
      using await_answer [OF responds(4)] w(2) at(4) by (auto simp: handler_ok_def)
    have "cluster_ok (set_node n ((set_svc s nd)\<lparr>waiting := remove1 (i, k, cmd) (waiting nd)\<rparr>) c)"
      using node_ok_await [OF at(1) responds(4)] responds(2) by (auto intro: cluster_ok_node [OF ok])
    with w a h responds(1) show ?thesis
      by (auto intro!: cluster_ok_event simp: explained_def answer_at_def)
  next
    case (fails nd n i k cmd s)
    with node_ok_await [OF at(1) fails(4)] show ?thesis
      by (auto intro: cluster_ok_node [OF ok])
  next
    case (gives_up nd n i k cmd)
    with node_ok_waiting [OF at(1) [of n] set_remove1_subset] show ?thesis
      by (auto intro: cluster_ok_node [OF ok])
  next
    case (restarts n)
    with node_ok_fresh show ?thesis
      by (auto intro: cluster_ok_node [OF ok])
  qed
qed

lemma reachable_ok: "reachable_cluster ps c0 c \<Longrightarrow> cluster_ok c"
proof (induction rule: reachable_cluster.induct)
  case boots
  then show ?case
    by (auto simp: booted_def cluster_ok_def node_ok_fresh)
qed (rule cluster_step_ok)

end
