(* ===== verification/Leases.thy ===== *)
theory Leases
  imports Handlers
begin

text \<open>
  The life of a lease, from the grant over its renewals to the ticker of \<open>startLeaseExpiryLoop\<close>,
  which collects the leases whose deadline has passed and has them revoked through the log.
\<close>

lemma live_fold_revoke: "live (fold spec_revoke lids s) = live s - set lids"
  by (induction lids arbitrary: s) (auto simp: spec_revoke_def)

lemma entries_fold_revoke:
  "entries (fold spec_revoke lids s) k =
     (if \<exists>lid \<in> set lids. k \<in> owned_by lid s then None else entries s k)"
proof (induction lids arbitrary: s)
  case (Cons lid lids)
  have "k \<in> owned_by l (spec_revoke lid s) \<longleftrightarrow> k \<in> owned_by l s \<and> k \<notin> owned_by lid s" for l
    by (auto simp: spec_revoke_def owned_by_def)
  moreover have "entries (spec_revoke lid s) k = (if k \<in> owned_by lid s then None else entries s k)"
    by (simp add: spec_revoke_def)
  ultimately show ?case
    using Cons.IH [of "spec_revoke lid s"] by auto
qed simp

text \<open>The keys that hang on a lease whose deadline has passed.\<close>

definition overdue :: "time \<Rightarrow> DataStore \<Rightarrow> string \<Rightarrow> bool" where
  "overdue now ds k \<longleftrightarrow>
     (case fmlookup (keyLease ds) k of
        None \<Rightarrow> False
      | Some lid \<Rightarrow> (case fmlookup (leases ds) lid of None \<Rightarrow> False | Some l \<Rightarrow> Lease.ExpiresAt l < now))"

lemma overdue_owned:
  assumes "ds_wf ds"
  shows "(\<exists>lid \<in> set (CheckExpiredLeases ro now ds). k \<in> owned_by lid (ds_abs ds)) \<longleftrightarrow> overdue now ds k"
proof -
  have owned: "k \<in> owned_by lid (ds_abs ds) \<longleftrightarrow> fmlookup (keyLease ds) k = Some lid" for lid
    unfolding owned_by_ds_abs [OF assms] ds_wf_keyLease_iff [OF assms] by (simp split: option.splits)
  show ?thesis
    unfolding set_CheckExpiredLeases owned overdue_def by (simp split: option.splits)
qed

text \<open>
  C23: an expired lease takes its keys with it. When the ticker finds leases whose deadline has passed
  and its command commits with no other command in between, applying it succeeds on every replica,
  with whatever clock and iteration order; afterwards exactly those leases are gone, and of the
  keys exactly those that were attached to one of them.
\<close>
theorem expired_leases_take_their_keys:
  assumes "kv_wf s" and "lease_expiry_tick ro now s = Some cmd"
  shows "\<exists>s' c. handleCommand ro' now' cmd i t s = Returns s' c \<and> kv_wf s' \<and>
    (\<forall>k. fmlookup (data (dstore s')) k = (if overdue now (dstore s) k then None else fmlookup (data (dstore s)) k)) \<and>
    (\<forall>lid. lid |\<in>| fmdom (leases (dstore s')) \<longleftrightarrow>
      (\<exists>l. fmlookup (leases (dstore s)) lid = Some l \<and> now \<le> Lease.ExpiresAt l))"
proof -
  let ?ids = "CheckExpiredLeases ro now (dstore s)"
  have cmd: "cmd = (zeroCommand CommandLeaseExpiry)\<lparr>LeaseIDs := ?ids\<rparr>"
    using assms(2) by (simp add: lease_expiry_tick_def Let_def split: if_splits)
  have wf: "ds_wf (dstore s)"
    using assms(1) by (simp add: kv_wf_def)
  obtain s' c where h: "handleCommand ro' now' cmd i t s = Returns s' c" "kv_wf s'"
    and "service_abs (dstore s') = spec_execute cmd (service_abs (dstore s))"
    using command_refines [OF assms(1), of cmd ro' now' i t]
    by (auto simp: cmd submitted_def zeroCommand_def is_duplicate_def)
  then have abs: "ds_abs (dstore s') = fold spec_revoke ?ids (ds_abs (dstore s))"
    by (simp add: cmd spec_execute_def service_abs_def zeroCommand_def)
  have "fmlookup (data (dstore s')) k = (if overdue now (dstore s) k then None else fmlookup (data (dstore s)) k)" for k
    using arg_cong [OF abs, of "\<lambda>a. map_option fst (entries a k)"] overdue_owned [OF wf, of ro now k]
    by (simp add: entries_fold_revoke option.map_comp comp_def option.map_ident split: if_splits)
  moreover have "lid |\<in>| fmdom (leases (dstore s')) \<longleftrightarrow>
      (\<exists>l. fmlookup (leases (dstore s)) lid = Some l \<and> now \<le> Lease.ExpiresAt l)" for lid
    using arg_cong [OF abs, of live]
    by (auto simp: live_fold_revoke set_CheckExpiredLeases fmlookup_dom_iff set_eq_iff)
  ultimately show ?thesis
    using h by blast
qed

definition leased_store :: DataStore where
  "leased_store = snd (Put ''k'' ''v'' 1 (snd (GrantLease 0 60 NewDataStore)))"

lemma leased_store_wf: "ds_wf leased_store"
proof -
  have "ds_wf (snd (GrantLease 0 60 NewDataStore))"
    using ds_grant(5) [OF ds_wf_new, of 0 60] by (cases "GrantLease 0 60 NewDataStore") (simp add: NewDataStore_def)
  then show ?thesis
    using ds.put_spec [of "snd (GrantLease 0 60 NewDataStore)" "''k''" "''v''" 1]
    by (cases "Put ''k'' ''v'' 1 (snd (GrantLease 0 60 NewDataStore))") (simp add: leased_store_def)
qed

lemma leased_service_wf: "kv_wf ((New 0 [])\<lparr>dstore := leased_store\<rparr>)"
  using kv_wf_New [of 0 "[]"] leased_store_wf by (simp add: kv_wf_def watch_wf_def subs_wf_def)

lemma leased_store_simps:
  "leases leased_store = fmupd 1 \<lparr>Lease.ID = 1, TTL = 60, ExpiresAt = 60000000000, Keys = {|''k''|}\<rparr> fmempty"
  "keyLease leased_store = fmupd ''k'' 1 fmempty"
  by (simp_all add: leased_store_def op_defs NewDataStore_def lease_deadline_def Let_def)

lemma leased_tick:
  "lease_expiry_tick ascending 61000000000 ((New 0 [])\<lparr>dstore := leased_store\<rparr>) =
     Some ((zeroCommand CommandLeaseExpiry)\<lparr>LeaseIDs := [1]\<rparr>)"
  by (simp add: lease_expiry_tick_def CheckExpiredLeases_def sorted_list_of_fset.rep_eq leased_store_simps)

theorem expired_leases_take_their_keys_witness:
  "\<exists>s' c. handleCommand ascending 70000000000 ((zeroCommand CommandLeaseExpiry)\<lparr>LeaseIDs := [1]\<rparr>) 2 1
      ((New 0 [])\<lparr>dstore := leased_store\<rparr>) = Returns s' c \<and> fmlookup (data (dstore s')) ''k'' = None"
proof -
  have "overdue 61000000000 leased_store ''k''"
    by (simp add: overdue_def leased_store_simps)
  then show ?thesis
    using expired_leases_take_their_keys [OF leased_service_wf leased_tick, of ascending 70000000000 2 1] by auto
qed

text \<open>
  C24: a lease lives for its time. A lease granted at one instant with a time to live of up to
  9223372036 seconds is reported as expired exactly when more than that time has passed; a renewal
  starts the time again. The bound is the largest number of seconds that, in nanoseconds, fits an
  int64.
\<close>
theorem lease_lives_its_ttl:
  assumes "GrantLease t0 ttl ds = (lid, ds1)" and "0 \<le> sint ttl" and "sint ttl \<le> 9223372036"
    and "KeepAliveLease t1 lid ds1 = (found, ds2)"
  shows "(lid \<in> set (CheckExpiredLeases ro now ds1) \<longleftrightarrow> t0 + sint ttl * 1000000000 < now) \<and> found \<and>
    (lid \<in> set (CheckExpiredLeases ro now ds2) \<longleftrightarrow> t1 + sint ttl * 1000000000 < now)"
proof -
  have d: "lease_deadline at ttl = at + sint ttl * 1000000000" for at
    using assms(2,3) by (intro lease_deadline_no_wrap) simp_all
  have "fmlookup (leases ds1) lid = Some \<lparr>Lease.ID = lid, TTL = ttl, ExpiresAt = t0 + sint ttl * 1000000000, Keys = {||}\<rparr>"
    using assms(1) by (auto simp: GrantLease_def Let_def d)
  then show ?thesis
    using assms(4) unfolding set_CheckExpiredLeases by (auto simp: KeepAliveLease_def d)
qed

theorem lease_lives_its_ttl_witness:
  "(1 \<in> set (CheckExpiredLeases ascending 61000000000 (snd (GrantLease 0 60 NewDataStore))))"
  using lease_lives_its_ttl [of 0 60 NewDataStore 1 "snd (GrantLease 0 60 NewDataStore)" 5
      "fst (KeepAliveLease 5 1 (snd (GrantLease 0 60 NewDataStore)))" "snd (KeepAliveLease 5 1 (snd (GrantLease 0 60 NewDataStore)))"
      ascending 61000000000]
  by (simp add: GrantLease_def NewDataStore_def)

text \<open>One second more, and the product wraps: the lease has expired when it is granted.\<close>

lemma ttl_wraps: "lease_deadline now 9223372037 < now"
  by (simp add: lease_deadline_def)

end
