(* ===== verification/Linearizability.thy ===== *)
theory Linearizability
  imports Cluster Leases
begin

text \<open>
  What the clients of a cluster are promised: theory \<open>Cluster\<close> is the step relation and its
  invariant, this one draws the conclusions. Its first part is about histories alone, the second
  builds a run in which a node serves requests one after the other (the relation is not empty, and
  a node that has caught up can always serve), the third has the properties.
\<close>




subsection \<open>Answered requests in a history\<close>




subsection \<open>A request can be served\<close>

text \<open>A node that has caught up with the log and has nothing to do.\<close>

definition caught_up :: "log_entry list \<Rightarrow> int \<Rightarrow> node \<Rightarrow> bool" where
  "caught_up g n nd \<longleftrightarrow> fed nd = length g \<and> waiting nd = [] \<and> pc (upd nd) = AtPoll \<and> snapshotCh (upd nd) = [] \<and>
     commitChan (upd nd) = [] \<and> \<not> snapshotCh_closed (upd nd) \<and>
     (\<forall>j. int (length g) \<le> j \<longrightarrow> fmlookup (commitSubs (svc (upd nd))) j = None)"

definition visits :: "(int \<Rightarrow> int list) \<Rightarrow> cluster \<Rightarrow> int \<Rightarrow> log_entry list \<Rightarrow> event list \<Rightarrow> node \<Rightarrow> bool" where
  "visits ps c0 n g h nd \<longleftrightarrow> (\<exists>c. reachable_cluster ps c0 c \<and> glog c = g \<and> history c = h \<and> node_at c n = nd)"

lemma visits_step:
  assumes "visits ps c0 n g h nd"
    and "\<And>c. glog c = g \<Longrightarrow> history c = h \<Longrightarrow> node_at c n = nd \<Longrightarrow>
      \<exists>c'. cluster_step ps c c' \<and> glog c' = g' \<and> history c' = h' \<and> node_at c' n = nd'"
  shows "visits ps c0 n g' h' nd'"
  using assms unfolding visits_def by (metis steps)

lemma visits_loop:
  assumes "visits ps c0 n g h nd" and "loop_step (upd nd) u"
  shows "visits ps c0 n g h (nd\<lparr>upd := u\<rparr>)"
  using assms(1)
proof (rule visits_step)
  fix c :: cluster assume "glog c = g" "history c = h" "node_at c n = nd"
  with loops [OF refl, of c n u ps] assms(2)
  show "\<exists>c'. cluster_step ps c c' \<and> glog c' = g \<and> history c' = h \<and> node_at c' n = nd\<lparr>upd := u\<rparr>"
    by fastforce
qed

lemma visits_events:
  assumes "visits ps c0 n g h nd" and "handler_command (svc (upd nd)) cmd" and "i = int (length g)"
  shows "visits ps c0 n (g @ [CommandEntry cmd i t]) (h @ [Invoke n i cmd, Commit (CommandEntry cmd i t)]) nd"
proof -
  have "visits ps c0 n g (h @ [Invoke n i cmd]) nd"
    using assms(1)
  proof (rule visits_step)
    fix c :: cluster assume "glog c = g" "history c = h" "node_at c n = nd"
    with submits [of c n cmd i ps] assms(2,3)
    show "\<exists>c'. cluster_step ps c c' \<and> glog c' = g \<and> history c' = h @ [Invoke n i cmd] \<and> node_at c' n = nd"
      by fastforce
  qed
  then show ?thesis
  proof (rule visits_step)
    fix c :: cluster assume "glog c = g" "history c = h @ [Invoke n i cmd]" "node_at c n = nd"
    with commits_command [of i c n cmd ps t] assms(3)
    show "\<exists>c'. cluster_step ps c c' \<and> glog c' = g @ [CommandEntry cmd i t] \<and>
        history c' = h @ [Invoke n i cmd, Commit (CommandEntry cmd i t)] \<and> node_at c' n = nd"
      by fastforce
  qed
qed

lemma visits_register:
  assumes "visits ps c0 n g h nd" and "Invoke n i cmd \<in> set h"
    and "createCommitSubscription i (svc (upd nd)) = Returns s k"
  shows "visits ps c0 n g h ((set_svc s nd)\<lparr>waiting := (i, k, cmd) # waiting nd\<rparr>)"
  using assms(1)
proof (rule visits_step)
  fix c :: cluster assume "glog c = g" "history c = h" "node_at c n = nd"
  with registers [OF refl, of n i cmd c s k ps] assms(2,3)
  show "\<exists>c'. cluster_step ps c c' \<and> glog c' = g \<and> history c' = h \<and>
      node_at c' n = (set_svc s nd)\<lparr>waiting := (i, k, cmd) # waiting nd\<rparr>"
    by fastforce
qed

lemma visits_deliver:
  assumes "visits ps c0 n g h nd" and "fed nd < length g" and "snapshotCh (upd nd) = []"
  shows "visits ps c0 n g h (nd\<lparr>upd := (upd nd)\<lparr>commitChan := commitChan (upd nd) @ [g ! fed nd]\<rparr>, fed := fed nd + 1\<rparr>)"
  using assms(1)
proof (rule visits_step)
  fix c :: cluster assume "glog c = g" "history c = h" "node_at c n = nd"
  with delivers [OF refl, of c n ps] assms(2,3)
  show "\<exists>c'. cluster_step ps c c' \<and> glog c' = g \<and> history c' = h \<and>
      node_at c' n = nd\<lparr>upd := (upd nd)\<lparr>commitChan := commitChan (upd nd) @ [g ! fed nd]\<rparr>, fed := fed nd + 1\<rparr>"
    by fastforce
qed

lemma visits_respond:
  assumes "visits ps c0 n g h nd" and "waiting nd = [(i, k, cmd)]"
    and "await_commit k (svc (upd nd)) = Returns s (ReplyJSON (Some r))"
  shows "visits ps c0 n g (h @ [Respond n i cmd r]) ((set_svc s nd)\<lparr>waiting := []\<rparr>)"
  using assms(1)
proof (rule visits_step)
  fix c :: cluster assume "glog c = g" "history c = h" "node_at c n = nd"
  with responds [OF refl, of i k cmd c n s r ps] assms(2,3)
  show "\<exists>c'. cluster_step ps c c' \<and> glog c' = g \<and> history c' = h @ [Respond n i cmd r] \<and>
      node_at c' n = (set_svc s nd)\<lparr>waiting := []\<rparr>"
    by fastforce
qed

lemma caught_up_begins:
  assumes v: "visits ps c0 n g h nd" and up: "caught_up g n nd" and cmd: "handler_command (svc (upd nd)) cmd"
    and i: "i = int (length g)" and wf: "kv_wf (svc (upd nd))"
  obtains s k where "createCommitSubscription i (svc (upd nd)) = Returns s k"
    and "fmlookup (commitSubs s) i = Some k" and "kv_wf s" and "service_id s = service_id (svc (upd nd))"
    and "visits ps c0 n (g @ [CommandEntry cmd i t]) (h @ [Invoke n i cmd, Commit (CommandEntry cmd i t)])
      (nd\<lparr>upd := (upd nd)\<lparr>svc := s, commitChan := [CommandEntry cmd i t], pc := AtSelect\<rparr>,
          fed := length g + 1, waiting := [(i, k, cmd)]\<rparr>)"
proof -
  let ?g = "g @ [CommandEntry cmd i t]" and ?h = "h @ [Invoke n i cmd, Commit (CommandEntry cmd i t)]"
  have free: "fmlookup (commitSubs (svc (upd nd))) i = None"
    using up i by (simp add: caught_up_def)
  obtain s k where cr: "createCommitSubscription i (svc (upd nd)) = Returns s k"
    by (simp add: createCommitSubscription_fresh [OF wf free])
  note s = createCommitSubscription_Returns(2,3) [OF wf cr]
  let ?nd = "(set_svc s nd)\<lparr>waiting := (i, k, cmd) # waiting nd\<rparr>"
  have "visits ps c0 n ?g ?h ?nd"
    using visits_register [OF visits_events [OF v cmd i] _ cr] by simp
  from visits_deliver [OF this] up
  have "visits ps c0 n ?g ?h (nd\<lparr>upd := (upd nd)\<lparr>svc := s, commitChan := [CommandEntry cmd i t]\<rparr>,
      fed := length g + 1, waiting := [(i, k, cmd)]\<rparr>)" (is "visits _ _ _ _ _ ?nd'")
    by (cases nd) (simp add: caught_up_def set_svc_def)
  from visits_loop [OF this, of "(upd ?nd')\<lparr>pc := AtSelect\<rparr>"] up
  have "visits ps c0 n ?g ?h (nd\<lparr>upd := (upd nd)\<lparr>svc := s, commitChan := [CommandEntry cmd i t], pc := AtSelect\<rparr>,
      fed := length g + 1, waiting := [(i, k, cmd)]\<rparr>)"
    using poll_default [of "upd ?nd'"] by (cases nd) (simp add: caught_up_def)
  with cr kv_wf_createCommitSubscription [OF wf cr] s show thesis
    by (intro that) simp_all
qed

text \<open>
  Such a node can serve a request at once: the command is committed at the next index, the apply
  loop executes it and the handler answers. Afterwards the node is ready for the next one.
\<close>

lemma caught_up_serves:
  assumes v: "visits ps c0 n g h nd" and up: "caught_up g n nd" and cmd: "handler_command (svc (upd nd)) cmd"
    and ng: "Kind cmd \<noteq> CommandLeaseGrant" and i: "i = int (length g)"
  shows "\<exists>nd' r. visits ps c0 n (g @ [CommandEntry cmd i 1])
      (h @ [Invoke n i cmd, Commit (CommandEntry cmd i 1), Respond n i cmd r]) nd' \<and>
    caught_up (g @ [CommandEntry cmd i 1]) n nd'"
proof -
  have "node_ok g h n nd"
    using v reachable_ok unfolding visits_def by (auto dest: cluster_ok_at(1))
  then have wf: "kv_wf (svc (upd nd))" and sid: "service_id (svc (upd nd)) = n"
    by (simp_all add: node_ok_def upd_inv_def)
  obtain s k where cr: "createCommitSubscription i (svc (upd nd)) = Returns s k"
    and s: "fmlookup (commitSubs s) i = Some k" "kv_wf s" "service_id s = service_id (svc (upd nd))"
    and v1: "visits ps c0 n (g @ [CommandEntry cmd i 1]) (h @ [Invoke n i cmd, Commit (CommandEntry cmd i 1)])
      (nd\<lparr>upd := (upd nd)\<lparr>svc := s, commitChan := [CommandEntry cmd i 1], pc := AtSelect\<rparr>,
          fed := length g + 1, waiting := [(i, k, cmd)]\<rparr>)" (is "visits _ _ _ ?g ?h ?nd")
    using caught_up_begins [OF v up cmd i wf] .
  note f = handler_command_facts [OF cmd]
  obtain m' r where ms: "machine_step ascending 0 cmd (machine_of s) = (m', r)"
    by (cases "machine_step ascending 0 cmd (machine_of s)")
  obtain ev where hc: "handleCommand ascending 0 cmd i 1 s = Returns (committed ascending i 1 m' r ev s) r"
    using handleCommand_eq [OF s(2) f(1) ms] by blast
  let ?s = "committed ascending i 1 m' r ev s"
  have "loop_step (upd ?nd) ((upd ?nd)\<lparr>svc := ?s, commitChan := [], pc := AtPoll\<rparr>)"
    using hc ng by (intro select_command [where cmd = cmd and ro = ascending and now = 0]) simp_all
  from visits_loop [OF v1 this]
  have v2: "visits ps c0 n ?g ?h (nd\<lparr>upd := (upd nd)\<lparr>svc := ?s, commitChan := [], pc := AtPoll\<rparr>,
      fed := length g + 1, waiting := [(i, k, cmd)]\<rparr>)" (is "visits _ _ _ _ _ ?nd'")
    by (cases nd) simp
  obtain x where x: "receive_commit k ?s = (Received r, x)"
    using receive_commit_committed [OF s(1), of ascending 1 m' r ev] by (cases "receive_commit k ?s") simp
  have "service_id x = n"
    using silent_receive [OF x] s(3) sid by (simp add: silent_def calm_def)
  then obtain y where y: "await_commit k ?s = Returns y (ReplyJSON (Some r))"
    using x machine_step_IsDuplicate(3) [OF f(1) ms] f(2) sid
    by (auto simp: await_commit_def end_request_def sendHTTPResponse_def)
  have "fmlookup (commitSubs y) j = None" if "int (length ?g) \<le> j" for j
  proof -
    have "fmlookup (commitSubs s) j = None"
      using createCommitSubscription_Returns(3) [OF wf cr] up that i by (simp add: caught_up_def)
    moreover have "commitSubs y = commitSubs ?s"
      using y x by (auto simp: await_commit_def end_request_def sendHTTPResponse_def receive_commit_def
          split: option.splits prod.splits if_splits)
    ultimately show ?thesis by simp
  qed
  with visits_respond [OF v2 _, of i k cmd y r] y up show ?thesis
    by (intro exI [of _ "(set_svc y ?nd')\<lparr>waiting := []\<rparr>"] exI [of _ r]) (simp add: caught_up_def set_svc_def)
qed





text \<open>A cluster whose nodes start for the first time.\<close>

definition new_cluster :: "(int \<Rightarrow> int list) \<Rightarrow> cluster" where
  "new_cluster ps = \<lparr>glog = [], saved = {}, node_at = (\<lambda>n. fresh_node n (ps n)), history = []\<rparr>"

lemma new_cluster_booted: "booted ps (new_cluster ps)"
  by (simp add: booted_def new_cluster_def)

lemma new_cluster_caught_up:
  "visits ps (new_cluster ps) n [] [] (fresh_node n (ps n))" "caught_up [] n (fresh_node n (ps n))"
proof -
  show "visits ps (new_cluster ps) n [] [] (fresh_node n (ps n))"
    using boots [OF new_cluster_booted] unfolding visits_def by (force simp: new_cluster_def)
  show "caught_up [] n (fresh_node n (ps n))"
    by (simp add: caught_up_def fresh_node_def started_def New_def)
qed

lemma visits_service_id: "visits ps c0 n g h nd \<Longrightarrow> service_id (svc (upd nd)) = n"
  unfolding visits_def by (auto dest: reachable_ok cluster_ok_at(4))

lemma two_requests:
  fixes pr gr
  defines "P \<equiv> put_command (New 1 []) pr" and "G \<equiv> get_command (New 1 []) gr"
  obtains c r r' where "reachable_cluster (\<lambda>_. []) (new_cluster (\<lambda>_. [])) c"
    and "glog c = [CommandEntry P 0 1, CommandEntry G 1 1]"
    and "history c = [Invoke 1 0 P, Commit (CommandEntry P 0 1), Respond 1 0 P r,
      Invoke 1 1 G, Commit (CommandEntry G 1 1), Respond 1 1 G r']"
    and "caught_up (glog c) 1 (node_at c 1)"
proof -
  let ?ps = "\<lambda>_::int. [] :: int list"
  have cmd: "handler_command s P" "handler_command s G" if "service_id s = 1" for s
    using that by (auto simp: handler_command_def P_def G_def put_command_def get_command_def New_def image_iff)
  have kind: "Kind P \<noteq> CommandLeaseGrant" "Kind G \<noteq> CommandLeaseGrant"
    by (simp_all add: P_def G_def put_command_def get_command_def zeroCommand_def)
  obtain nd r where nd: "visits ?ps (new_cluster ?ps) 1 [CommandEntry P 0 1]
      [Invoke 1 0 P, Commit (CommandEntry P 0 1), Respond 1 0 P r] nd" "caught_up [CommandEntry P 0 1] 1 nd"
    using caught_up_serves [where i = 0, OF new_cluster_caught_up [where ps = ?ps and n = 1] cmd(1) kind(1)]
      visits_service_id [OF new_cluster_caught_up(1) [where ps = ?ps and n = 1]] by auto
  obtain nd' r' where "visits ?ps (new_cluster ?ps) 1 [CommandEntry P 0 1, CommandEntry G 1 1]
      [Invoke 1 0 P, Commit (CommandEntry P 0 1), Respond 1 0 P r,
       Invoke 1 1 G, Commit (CommandEntry G 1 1), Respond 1 1 G r'] nd'"
    "caught_up [CommandEntry P 0 1, CommandEntry G 1 1] 1 nd'"
    using caught_up_serves [where i = 1, OF nd cmd(2) kind(2)] visits_service_id [OF nd(1)] by auto
  then show thesis
    unfolding visits_def by (auto intro: that)
qed




text \<open>Without a saved snapshot there is nothing to restore.\<close>

lemma no_restore_step:
  assumes "cluster_step ps c c'" and "cluster_ok c" and "saved c = {}"
    and "\<And>n. snapshotCh (upd (node_at c n)) = [] \<and> restores (upd (node_at c n)) = 0"
  shows "saved c' = {} \<and> snapshotCh (upd (node_at c' n)) = [] \<and> restores (upd (node_at c' n)) = 0"
  using assms(1)
proof cases
  case (loops nd m u)
  have "snapshotCh u = [] \<and> restores u = 0"
    using loops(3) by cases (use loops(2) assms(4) [of m] in auto)
  moreover have "upd_inv u"
    using loop_step_inv [OF loops(3)] cluster_ok_at(3) [OF assms(2)] loops(2) by simp
  ultimately show ?thesis
    using loops(1,2) assms(3,4) by (auto simp: upd_inv_def)
next
  case (interleaves nd m u)
  have "restores u = 0"
    using interleaves(3) by cases (use interleaves(2) assms(4) [of m] in auto)
  with interleaves assms(3,4) show ?thesis by auto
qed (use assms(3,4) in \<open>auto simp: set_svc_def fresh_node_def started_def\<close>)

lemma never_restored:
  assumes "reachable_cluster ps c0 c" and "saved c0 = {}"
  shows "saved c = {} \<and> (\<forall>n. snapshotCh (upd (node_at c n)) = [] \<and> restores (upd (node_at c n)) = 0)"
  using assms(1)
proof (induction rule: reachable_cluster.induct)
  case boots
  with assms(2) show ?case
    by (simp add: booted_def fresh_node_def started_def)
next
  case (steps c c')
  from no_restore_step [OF steps(2) reachable_ok [OF steps(1)]] steps(3) show ?case by simp
qed

text \<open>
  C37: a cluster that starts without a snapshot never takes one. Whatever is submitted, committed, applied
  and restarted, no node ever hands Raft a snapshot: a node considers one only after it
  has restored one, and there is none to restore. So Raft's log grows for ever, and a node that
  restarts replays all of it.
\<close>
theorem new_cluster_never_snapshots:
  assumes "reachable_cluster ps c0 c" and "saved c0 = {}"
  shows "saved c = {} \<and> installed (svc_at c n) = [] \<and> lastSnapshotIndex (svc_at c n) = - 1"
  using never_restored [OF assms] cluster_ok_at(3) [OF reachable_ok [OF assms(1)], of n]
  by (simp add: upd_inv_def)

theorem new_cluster_never_snapshots_witness:
  "\<exists>c. reachable_cluster (\<lambda>_. []) (new_cluster (\<lambda>_. [])) c \<and> length (glog c) = 2 \<and> saved c = {} \<and>
    installed (svc_at c 1) = []"
proof -
  obtain c where c: "reachable_cluster (\<lambda>_. []) (new_cluster (\<lambda>_. [])) c"
    and g: "glog c = [CommandEntry (put_command (New 1 []) a_put) 0 1, CommandEntry (get_command (New 1 []) a_get) 1 1]"
    by (rule two_requests [of a_put a_get])
  have "saved (new_cluster (\<lambda>_. [])) = {}"
    by (simp add: new_cluster_def)
  from new_cluster_never_snapshots [OF c this, of 1] c g show ?thesis
    by (intro exI [of _ c]) simp
qed


subsection \<open>Reads see writes\<close>













subsection \<open>Why no node may have the id 0\<close>

lemma expiry_step:
  assumes "ds_wf (m_ds m)" and "lease_expiry_tick lro now0 s = Some d" and "machine_step ro now d m = (m', r)"
  shows "\<not> IsDuplicate r" and "ServiceID r = 0"
    and "fmlookup (data (m_ds m')) k \<in> {None, fmlookup (data (m_ds m)) k}"
proof -
  have sub: "submitted d" "ServiceID d = 0" "Command.ClientID d = 0" "Kind d = CommandLeaseExpiry"
    using tick_facts [OF assms(2)] assms(2) by (auto simp: lease_expiry_tick_def zeroCommand_def Let_def split: if_splits)
  then have nd: "\<not> m_duplicate d (m_last m)"
    by (simp add: m_duplicate_def)
  then show "\<not> IsDuplicate r" "ServiceID r = 0"
    using machine_step_IsDuplicate [OF sub(1) assms(3)] sub(2) by simp_all
  have "service_abs (m_ds m') = spec_execute d (service_abs (m_ds m))"
    using machine_step_refines_spec [OF assms(1) sub(1) nd _ assms(3)] sub(4) by simp
  then have "ds_abs (m_ds m') = fold spec_revoke (LeaseIDs d) (ds_abs (m_ds m))"
    using sub(4) by (simp add: service_abs_def spec_execute_def Let_def)
  then have "entries (ds_abs (m_ds m')) k \<in> {None, entries (ds_abs (m_ds m)) k}"
    by (simp add: entries_fold_revoke)
  then have "map_option fst (entries (ds_abs (m_ds m')) k) \<in> {None, map_option fst (entries (ds_abs (m_ds m)) k)}"
    by auto
  then show "fmlookup (data (m_ds m')) k \<in> {None, fmlookup (data (m_ds m)) k}"
    by (simp add: option.map_comp comp_def option.map_ident)
qed

text \<open>
  C38: on the node with the id 0 a put can be answered as executed although it was lost. The command of
  the lease ticker has no service id, so it carries 0. If node 0 lost the leadership and the
  ticker's command of the new leader is committed at the index that node 0's handler waits for,
  the handler takes it for its own command: it answers with status OK, but the value was not written.
\<close>
theorem lost_put_is_answered_on_node_zero:
  assumes "kv_wf s" and "service_id s = 0" and "readRequestJSON req = Inr pr"
    and "submit (put_command s pr) = i" and "0 \<le> i" and "fmlookup (commitSubs s) i = None"
    and "lease_expiry_tick lro now0 leader = Some d"
  shows "\<exists>s1 c v rs s2 r. handlePut_begin req submit s = Returns s1 (Pending pr c) \<and>
    apply_entries [((ro, now), d, i, t)] s1 = Returns v rs \<and>
    handlePut_end pr FromSub c v = Returns s2 (ReplyJSON r) \<and> PutResponse.RespStatus r = StatusOK \<and>
    fmlookup (data (dstore v)) (PutRequest.Key pr) \<in> {None, fmlookup (data (dstore s)) (PutRequest.Key pr)}"
proof -
  obtain s1 c where cr: "createCommitSubscription i s = Returns s1 c"
    by (simp add: createCommitSubscription_fresh [OF assms(1,6)])
  note s1 = createCommitSubscription_Returns(2,3) [OF assms(1) cr]
  have b: "handlePut_begin req submit s = Returns s1 (Pending pr c)"
    using assms(3-5) by (simp add: handler_defs begin_request_def cr)
  have w: "kv_wf s1" "fmlookup (commitSubs s1) i = Some c" "service_id s1 = 0" "dstore s1 = dstore s"
    using kv_wf_createCommitSubscription [OF assms(1) cr] assms(2) by (simp_all add: s1)
  obtain m' r where ms: "machine_step ro now d (machine_of s1) = (m', r)"
    by (cases "machine_step ro now d (machine_of s1)")
  obtain ev where h: "handleCommand ro now d i t s1 = Returns (committed ro i t m' r ev s1) r"
    using handleCommand_eq [OF w(1) tick_facts(1) [OF assms(7)] ms] by blast
  have "ds_wf (m_ds (machine_of s1))"
    using w(1) by (simp add: kv_wf_def)
  note e = expiry_step [OF this assms(7) ms]
  obtain s2 where "handlePut_end pr FromSub c (committed ro i t m' r ev s1) =
      Returns s2 (ReplyJSON (the (put_response r)))"
    using end_request_Received [where respond = put_response, OF receive_commit_committed [OF w(2), of ro t m' r ev]] e(2) w(3)
    by (force simp: handlePut_end_def put_response_def)
  with b h e w(4) show ?thesis
    by (auto simp: put_response_def)
qed

theorem lost_put_is_answered_on_node_zero_witness:
  "\<exists>s1 c v rs s2 r. handlePut_begin (json_request a_put) (\<lambda>_. 0) (New 0 []) = Returns s1 (Pending a_put c) \<and>
    apply_entries [((ascending, 0), (zeroCommand CommandLeaseExpiry)\<lparr>LeaseIDs := [1]\<rparr>, 0, 2)] s1 = Returns v rs \<and>
    handlePut_end a_put FromSub c v = Returns s2 (ReplyJSON r) \<and> PutResponse.RespStatus r = StatusOK \<and>
    fmlookup (data (dstore v)) ''k'' = None"
proof -
  have "fmlookup (commitSubs (New 0 [])) 0 = None" "service_id (New 0 []) = 0"
    "fmlookup (data (dstore (New 0 []))) ''k'' = None" "PutRequest.Key a_put = ''k''"
    by (simp_all add: New_def NewDataStore_def a_put_def)
  with lost_put_is_answered_on_node_zero [OF kv_wf_New _ read_json_request _ _ _ leased_tick, of 0 "[]" "\<lambda>_. 0" a_put 0 ascending 0 2]
  show ?thesis by auto
qed

end
