(* ===== verification/SSE.thy ===== *)
theory SSE
  imports Wire
begin

text \<open>
  The text of the watch stream: \<open>writeSSE\<close> of \<open>kvservice/watch.go\<close>, which prints an event on the
  connection, and \<open>readSSE\<close> of \<open>kvclient/kvclient.go\<close>, which reads the stream back line by line
  with a \<open>bufio.Scanner\<close>. The scanner gives up at a line that does not fit its buffer of 65536
  bytes. The reader's context is taken to stay alive, so every event it completes is sent to its
  channel. The lemmas show that the two sides agree: a stream is read back as written, and a
  stream cut at any byte is read back as a prefix.
\<close>

subsection \<open>The server's side\<close>

definition newline :: char where
  "newline = CHR 0x0A"

definition writeSSE :: "WatchEvent \<Rightarrow> string" where
  "writeSSE e =
     ''event: '' @ WatchEventName (WatchEvent.Type e) @ newline #
     ''id: '' @ FormatInt (WatchEvent.Revision e) @ newline #
     ''data: '' @ json_Marshal e @ [newline, newline]"

definition stream_text :: "WatchEvent list \<Rightarrow> string" where
  "stream_text es = concat (map writeSSE es)"

subsection \<open>The client's side\<close>

text \<open>\<open>bufio.ScanLines\<close>: the lines of a text, the last one with or without a newline.\<close>

fun split_lines :: "string \<Rightarrow> string list" where
  "split_lines [] = []"
| "split_lines (c # s) =
     (if c = newline then [] # split_lines s
      else case split_lines s of [] \<Rightarrow> [[c]] | l # ls \<Rightarrow> (c # l) # ls)"

definition drop_cr :: "string \<Rightarrow> string" where
  "drop_cr l = (if l \<noteq> [] \<and> last l = CHR 0x0D then butlast l else l)"

definition max_line :: nat where
  "max_line = 65535"

definition scanner_lines :: "string \<Rightarrow> string list" where
  "scanner_lines s = map drop_cr (takeWhile (\<lambda>l. length l \<le> max_line) (split_lines s))"

record sse_state =
  eventType :: string
  eventID :: string
  eventData :: string

definition no_event :: sse_state where
  "no_event = \<lparr>eventType = '''', eventID = '''', eventData = ''''\<rparr>"

definition flushEvent :: "sse_state \<Rightarrow> WatchEvent list" where
  "flushEvent st =
     (if eventType st = '''' \<or> eventData st = '''' then []
      else case WatchEventTypeFromName (eventType st) of
             None \<Rightarrow> []
           | Some evType \<Rightarrow>
               (case json_Unmarshal (eventData st) of
                  None \<Rightarrow> []
                | Some ev0 \<Rightarrow>
                    let ev = ev0\<lparr>Type := evType\<rparr>
                    in (case ParseInt (eventID st) of
                          (r, None) \<Rightarrow> (if 0 <s r then [ev\<lparr>WatchEvent.Revision := r\<rparr>] else [ev])
                        | (r, Some _) \<Rightarrow> [ev])))"

fun sse_lines :: "sse_state \<Rightarrow> string list \<Rightarrow> WatchEvent list" where
  "sse_lines st [] = flushEvent st"
| "sse_lines st (line # ls) =
     (if line = '''' then flushEvent st @ sse_lines no_event ls
      else if HasPrefix line ''event: '' then sse_lines (st\<lparr>eventType := TrimPrefix line ''event: ''\<rparr>) ls
      else if HasPrefix line ''id: '' then sse_lines (st\<lparr>eventID := TrimPrefix line ''id: ''\<rparr>) ls
      else if HasPrefix line ''data: '' then sse_lines (st\<lparr>eventData := TrimPrefix line ''data: ''\<rparr>) ls
      else sse_lines st ls)"

definition readSSE :: "string \<Rightarrow> WatchEvent list" where
  "readSSE stream = sse_lines no_event (scanner_lines stream)"

subsection \<open>Lines\<close>

definition printable :: "string \<Rightarrow> bool" where
  "printable s \<longleftrightarrow> list_all (\<lambda>c. 32 \<le> (of_char c :: nat)) s"

lemma printable_append [simp]: "printable (s @ t) \<longleftrightarrow> printable s \<and> printable t"
  by (simp add: printable_def)

lemma printable_take: "printable s \<Longrightarrow> printable (take n s)"
  by (auto simp: printable_def list_all_iff dest: in_set_takeD)

lemma printable_no_newline: "printable s \<Longrightarrow> newline \<notin> set s"
  by (auto simp: printable_def list_all_iff newline_def)

lemma printable_drop_cr [simp]: "printable s \<Longrightarrow> drop_cr s = s"
  using last_in_set [of s] by (fastforce simp: printable_def list_all_iff drop_cr_def)

lemma split_lines_line: "newline \<notin> set l \<Longrightarrow> split_lines (l @ newline # s) = l # split_lines s"
  by (induction l) auto

lemma split_lines_last: "newline \<notin> set l \<Longrightarrow> l \<noteq> [] \<Longrightarrow> split_lines l = [l]"
proof (induction l)
  case (Cons c l)
  then show ?case
    by (cases "l = []") auto
qed simp

definition short_line :: "string \<Rightarrow> bool" where
  "short_line l \<longleftrightarrow> printable l \<and> length l \<le> max_line"

lemma scanner_lines_line: "short_line l \<Longrightarrow> scanner_lines (l @ newline # s) = l # scanner_lines s"
  by (simp add: scanner_lines_def short_line_def split_lines_line printable_no_newline)

lemma scanner_lines_empty_line: "scanner_lines (newline # s) = [] # scanner_lines s"
  by (simp add: scanner_lines_def drop_cr_def)

lemma scanner_lines_last: "short_line l \<Longrightarrow> scanner_lines l = (if l = [] then [] else [l])"
  by (simp add: scanner_lines_def short_line_def split_lines_last printable_no_newline)

lemma scanner_lines_long: "printable l \<Longrightarrow> max_line < length l \<Longrightarrow> scanner_lines (l @ newline # s) = []"
  by (simp add: scanner_lines_def split_lines_line printable_no_newline)

subsection \<open>One event\<close>

text \<open>What the theorems ask of an event: it has a type, its texts are UTF-8, and its data fits a
  line of the scanner.\<close>

definition plain_event :: "WatchEvent \<Rightarrow> bool" where
  "plain_event e \<longleftrightarrow> WatchEvent.Type e \<noteq> EventInvalid \<and> utf8 (WatchEvent.Key e) \<and> utf8 (WatchEvent.Value e)"

definition fits_line :: "WatchEvent \<Rightarrow> bool" where
  "fits_line e \<longleftrightarrow> length (''data: '' @ json_Marshal e) \<le> max_line"

abbreviation event_line :: "WatchEvent \<Rightarrow> string" where
  "event_line e \<equiv> ''event: '' @ WatchEventName (WatchEvent.Type e)"

abbreviation id_line :: "WatchEvent \<Rightarrow> string" where
  "id_line e \<equiv> ''id: '' @ FormatInt (WatchEvent.Revision e)"

abbreviation data_line :: "WatchEvent \<Rightarrow> string" where
  "data_line e \<equiv> ''data: '' @ json_Marshal e"

lemma json_printable: "printable (json_Marshal e)"
  by (auto simp: printable_def list_all_iff dest: json_Marshal_printable)

lemma data_line_printable: "printable (data_line e)"
  unfolding printable_append by (simp add: json_printable) (simp add: printable_def)

lemma event_line_short: "short_line (event_line e)"
  by (cases "WatchEvent.Type e") (simp_all add: short_line_def printable_def max_line_def)

lemma format_nat_length: "n < 10 ^ Suc k \<Longrightarrow> length (format_nat n) \<le> Suc k"
proof (induction k arbitrary: n)
  case 0
  then show ?case
    by (simp add: format_nat.simps [of n])
next
  case (Suc k)
  then have "n div 10 < 10 ^ Suc k"
    by (simp add: less_mult_imp_div_less mult.commute)
  then have "length (format_nat (n div 10)) \<le> Suc k"
    by (rule Suc.IH)
  then show ?case
    by (subst format_nat.simps) simp
qed

lemma FormatInt_length: "length (FormatInt i) \<le> 20"
proof -
  have "nat (- sint i) < 10 ^ Suc 18" "nat (sint i) < 10 ^ Suc 18"
    using sint64_bounds [of i] by simp_all
  then have "length (format_nat (nat (- sint i))) \<le> Suc 18" "length (format_nat (nat (sint i))) \<le> Suc 18"
    by (blast intro: format_nat_length)+
  then show ?thesis
    by (simp add: FormatInt_def)
qed

lemma id_line_short: "short_line (id_line e)"
  using FormatInt_length [of "WatchEvent.Revision e"]
  by (auto simp: short_line_def printable_def list_all_iff max_line_def dest: FormatInt_printable)

lemma data_line_short: "fits_line e \<Longrightarrow> short_line (data_line e)"
  using data_line_printable [of e] by (simp only: short_line_def fits_line_def)

lemma json_Marshal_nonempty [simp]: "json_Marshal e \<noteq> []"
  by (simp add: json_Marshal_text)

text \<open>The reader's state after the three lines of an event.\<close>

abbreviation read_of :: "WatchEvent \<Rightarrow> string \<Rightarrow> sse_state" where
  "read_of e d \<equiv> \<lparr>eventType = WatchEventName (WatchEvent.Type e),
     eventID = FormatInt (WatchEvent.Revision e), eventData = d\<rparr>"

lemma sse_event_line: "sse_lines st (event_line e # ls) =
    sse_lines (st\<lparr>eventType := WatchEventName (WatchEvent.Type e)\<rparr>) ls"
  by (simp add: HasPrefix_def TrimPrefix_def)

lemma sse_id_line: "sse_lines st (id_line e # ls) =
    sse_lines (st\<lparr>eventID := FormatInt (WatchEvent.Revision e)\<rparr>) ls"
  by (simp add: HasPrefix_def TrimPrefix_def)

lemma sse_data_line: "sse_lines st ((''data: '' @ d) # ls) = sse_lines (st\<lparr>eventData := d\<rparr>) ls"
  by (simp add: HasPrefix_def TrimPrefix_def)

lemma WatchEventName_nonempty: "WatchEventName t = '''' \<longleftrightarrow> t = EventInvalid"
  by (cases t) simp_all

lemma flush_written: "plain_event e \<Longrightarrow> flushEvent (read_of e (json_Marshal e)) = [e]"
  by (simp add: flushEvent_def plain_event_def WatchEventName_nonempty json_roundtrip
      iffD2 [OF WatchEventTypeFromName_Name] ParseInt_FormatInt_eq)

lemma flush_cut:
  assumes "plain_event e" and "json_Marshal e = d @ q" and "q \<noteq> []"
  shows "flushEvent (read_of e d) = []"
proof -
  have "json_Unmarshal d = None"
    using assms json_Unmarshal_cut [of e d q] by (simp add: plain_event_def)
  then show ?thesis
    by (simp add: flushEvent_def split: option.splits)
qed

lemma writeSSE_lines:
  "writeSSE e @ s = event_line e @ newline # id_line e @ newline # data_line e @ newline # newline # s"
  by (simp add: writeSSE_def)

lemma scanner_lines_event:
  assumes "fits_line e"
  shows "scanner_lines (writeSSE e @ s) = event_line e # id_line e # data_line e # [] # scanner_lines s"
  unfolding writeSSE_lines
  by (simp only: scanner_lines_line [OF event_line_short] scanner_lines_line [OF id_line_short]
      scanner_lines_line [OF data_line_short [OF assms]] scanner_lines_empty_line)

lemma readSSE_event:
  assumes "plain_event e" and "fits_line e"
  shows "readSSE (writeSSE e @ s) = e # readSSE s"
proof -
  have "sse_lines (read_of e (json_Marshal e)) ([] # ls) = e # sse_lines no_event ls" for ls
    using flush_written [OF assms(1)] by simp
  then show ?thesis
    unfolding readSSE_def scanner_lines_event [OF assms(2)] sse_event_line sse_id_line sse_data_line
    by (simp add: no_event_def)
qed

lemma readSSE_nil [simp]: "readSSE [] = []"
  by (simp add: readSSE_def scanner_lines_def no_event_def flushEvent_def)

lemma readSSE_stream_append:
  "list_all (\<lambda>e. plain_event e \<and> fits_line e) es \<Longrightarrow> readSSE (stream_text es @ s) = es @ readSSE s"
  by (induction es) (simp_all add: stream_text_def readSSE_event)

subsection \<open>An event that is cut short\<close>

lemma take_line:
  "take n (l @ c # s) = (if n \<le> length l then take n l else l @ c # take (n - Suc (length l)) s)"
  by (auto simp: take_Cons' Suc_diff_Suc)

lemma short_take: "short_line l \<Longrightarrow> short_line (take n l)"
  by (auto simp: short_line_def printable_take)

lemma sse_cut_line:
  assumes "eventData st = ''''" and "short_line l" and "\<not> HasPrefix l ''data: ''"
  shows "sse_lines st (scanner_lines l) = []"
  using assms by (simp add: scanner_lines_last flushEvent_def)

lemma HasPrefix_take: "HasPrefix (take n l) p \<Longrightarrow> HasPrefix l p"
  unfolding HasPrefix_iff_prefix using take_is_prefix prefix_order.trans by blast

lemma no_data_prefix:
  "\<not> HasPrefix (take n (event_line e)) ''data: ''" "\<not> HasPrefix (take n (id_line e)) ''data: ''"
  by (auto dest!: HasPrefix_take simp: HasPrefix_def)

lemma sse_cut_data:
  assumes "plain_event e" and "fits_line e" and "prefix d (data_line e)"
  shows "sse_lines (read_of e '''') (scanner_lines d) \<in> {[], [e]}"
proof -
  have d: "short_line d"
    using data_line_short [OF assms(2)] short_take assms(3) by (metis prefix_def append_eq_conv_conj)
  show ?thesis
  proof (cases "HasPrefix d ''data: ''")
    case True
    then obtain j where j: "d = ''data: '' @ j"
      by (auto simp: HasPrefix_iff_prefix prefix_def)
    then obtain q where "json_Marshal e = j @ q"
      using assms(3) by (auto simp: prefix_def)
    then have "flushEvent (read_of e j) \<in> {[], [e]}"
      using flush_written [OF assms(1)] flush_cut [OF assms(1)] by (cases "q = []") auto
    moreover have "scanner_lines d = [d]"
      using scanner_lines_last [OF d] j by simp
    ultimately show ?thesis
      using sse_data_line [of "read_of e ''''" j "[]"] j by simp
  next
    case False
    then show ?thesis
      using sse_cut_line [OF _ d] by simp
  qed
qed

lemma sse_data_then:
  assumes "plain_event e" and "fits_line e"
  shows "sse_lines (read_of e '''') (scanner_lines (take k (data_line e @ newline # [newline]))) \<in> {[], [e]}"
proof (cases "k \<le> length (data_line e)")
  case True
  then have "take k (data_line e @ newline # [newline]) = take k (data_line e)"
    by (simp only: take_line if_True)
  then show ?thesis
    using sse_cut_data [OF assms take_is_prefix, of k] by simp
next
  case False
  obtain t where t: "take k (data_line e @ newline # [newline]) = data_line e @ newline # t"
    "t = [] \<or> t = [newline]"
    using False by (simp only: take_line if_False) (cases "k - Suc (length (data_line e))", auto)
  have "sse_lines (read_of e (json_Marshal e)) (scanner_lines t) = [e]"
    using t(2) flush_written [OF assms(1)]
    by (auto simp: scanner_lines_empty_line scanner_lines_def drop_cr_def no_event_def flushEvent_def)
  then show ?thesis
    unfolding t(1) scanner_lines_line [OF data_line_short [OF assms(2)]] sse_data_line by simp
qed

lemma sse_id_then:
  assumes "plain_event e" and "fits_line e"
  shows "sse_lines \<lparr>eventType = WatchEventName (WatchEvent.Type e), eventID = '''', eventData = ''''\<rparr>
    (scanner_lines (take k (id_line e @ newline # data_line e @ newline # [newline]))) \<in> {[], [e]}"
proof (cases "k \<le> length (id_line e)")
  case True
  then have "take k (id_line e @ newline # s) = take k (id_line e)" for s
    by (simp only: take_line if_True)
  then show ?thesis
    using sse_cut_line [OF _ short_take [OF id_line_short] no_data_prefix(2), of _ k e] by simp
next
  case False
  then have "take k (id_line e @ newline # s) = id_line e @ newline # take (k - Suc (length (id_line e))) s" for s
    by (simp only: take_line if_False)
  then show ?thesis
    using sse_data_then [OF assms, of "k - Suc (length (id_line e))"]
    by (simp only: scanner_lines_line [OF id_line_short] sse_id_line sse_state.update_convs)
qed

lemma readSSE_cut:
  assumes "plain_event e" and "fits_line e"
  shows "readSSE (take k (writeSSE e)) \<in> {[], [e]}"
proof (cases "k \<le> length (event_line e)")
  case True
  then have "take k (event_line e @ newline # s) = take k (event_line e)" for s
    by (simp only: take_line if_True)
  then show ?thesis
    using sse_cut_line [OF _ short_take [OF event_line_short] no_data_prefix(1), of _ k e]
      writeSSE_lines [of e "[]"] by (simp add: readSSE_def no_event_def)
next
  case False
  then have "take k (event_line e @ newline # s) =
      event_line e @ newline # take (k - Suc (length (event_line e))) s" for s
    by (simp only: take_line if_False)
  then show ?thesis
    using sse_id_then [OF assms, of "k - Suc (length (event_line e))"]
    unfolding readSSE_def writeSSE_lines [of e "[]", unfolded append_Nil2] no_event_def
    by (simp only: scanner_lines_line [OF event_line_short] sse_event_line sse_state.update_convs)
qed

subsection \<open>Properties\<close>

abbreviation sample_put :: WatchEvent where
  "sample_put \<equiv> \<lparr>WatchEvent.Key = ''k'', Value = ''<1>'', Revision = 7, Type = EventPut\<rparr>"

lemma sample_put_plain: "plain_event sample_put" "fits_line sample_put"
  using FormatInt_length [of 7]
  by (simp_all add: plain_event_def fits_line_def max_line_def json_Marshal_text quote_def
      escape_simps escape_char_def short_escapes_def)



text \<open>
  C17: a broken connection never yields a wrong event. However many bytes of the stream arrive, the
  events delivered are the first ones that were written: the reader flushes a partial event at the
  end of the input, but a record whose JSON text is incomplete is rejected, so no event is
  invented, altered or delivered twice.
\<close>
theorem cut_stream_delivers_prefix:
  assumes "list_all (\<lambda>e. plain_event e \<and> fits_line e) es"
  shows "prefix (readSSE (take n (stream_text es))) es"
  using assms
proof (induction es arbitrary: n)
  case (Cons e es)
  show ?case
  proof (cases "n \<le> length (writeSSE e)")
    case True
    then show ?thesis
      using Cons.prems readSSE_cut [of e n] by (auto simp: stream_text_def)
  next
    case False
    then show ?thesis
      using Cons by (simp add: stream_text_def readSSE_event)
  qed
qed (simp add: stream_text_def)

theorem cut_stream_delivers_prefix_witness:
  "prefix (readSSE (take 50 (stream_text [sample_put, sample_put]))) [sample_put, sample_put]"
  by (rule cut_stream_delivers_prefix) (simp add: sample_put_plain)

text \<open>
  An event that does not fit a line ends the stream. When the data of an event is longer than
  the 65535 bytes the scanner takes, the client gets the events before it, and neither that event
  nor anything after it; the reader stops without an error and closes the channel.
\<close>
lemma long_event_ends_the_stream:
  assumes "list_all (\<lambda>e. plain_event e \<and> fits_line e) es" and "\<not> fits_line e"
  shows "readSSE (stream_text (es @ e # rest)) = es"
proof -
  have "scanner_lines (data_line e @ newline # s) = []" for s
    by (rule scanner_lines_long [OF data_line_printable]) (use assms(2) in \<open>simp add: fits_line_def\<close>)
  then have "readSSE (writeSSE e @ s) = []" for s
    unfolding readSSE_def writeSSE_lines
    by (simp only: scanner_lines_line [OF event_line_short] scanner_lines_line [OF id_line_short]
        sse_event_line sse_id_line) (simp add: no_event_def flushEvent_def)
  then show ?thesis
    using readSSE_stream_append [OF assms(1), of "stream_text (e # rest)"] by (simp add: stream_text_def)
qed

definition long_value :: string where
  "long_value = replicate 65536 (CHR ''x'')"

abbreviation long_put :: WatchEvent where
  "long_put \<equiv> \<lparr>WatchEvent.Key = ''k'', Value = long_value, Revision = 8, Type = EventPut\<rparr>"

lemma escape_rune_length: "piece r \<Longrightarrow> length r \<le> length (escape_rune r)"
  using escape_char_starts_no_quote [of "hd r"] by (auto simp: piece_def escape_rune_def)

lemma escape_length: "length s \<le> length (escape s)"
proof -
  have "length (concat rs) \<le> length (concat (map escape_rune rs))" if "list_all piece rs" for rs
    using that by (induction rs) (auto dest: escape_rune_length)
  from this [of "runes s"] show ?thesis
    by (simp add: concat_runes escape_def list_all_iff runes_pieces)
qed

lemma long_value_length: "length long_value = 65536"
  unfolding long_value_def by (rule length_replicate)

lemma long_put_too_long: "\<not> fits_line long_put"
proof -
  have "long_value \<noteq> []"
    using long_value_length by auto
  then show ?thesis
    using escape_length [of long_value] long_value_length
    by (simp add: fits_line_def max_line_def json_Marshal_text quote_def)
qed

lemma long_event_ends_the_stream_witness:
  "readSSE (stream_text ([sample_put] @ long_put # [sample_put])) = [sample_put]"
  by (rule long_event_ends_the_stream) (simp_all add: sample_put_plain long_put_too_long)

end
