(* ===== verification/Client.thy ===== *)
theory Client
  imports Serving SSE
begin

text \<open>
  The client library, \<open>kvclient/kvclient.go\<close>: the client's record, the requests its methods build,
  the loop in \<open>send\<close> that looks for the leader, and the discovery of the members.

  The network is an argument: \<open>net k path req\<close> is what the k-th attempt of a call meets, the answer
  of the HTTP exchange together with the state of the call's context and of the attempt's own
  context of 50 ms when the answer is there. The loop has no bound of its own, so it takes fuel;
  \<open>None\<close> is a loop that is still running. A member list comes from \<open>fetch k path\<close>. Calls of one
  client are taken one after the other, as the type, which has no lock around \<open>assumedLeader\<close> and
  \<open>addrs\<close>, asks for. A response body that cannot be decoded is taken to leave the struct of the
  response as it was, as a text that is not JSON does. Logging and response bodies that are not
  closed are left out.
\<close>

subsection \<open>The client and its requests\<close>

record KVClient =
  addrs :: "string list"
  assumedLeader :: nat
  clientID :: int64
  requestID :: int64

text \<open>The package variable \<open>clientCount\<close> is passed along.\<close>

definition New_client :: "string list \<Rightarrow> int64 \<Rightarrow> KVClient \<times> int64" where
  "New_client serviceAddrs clientCount =
     (let i = clientCount + 1
      in (\<lparr>addrs = serviceAddrs, assumedLeader = 0, clientID = i, requestID = 0\<rparr>, i))"

definition next_request :: "KVClient \<Rightarrow> KVClient" where
  "next_request c = c\<lparr>requestID := requestID c + 1\<rparr>"

definition put_request :: "string \<Rightarrow> string \<Rightarrow> int64 \<Rightarrow> KVClient \<Rightarrow> PutRequest" where
  "put_request key v lease c = \<lparr>PutRequest.Key = key, Value = v, ClientID = clientID c,
     RequestID = requestID c, LeaseID = lease\<rparr>"

definition append_request :: "string \<Rightarrow> string \<Rightarrow> KVClient \<Rightarrow> AppendRequest" where
  "append_request key v c = \<lparr>AppendRequest.Key = key, Value = v, ClientID = clientID c, RequestID = requestID c\<rparr>"

definition get_request :: "string \<Rightarrow> KVClient \<Rightarrow> GetRequest" where
  "get_request key c = \<lparr>GetRequest.Key = key, ClientID = clientID c, RequestID = requestID c\<rparr>"

definition list_request :: "string \<Rightarrow> int \<Rightarrow> string \<Rightarrow> KVClient \<Rightarrow> ListRequest" where
  "list_request pre limit keyAfter c = \<lparr>ListRequest.Prefix = pre, Limit = limit, KeyAfter = keyAfter,
     ClientID = clientID c, RequestID = requestID c\<rparr>"

definition cas_request :: "string \<Rightarrow> string \<Rightarrow> string \<Rightarrow> KVClient \<Rightarrow> CASRequest" where
  "cas_request key compare v c = \<lparr>CASRequest.Key = key, CompareValue = compare, Value = v,
     ClientID = clientID c, RequestID = requestID c\<rparr>"

definition txn_request :: "TxnCondition list \<Rightarrow> TxnOp list \<Rightarrow> TxnOp list \<Rightarrow> KVClient \<Rightarrow> TxnRequest" where
  "txn_request conditions success failure c = \<lparr>TxnRequest.Conditions = conditions, Success = success,
     Failure = failure, ClientID = clientID c, RequestID = requestID c\<rparr>"

definition grant_request :: "int64 \<Rightarrow> KVClient \<Rightarrow> LeaseGrantRequest" where
  "grant_request ttl c = \<lparr>LeaseGrantRequest.TTL = ttl, ClientID = clientID c, RequestID = requestID c\<rparr>"

definition keepalive_request :: "int64 \<Rightarrow> KVClient \<Rightarrow> LeaseKeepAliveRequest" where
  "keepalive_request i c = \<lparr>LeaseKeepAliveRequest.ID = i, ClientID = clientID c, RequestID = requestID c\<rparr>"

definition revoke_request :: "int64 \<Rightarrow> KVClient \<Rightarrow> LeaseRevokeRequest" where
  "revoke_request i c = \<lparr>LeaseRevokeRequest.ID = i, ClientID = clientID c, RequestID = requestID c\<rparr>"

subsection \<open>One attempt\<close>

datatype ctx_err = Canceled | DeadlineExceeded

text \<open>How the HTTP exchange ends: at the URL, at the connection, at the body, or with a response.\<close>

datatype 'r exchange = BadURL string | NoResponse string | BadBody string | Reply 'r

record 'r attempt =
  exchanged :: "'r exchange"
  parentErr :: "ctx_err option"
  retryErr :: "ctx_err option"

fun sendJSONRequest :: "'r exchange \<Rightarrow> string + 'r" where
  "sendJSONRequest (BadURL err) = Inl (''creating HTTP request: '' @ err)"
| "sendJSONRequest (NoResponse err) = Inl err"
| "sendJSONRequest (BadBody err) = Inl (''JSON-decoding response data: '' @ err)"
| "sendJSONRequest (Reply r) = Inr r"

definition contextDone :: "ctx_err option \<Rightarrow> bool" where
  "contextDone e \<longleftrightarrow> e \<noteq> None"

definition contextDeadlineExceeded :: "ctx_err option \<Rightarrow> bool" where
  "contextDeadlineExceeded e \<longleftrightarrow> e = Some DeadlineExceeded"

subsection \<open>The loop\<close>

definition next_address :: "KVClient \<Rightarrow> KVClient" where
  "next_address c = c\<lparr>assumedLeader := (assumedLeader c + 1) mod length (addrs c)\<rparr>"

definition send_path :: "string \<Rightarrow> string \<Rightarrow> string" where
  "send_path addr route = ''http://'' @ addr @ ''/'' @ route @ ''/''"

type_synonym ('q, 'r) network = "nat \<Rightarrow> string \<Rightarrow> 'q \<Rightarrow> 'r attempt"

text \<open>The result is the response as it was last filled in, and the error.\<close>

fun send :: "nat \<Rightarrow> ('q, 'r) network \<Rightarrow> ('r \<Rightarrow> ResponseStatus) \<Rightarrow> string \<Rightarrow> 'q \<Rightarrow> 'r \<Rightarrow> nat \<Rightarrow> KVClient
    \<Rightarrow> (KVClient, 'r \<times> string option) outcome option" where
  "send 0 net Status route req resp k c = None"
| "send (Suc fuel) net Status route req resp k c =
     (if length (addrs c) \<le> assumedLeader c then Some (Panics c ''index out of range'')
      else
        (let a = net k (send_path (addrs c ! assumedLeader c) route) req
         in case sendJSONRequest (exchanged a) of
              Inl err \<Rightarrow>
                if contextDone (parentErr a) then Some (Returns c (resp, Some err))
                else if contextDeadlineExceeded (retryErr a)
                then send fuel net Status route req resp (Suc k) (next_address c)
                else Some (Returns c (resp, Some err))
            | Inr resp \<Rightarrow>
                (case Status resp of
                   StatusNotLeader \<Rightarrow> send fuel net Status route req resp (Suc k) (next_address c)
                 | StatusOK \<Rightarrow> Some (Returns c (resp, None))
                 | StatusFailedCommit \<Rightarrow> Some (Returns c (resp, Some ''commit failed; please retry''))
                 | StatusDuplicateRequest \<Rightarrow>
                     Some (Returns c (resp, Some ''this request was already completed''))
                 | _ \<Rightarrow> Some (Panics c ''unreachable''))))"

text \<open>A method: count the request, send it, and pick the results out of the response.\<close>

definition call :: "nat \<Rightarrow> ('q, 'r) network \<Rightarrow> ('r \<Rightarrow> ResponseStatus) \<Rightarrow> string \<Rightarrow> (KVClient \<Rightarrow> 'q) \<Rightarrow> 'r
    \<Rightarrow> ('r \<Rightarrow> 'a) \<Rightarrow> KVClient \<Rightarrow> (KVClient, 'a \<times> string option) outcome option" where
  "call fuel net Status route mkRequest zero results c =
     (let c1 = next_request c
      in map_option (\<lambda>out. and_then out (\<lambda>c' (resp, err). Returns c' (results resp, err)))
           (send fuel net Status route (mkRequest c1) zero 0 c1))"

subsection \<open>The methods\<close>

definition client_Put :: "nat \<Rightarrow> (PutRequest, PutResponse) network \<Rightarrow> string \<Rightarrow> string \<Rightarrow> KVClient
    \<Rightarrow> (KVClient, (string \<times> bool \<times> int64) \<times> string option) outcome option" where
  "client_Put fuel net key v =
     call fuel net PutResponse_Status ''put'' (put_request key v 0) (put_status StatusInvalid)
       (\<lambda>r. (PutResponse.PrevValue r, PutResponse.KeyFound r, PutResponse.Revision r))"

definition client_PutWithLease :: "nat \<Rightarrow> (PutRequest, PutResponse) network \<Rightarrow> string \<Rightarrow> string \<Rightarrow> int64 \<Rightarrow> KVClient
    \<Rightarrow> (KVClient, (string \<times> bool \<times> int64) \<times> string option) outcome option" where
  "client_PutWithLease fuel net key v leaseID =
     call fuel net PutResponse_Status ''put'' (put_request key v leaseID) (put_status StatusInvalid)
       (\<lambda>r. (PutResponse.PrevValue r, PutResponse.KeyFound r, PutResponse.Revision r))"

definition client_Append :: "nat \<Rightarrow> (AppendRequest, AppendResponse) network \<Rightarrow> string \<Rightarrow> string \<Rightarrow> KVClient
    \<Rightarrow> (KVClient, (string \<times> bool \<times> int64) \<times> string option) outcome option" where
  "client_Append fuel net key v =
     call fuel net AppendResponse_Status ''append'' (append_request key v) (append_status StatusInvalid)
       (\<lambda>r. (AppendResponse.PrevValue r, AppendResponse.KeyFound r, AppendResponse.Revision r))"

definition client_Get :: "nat \<Rightarrow> (GetRequest, GetResponse) network \<Rightarrow> string \<Rightarrow> KVClient
    \<Rightarrow> (KVClient, (string \<times> bool \<times> int64) \<times> string option) outcome option" where
  "client_Get fuel net key =
     call fuel net GetResponse_Status ''get'' (get_request key) (get_status StatusInvalid)
       (\<lambda>r. (GetResponse.Value r, GetResponse.KeyFound r, GetResponse.Revision r))"

definition client_ListPaged :: "nat \<Rightarrow> (ListRequest, ListResponse) network \<Rightarrow> string \<Rightarrow> int \<Rightarrow> string \<Rightarrow> KVClient
    \<Rightarrow> (KVClient, ((string, string) fmap \<times> string \<times> int64) \<times> string option) outcome option" where
  "client_ListPaged fuel net pre limit keyAfter =
     call fuel net ListResponse_Status ''list'' (list_request pre limit keyAfter) (list_status StatusInvalid)
       (\<lambda>r. (ListResponse.Pairs r, ListResponse.NextKey r, ListResponse.Revision r))"

definition client_List :: "nat \<Rightarrow> (ListRequest, ListResponse) network \<Rightarrow> string \<Rightarrow> KVClient
    \<Rightarrow> (KVClient, ((string, string) fmap \<times> int64) \<times> string option) outcome option" where
  "client_List fuel net pre =
     call fuel net ListResponse_Status ''list'' (list_request pre 0 '''') (list_status StatusInvalid)
       (\<lambda>r. (ListResponse.Pairs r, ListResponse.Revision r))"

definition client_LeaseGrant :: "nat \<Rightarrow> (LeaseGrantRequest, LeaseGrantResponse) network \<Rightarrow> int64 \<Rightarrow> KVClient
    \<Rightarrow> (KVClient, (int64 \<times> int64) \<times> string option) outcome option" where
  "client_LeaseGrant fuel net ttl =
     call fuel net LeaseGrantResponse_Status ''lease/grant'' (grant_request ttl) (grant_status StatusInvalid)
       (\<lambda>r. (LeaseGrantResponse.ID r, LeaseGrantResponse.TTL r))"

definition client_LeaseKeepAlive :: "nat \<Rightarrow> (LeaseKeepAliveRequest, LeaseKeepAliveResponse) network \<Rightarrow> int64
    \<Rightarrow> KVClient \<Rightarrow> (KVClient, unit \<times> string option) outcome option" where
  "client_LeaseKeepAlive fuel net i =
     call fuel net LeaseKeepAliveResponse_Status ''lease/keepalive'' (keepalive_request i)
       (keepalive_status StatusInvalid) (\<lambda>r. ())"

definition client_LeaseRevoke :: "nat \<Rightarrow> (LeaseRevokeRequest, LeaseRevokeResponse) network \<Rightarrow> int64
    \<Rightarrow> KVClient \<Rightarrow> (KVClient, unit \<times> string option) outcome option" where
  "client_LeaseRevoke fuel net i =
     call fuel net LeaseRevokeResponse_Status ''lease/revoke'' (revoke_request i)
       (revoke_status StatusInvalid) (\<lambda>r. ())"

definition client_Txn :: "nat \<Rightarrow> (TxnRequest, TxnResponse) network \<Rightarrow> TxnCondition list \<Rightarrow> TxnOp list \<Rightarrow> TxnOp list
    \<Rightarrow> KVClient \<Rightarrow> (KVClient, (bool \<times> TxnOpResult list \<times> int64) \<times> string option) outcome option" where
  "client_Txn fuel net conditions success failure =
     call fuel net TxnResponse_Status ''txn'' (txn_request conditions success failure) (txn_status StatusInvalid)
       (\<lambda>r. (TxnResponse.Succeeded r, TxnResponse.Results r, TxnResponse.Revision r))"

definition client_CAS :: "nat \<Rightarrow> (CASRequest, CASResponse) network \<Rightarrow> string \<Rightarrow> string \<Rightarrow> string \<Rightarrow> KVClient
    \<Rightarrow> (KVClient, (string \<times> bool \<times> int64) \<times> string option) outcome option" where
  "client_CAS fuel net key compare v =
     call fuel net CASResponse_Status ''cas'' (cas_request key compare v) (cas_status StatusInvalid)
       (\<lambda>r. (CASResponse.PrevValue r, CASResponse.KeyFound r, CASResponse.Revision r))"

subsection \<open>Members\<close>

text \<open>\<open>DiscoverMembers\<close> from its i-th seed on; \<open>fetch i path\<close> is what the request to it meets.\<close>

fun discover_loop :: "(nat \<Rightarrow> string \<Rightarrow> MembersResponse exchange) \<Rightarrow> nat \<Rightarrow> string list \<Rightarrow> string + PeerInfo list" where
  "discover_loop fetch i [] = Inl ''discovery failed: no reachable seed nodes''"
| "discover_loop fetch i (addr # rest) =
     (case fetch i (''http://'' @ addr @ ''/members/'') of
        BadURL err \<Rightarrow> discover_loop fetch (Suc i) rest
      | NoResponse err \<Rightarrow>
          if rest = [] then Inl (''discovery failed: '' @ err) else discover_loop fetch (Suc i) rest
      | BadBody err \<Rightarrow> discover_loop fetch (Suc i) rest
      | Reply r \<Rightarrow>
          if MembersResponse.RespStatus r = StatusOK then Inr (Members r)
          else discover_loop fetch (Suc i) rest)"

definition DiscoverMembers :: "(nat \<Rightarrow> string \<Rightarrow> MembersResponse exchange) \<Rightarrow> string list \<Rightarrow> string + PeerInfo list" where
  "DiscoverMembers fetch seedAddrs = discover_loop fetch 0 seedAddrs"

definition http_addrs :: "PeerInfo list \<Rightarrow> string list" where
  "http_addrs members = filter (\<lambda>a. a \<noteq> '''') (map PeerInfo.HTTPAddr members)"

definition NewWithDiscovery :: "(nat \<Rightarrow> string \<Rightarrow> MembersResponse exchange) \<Rightarrow> string list \<Rightarrow> int64 \<Rightarrow> KVClient \<times> int64" where
  "NewWithDiscovery fetch seedAddrs clientCount =
     (case DiscoverMembers fetch seedAddrs of
        Inl err \<Rightarrow> New_client seedAddrs clientCount
      | Inr members \<Rightarrow>
          (let as = http_addrs members
           in if as = [] then New_client seedAddrs clientCount else New_client as clientCount))"

definition RefreshMembers :: "(nat \<Rightarrow> string \<Rightarrow> MembersResponse exchange) \<Rightarrow> KVClient
    \<Rightarrow> (KVClient, nat \<times> string option) outcome" where
  "RefreshMembers fetch c =
     (if length (addrs c) \<le> assumedLeader c then Panics c ''index out of range''
      else
        case DiscoverMembers fetch [addrs c ! assumedLeader c] of
          Inl err \<Rightarrow> Returns c (0, Some err)
        | Inr members \<Rightarrow>
            (let newAddrs = http_addrs members
             in Returns
                  (if newAddrs \<noteq> []
                   then c\<lparr>addrs := newAddrs,
                          assumedLeader := (if length newAddrs \<le> assumedLeader c then 0 else assumedLeader c)\<rparr>
                   else c)
                  (length newAddrs, None)))"

text \<open>\<open>Watch\<close>: the request goes to the assumed leader, once; the stream's text is read by \<open>readSSE\<close>.\<close>

datatype watch_exchange = WatchBadURL string | WatchNoResponse string | WatchStatus int string

definition client_Watch :: "(string \<Rightarrow> watch_exchange) \<Rightarrow> string \<Rightarrow> int64 \<Rightarrow> KVClient
    \<Rightarrow> (KVClient, string + WatchEvent list) outcome" where
  "client_Watch connect pre since c =
     (if length (addrs c) \<le> assumedLeader c then Panics c ''index out of range''
      else
        Returns c
          (case connect (''http://'' @ (addrs c ! assumedLeader c) @ ''/watch/?prefix='' @ pre @ ''&since='' @ FormatInt since) of
             WatchBadURL err \<Rightarrow> Inl (''creating watch request: '' @ err)
           | WatchNoResponse err \<Rightarrow> Inl (''watch request failed: '' @ err)
           | WatchStatus code text \<Rightarrow>
               if code \<noteq> 200 then Inl (''watch request returned status '' @ FormatInt (word_of_int code))
               else Inr (readSSE text)))"

subsection \<open>The search for the leader\<close>

definition client_wf :: "KVClient \<Rightarrow> bool" where
  "client_wf c \<longleftrightarrow> assumedLeader c < length (addrs c)"

text \<open>An attempt after which the loop goes on to the next address, one that ends it with a
  response, and one that finds the call's context done.\<close>

definition skips :: "('r \<Rightarrow> ResponseStatus) \<Rightarrow> 'r attempt \<Rightarrow> bool" where
  "skips Status a \<longleftrightarrow>
     (case sendJSONRequest (exchanged a) of
        Inl err \<Rightarrow> parentErr a = None \<and> retryErr a = Some DeadlineExceeded
      | Inr r \<Rightarrow> Status r = StatusNotLeader)"

definition gives_up :: "'r attempt \<Rightarrow> bool" where
  "gives_up a \<longleftrightarrow> (\<exists>err. sendJSONRequest (exchanged a) = Inl err) \<and> parentErr a \<noteq> None"

lemma next_address_simps [simp]:
  "addrs (next_address c) = addrs c" "clientID (next_address c) = clientID c"
  "requestID (next_address c) = requestID c"
  "(next_address c)\<lparr>assumedLeader := i\<rparr> = c\<lparr>assumedLeader := i\<rparr>"
  by (simp_all add: next_address_def)

lemma next_request_simps [simp]:
  "addrs (next_request c) = addrs c" "clientID (next_request c) = clientID c"
  "assumedLeader (next_request c) = assumedLeader c" "requestID (next_request c) = requestID c + 1"
  "client_wf (next_request c) = client_wf c"
  by (simp_all add: next_request_def client_wf_def)

lemma client_wf_next_address [simp]: "client_wf c \<Longrightarrow> client_wf (next_address c)"
  by (simp add: client_wf_def next_address_def) (metis gr_zeroI mod_less_divisor not_less_zero)

lemma send_skips:
  assumes "client_wf c" and "skips Status (net k (send_path (addrs c ! assumedLeader c) route) req)"
  shows "\<exists>resp'. send (Suc f) net Status route req resp k c =
    send f net Status route req resp' (Suc k) (next_address c)"
  using assms by (auto simp: client_wf_def skips_def contextDone_def contextDeadlineExceeded_def Let_def
      split: sum.splits)

lemma send_served:
  assumes "client_wf c" and "exchanged (net k (send_path (addrs c ! assumedLeader c) route) req) = Reply r"
    and "Status r = StatusOK"
  shows "send (Suc f) net Status route req resp k c = Some (Returns c (r, None))"
  using assms by (simp add: client_wf_def Let_def)

lemma rotation_step:
  assumes "(a :: nat) < n" and "0 < d" and "d < n"
  shows "(a + d) mod n \<noteq> a" and "((a + 1) mod n + (d - 1)) mod n = (a + d) mod n"
proof -
  show "(a + d) mod n \<noteq> a"
    using assms by (cases "a + d < n") (auto simp: mod_if)
  show "((a + 1) mod n + (d - 1)) mod n = (a + d) mod n"
    using assms(2) by (cases d) (simp_all add: mod_simps)
qed

lemma send_rotates:
  assumes "client_wf c" and "L = (assumedLeader c + d) mod length (addrs c)" and "d < length (addrs c)"
    and "d < f" and "Status r = StatusOK"
    and leader: "\<And>k. exchanged (net k (send_path (addrs c ! L) route) req) = Reply r"
    and others: "\<And>k i. i < length (addrs c) \<Longrightarrow> i \<noteq> L \<Longrightarrow> skips Status (net k (send_path (addrs c ! i) route) req)"
  shows "send f net Status route req resp k c = Some (Returns (c\<lparr>assumedLeader := L\<rparr>) (r, None))"
  using assms
proof (induction d arbitrary: f resp k c)
  case 0
  then have "L = assumedLeader c"
    by (simp add: client_wf_def)
  moreover obtain f' where "f = Suc f'"
    using "0.prems"(4) by (cases f) auto
  ultimately show ?case
    using send_served [of c net k route req r Status f' resp] 0 by simp
next
  case (Suc d)
  let ?n = "length (addrs c)"
  obtain f' where f: "f = Suc f'"
    using Suc.prems(4) by (cases f) auto
  have a: "assumedLeader c < ?n"
    using Suc.prems(1) by (simp add: client_wf_def)
  have "assumedLeader c \<noteq> L"
    using rotation_step(1) [OF a, of "Suc d"] Suc.prems(2,3) by simp
  then obtain resp' where "send f net Status route req resp k c =
      send f' net Status route req resp' (Suc k) (next_address c)"
    using send_skips [where c = c and Status = Status and net = net and k = k and route = route and req = req]
      Suc.prems(1) Suc.prems(7) [OF a] f by blast
  moreover have "L = (assumedLeader (next_address c) + d) mod ?n"
    using rotation_step(2) [OF a, of "Suc d"] Suc.prems(2,3) by (simp add: next_address_def)
  ultimately show ?case
    using Suc.IH [of "next_address c" f' resp' "Suc k"] Suc.prems f by simp
qed

lemma rotation_reaches:
  assumes "(a :: nat) < n" and "L < n"
  obtains d where "d < n" and "L = (a + d) mod n"
proof (cases "a \<le> L")
  case True
  then show ?thesis
    using assms that [of "L - a"] by simp
next
  case False
  then show ?thesis
    using assms that [of "n - a + L"] by simp
qed

lemma send_finds_leader:
  assumes "client_wf c" and "L < length (addrs c)" and "length (addrs c) \<le> f" and "Status r = StatusOK"
    and "\<And>k. exchanged (net k (send_path (addrs c ! L) route) req) = Reply r"
    and "\<And>k i. i < length (addrs c) \<Longrightarrow> i \<noteq> L \<Longrightarrow> skips Status (net k (send_path (addrs c ! i) route) req)"
  shows "send f net Status route req resp k c = Some (Returns (c\<lparr>assumedLeader := L\<rparr>) (r, None))"
proof -
  obtain d where "d < length (addrs c)" "L = (assumedLeader c + d) mod length (addrs c)"
    using rotation_reaches [OF assms(1)[unfolded client_wf_def] assms(2)] .
  then show ?thesis
    using assms by (intro send_rotates [where d = d]) auto
qed

lemma send_ends:
  assumes "\<And>k p. K \<le> k \<Longrightarrow> gives_up (net k p req)" and "K \<le> k + f"
  shows "send (Suc f) net Status route req resp k c \<noteq> None"
  using assms(2)
proof (induction f arbitrary: resp k c)
  case 0
  then have "gives_up (net k (send_path (addrs c ! assumedLeader c) route) req)"
    by (intro assms(1)) simp
  then show ?case
    by (auto simp: gives_up_def contextDone_def Let_def)
next
  case (Suc f)
  then have "send (Suc f) net Status route req resp' (Suc k) c' \<noteq> None" for resp' c'
    by (intro Suc.IH) simp
  then show ?case
    by (auto simp: Let_def split: sum.splits ResponseStatus.splits simp del: send.simps(2)
        simp: send.simps(2) [of "Suc f"])
qed

text \<open>What a finished loop returns, and what it leaves of the client.\<close>

definition send_post :: "('q, 'r) network \<Rightarrow> ('r \<Rightarrow> ResponseStatus) \<Rightarrow> string \<Rightarrow> 'q \<Rightarrow> KVClient
    \<Rightarrow> (KVClient, 'r \<times> string option) outcome \<Rightarrow> bool" where
  "send_post net Status route req c out \<longleftrightarrow>
     (\<exists>i < length (addrs c).
        (\<exists>resp err. out = Returns (c\<lparr>assumedLeader := i\<rparr>) (resp, err) \<and>
           (err = None \<longrightarrow> Status resp = StatusOK \<and>
              (\<exists>k. exchanged (net k (send_path (addrs c ! i) route) req) = Reply resp)))
        \<or> out = Panics (c\<lparr>assumedLeader := i\<rparr>) ''unreachable'')"

lemma sendJSONRequest_Inr: "sendJSONRequest x = Inr r \<longleftrightarrow> x = Reply r"
  by (cases x) simp_all

lemma send_returns:
  "client_wf c \<Longrightarrow> send f net Status route req resp k c = Some out \<Longrightarrow> send_post net Status route req c out"
proof (induction f arbitrary: resp k c)
  case (Suc f)
  let ?a = "net k (send_path (addrs c ! assumedLeader c) route) req"
  have here: "assumedLeader c < length (addrs c)" "c\<lparr>assumedLeader := assumedLeader c\<rparr> = c"
    using Suc.prems(1) by (simp_all add: client_wf_def)
  have again: "send_post net Status route req c out"
    if "send f net Status route req resp' (Suc k) (next_address c) = Some out" for resp'
    using Suc.IH [OF client_wf_next_address [OF Suc.prems(1)] that] by (simp add: send_post_def)
  have stop: "send_post net Status route req c out"
    if "out = Returns c (resp', Some err)" for resp' err
    unfolding send_post_def using here that by (intro exI [of _ "assumedLeader c"]) simp
  have panic: "send_post net Status route req c out" if "out = Panics c ''unreachable''"
    unfolding send_post_def using here that by (intro exI [of _ "assumedLeader c"]) simp
  have ok: "send_post net Status route req c out"
    if "out = Returns c (r, None)" "exchanged ?a = Reply r" "Status r = StatusOK" for r
    unfolding send_post_def using here that by (intro exI [of _ "assumedLeader c"]) auto
  show ?case
    using Suc.prems(2) here again stop panic ok
    by (auto simp: Let_def sendJSONRequest_Inr split: sum.splits ResponseStatus.splits if_splits)
qed simp

subsection \<open>What every method promises\<close>

text \<open>The contract of a method: the request it builds carries the client's id and the number of
  the call. The laws of a call follow for every method at once.\<close>

locale client_method =
  fixes Status :: "'r \<Rightarrow> ResponseStatus" and route :: string and mkRequest :: "KVClient \<Rightarrow> 'q"
    and zero :: 'r and results :: "'r \<Rightarrow> 'a" and client_of :: "'q \<Rightarrow> int64" and number_of :: "'q \<Rightarrow> int64"
  assumes stamp_client: "client_of (mkRequest c) = clientID c"
    and stamp_number: "number_of (mkRequest c) = requestID c"
begin

lemma finds_leader:
  assumes "client_wf c" and "L < length (addrs c)" and "length (addrs c) \<le> f" and "Status r = StatusOK"
    and "\<And>k. exchanged (net k (send_path (addrs c ! L) route) (mkRequest (next_request c))) = Reply r"
    and "\<And>k i. i < length (addrs c) \<Longrightarrow> i \<noteq> L \<Longrightarrow>
      skips Status (net k (send_path (addrs c ! i) route) (mkRequest (next_request c)))"
  shows "call f net Status route mkRequest zero results c =
    Some (Returns ((next_request c)\<lparr>assumedLeader := L\<rparr>) (results r, None))"
  using send_finds_leader [where c = "next_request c" and L = L and f = f and Status = Status and r = r
      and net = net and route = route and req = "mkRequest (next_request c)" and resp = zero and k = 0] assms
  by (simp add: call_def)

lemma ends_with_context:
  assumes "\<And>k p q. K \<le> k \<Longrightarrow> gives_up (net k p q)"
  shows "\<exists>out. call (Suc K) net Status route mkRequest zero results c = Some out"
  using send_ends [where K = K and net = net and req = "mkRequest (next_request c)" and k = 0 and f = K
      and Status = Status and route = route and resp = zero and c = "next_request c"] assms
  by (auto simp: call_def)

lemma success_is_an_answer:
  assumes "client_wf c" and "call f net Status route mkRequest zero results c = Some (Returns c' (x, None))"
  shows "\<exists>i k r q. exchanged (net k (send_path (addrs c ! i) route) q) = Reply r \<and> Status r = StatusOK \<and>
    x = results r \<and> client_of q = clientID c \<and> number_of q = requestID c + 1 \<and>
    c' = c\<lparr>assumedLeader := i, requestID := requestID c + 1\<rparr> \<and> client_wf c'"
proof -
  let ?q = "mkRequest (next_request c)"
  obtain out where "send f net Status route ?q zero 0 (next_request c) = Some out"
    and out: "and_then out (\<lambda>c' (resp, err). Returns c' (results resp, err)) = Returns c' (x, None)"
    using assms(2) by (auto simp: call_def Let_def)
  then have "send_post net Status route ?q (next_request c) out"
    using send_returns [of "next_request c"] assms(1) by simp
  then obtain i r k where "i < length (addrs c)" "out = Returns ((next_request c)\<lparr>assumedLeader := i\<rparr>) (r, None)"
    "Status r = StatusOK" "exchanged (net k (send_path (addrs c ! i) route) ?q) = Reply r"
    using out by (auto simp: send_post_def)
  then show ?thesis
    using out stamp_client [of "next_request c"] stamp_number [of "next_request c"]
    by (intro exI [of _ i] exI [of _ k] exI [of _ r] exI [of _ ?q]) (auto simp: next_request_def client_wf_def)
qed

lemma never_out_of_range:
  assumes "client_wf c" and "call f net Status route mkRequest zero results c = Some out"
  shows "(\<exists>c' a. out = Returns c' a \<and> client_wf c') \<or> (\<exists>c'. out = Panics c' ''unreachable'' \<and> client_wf c')"
proof -
  obtain sent where s: "send f net Status route (mkRequest (next_request c)) zero 0 (next_request c) = Some sent"
    and out: "out = and_then sent (\<lambda>c' (resp, err). Returns c' (results resp, err))"
    using assms(2) by (auto simp: call_def Let_def)
  have "send_post net Status route (mkRequest (next_request c)) (next_request c) sent"
    using send_returns [OF _ s] assms(1) by simp
  then show ?thesis
    using out by (auto simp: send_post_def client_wf_def)
qed

end

interpretation m_put: client_method PutResponse.RespStatus "''put''" "put_request key v lease"
  "put_status StatusInvalid" "\<lambda>r. (PutResponse.PrevValue r, PutResponse.KeyFound r, PutResponse.Revision r)"
  PutRequest.ClientID PutRequest.RequestID
  for key v lease
  by unfold_locales (simp_all add: put_request_def)

interpretation m_append: client_method AppendResponse.RespStatus "''append''" "append_request key v"
  "append_status StatusInvalid" "\<lambda>r. (AppendResponse.PrevValue r, AppendResponse.KeyFound r, AppendResponse.Revision r)"
  AppendRequest.ClientID AppendRequest.RequestID
  for key v
  by unfold_locales (simp_all add: append_request_def)

interpretation m_get: client_method GetResponse.RespStatus "''get''" "get_request key"
  "get_status StatusInvalid" "\<lambda>r. (GetResponse.Value r, GetResponse.KeyFound r, GetResponse.Revision r)"
  GetRequest.ClientID GetRequest.RequestID
  for key
  by unfold_locales (simp_all add: get_request_def)

interpretation m_list: client_method ListResponse.RespStatus "''list''" "list_request pre limit keyAfter"
  "list_status StatusInvalid" "\<lambda>r. (ListResponse.Pairs r, ListResponse.NextKey r, ListResponse.Revision r)"
  ListRequest.ClientID ListRequest.RequestID
  for pre limit keyAfter
  by unfold_locales (simp_all add: list_request_def)

interpretation m_cas: client_method CASResponse.RespStatus "''cas''" "cas_request key compare v"
  "cas_status StatusInvalid" "\<lambda>r. (CASResponse.PrevValue r, CASResponse.KeyFound r, CASResponse.Revision r)"
  CASRequest.ClientID CASRequest.RequestID
  for key compare v
  by unfold_locales (simp_all add: cas_request_def)

interpretation m_txn: client_method TxnResponse.RespStatus "''txn''" "txn_request conditions success failure"
  "txn_status StatusInvalid" "\<lambda>r. (TxnResponse.Succeeded r, TxnResponse.Results r, TxnResponse.Revision r)"
  TxnRequest.ClientID TxnRequest.RequestID
  for conditions success failure
  by unfold_locales (simp_all add: txn_request_def)

interpretation m_grant: client_method LeaseGrantResponse.RespStatus "''lease/grant''" "grant_request ttl"
  "grant_status StatusInvalid" "\<lambda>r. (LeaseGrantResponse.ID r, LeaseGrantResponse.TTL r)"
  LeaseGrantRequest.ClientID LeaseGrantRequest.RequestID
  for ttl
  by unfold_locales (simp_all add: grant_request_def)

interpretation m_keepalive: client_method LeaseKeepAliveResponse.RespStatus "''lease/keepalive''"
  "keepalive_request i" "keepalive_status StatusInvalid" "\<lambda>r. ()"
  LeaseKeepAliveRequest.ClientID LeaseKeepAliveRequest.RequestID
  for i
  by unfold_locales (simp_all add: keepalive_request_def)

interpretation m_revoke: client_method LeaseRevokeResponse.RespStatus "''lease/revoke''"
  "revoke_request i" "revoke_status StatusInvalid" "\<lambda>r. ()"
  LeaseRevokeRequest.ClientID LeaseRevokeRequest.RequestID
  for i
  by unfold_locales (simp_all add: revoke_request_def)

lemma RefreshMembers_wf:
  assumes "client_wf c"
  shows "\<exists>c' a. RefreshMembers fetch c = Returns c' a \<and> client_wf c'"
  using assms by (auto simp: RefreshMembers_def client_wf_def Let_def split: sum.splits)

lemma New_client_wf: "serviceAddrs \<noteq> [] \<Longrightarrow> client_wf (fst (New_client serviceAddrs n))"
  by (simp add: New_client_def client_wf_def Let_def)

lemma NewWithDiscovery_wf: "seeds \<noteq> [] \<Longrightarrow> client_wf (fst (NewWithDiscovery fetch seeds n))"
  by (simp add: NewWithDiscovery_def New_client_wf Let_def split: sum.splits)

subsection \<open>Calls and the log\<close>





lemma append_command_ids [simp]:
  "Command.ClientID (append_command s (append_request k v c)) = clientID c"
  "Command.RequestID (append_command s (append_request k v c)) = requestID c"
  "Kind (append_command s q) = CommandAppend"
  by (simp_all add: append_command_def append_request_def zeroCommand_def)





subsection \<open>Properties\<close>


definition sample_client :: KVClient where
  "sample_client = fst (New_client [''a:1'', ''b:1'', ''c:1''] 0)"

lemma sample_client_simps [simp]:
  "addrs sample_client = [''a:1'', ''b:1'', ''c:1'']" "assumedLeader sample_client = 0"
  "clientID sample_client = 1" "requestID sample_client = 0" "client_wf sample_client"
  by (simp_all add: sample_client_def New_client_def client_wf_def Let_def)



text \<open>
  A call finds the leader. If one of the client's addresses serves the request and every other
  one either says that it is not the leader or lets the attempt time out, the call returns the
  leader's answer without an error after at most one attempt per address, whichever address was
  assumed to be the leader before, and the next call starts at the leader.
\<close>
lemma client_call_finds_leader:
  assumes "client_wf c" and "L < length (addrs c)" and "PutResponse.RespStatus r = StatusOK"
    and "\<And>k. exchanged (net k (send_path (addrs c ! L) ''put'') (put_request key v 0 (next_request c))) = Reply r"
    and "\<And>k i. i < length (addrs c) \<Longrightarrow> i \<noteq> L \<Longrightarrow>
      skips PutResponse.RespStatus (net k (send_path (addrs c ! i) ''put'') (put_request key v 0 (next_request c)))"
  shows "client_Put (length (addrs c)) net key v c =
    Some (Returns (c\<lparr>assumedLeader := L, requestID := requestID c + 1\<rparr>)
      ((PutResponse.PrevValue r, PutResponse.KeyFound r, PutResponse.Revision r), None))"
  using m_put.finds_leader [where c = c and L = L and f = "length (addrs c)" and r = r and net = net] assms
  by (simp add: client_Put_def next_request_def)

definition sample_net :: "(PutRequest, PutResponse) network" where
  "sample_net k path q =
     (if path = ''http://c:1/put/'' then \<lparr>exchanged = Reply (put_status StatusOK), parentErr = None, retryErr = None\<rparr>
      else if path = ''http://b:1/put/'' then \<lparr>exchanged = Reply (put_status StatusNotLeader), parentErr = None, retryErr = None\<rparr>
      else \<lparr>exchanged = NoResponse ''timeout'', parentErr = None, retryErr = Some DeadlineExceeded\<rparr>)"

lemma client_call_finds_leader_witness:
  "client_Put (length (addrs sample_client)) sample_net ''k'' ''v'' sample_client =
     Some (Returns (sample_client\<lparr>assumedLeader := 2, requestID := requestID sample_client + 1\<rparr>)
       ((PutResponse.PrevValue (put_status StatusOK), PutResponse.KeyFound (put_status StatusOK),
         PutResponse.Revision (put_status StatusOK)), None))"
proof (rule client_call_finds_leader)
  fix k i
  assume "i < length (addrs sample_client)" "i \<noteq> 2"
  then have "i = 0 \<or> i = 1"
    by auto
  then show "skips PutResponse.RespStatus (sample_net k (send_path (addrs sample_client ! i) ''put'')
      (put_request ''k'' ''v'' 0 (next_request sample_client)))"
    by (auto simp: skips_def sample_net_def send_path_def put_status_def)
qed (simp_all add: sample_net_def send_path_def put_status_def)

text \<open>
  C30: a call ends with its context. The loop has no bound on its attempts, and between two attempts
  that are told about a different leader it does not pause; but once the context of the call is
  done, from attempt K on, the call is over after attempt K.
\<close>
theorem client_call_ends_with_context:
  assumes "\<And>k p q. K \<le> k \<Longrightarrow> gives_up (net k p q)"
  shows "\<exists>out. client_Put (Suc K) net key v c = Some out"
  unfolding client_Put_def PutResponse_Status_def using assms by (rule m_put.ends_with_context)

definition deadline_net :: "(PutRequest, PutResponse) network" where
  "deadline_net k path q =
     (if k < 5 then \<lparr>exchanged = Reply (put_status StatusNotLeader), parentErr = None, retryErr = None\<rparr>
      else \<lparr>exchanged = NoResponse ''timeout'', parentErr = Some DeadlineExceeded, retryErr = Some DeadlineExceeded\<rparr>)"

theorem client_call_ends_with_context_witness:
  "\<exists>out. client_Put (Suc 5) deadline_net ''k'' ''v'' sample_client = Some out"
  by (rule client_call_ends_with_context) (simp add: deadline_net_def gives_up_def)

text \<open>
  C31: a call without an error was answered. When \<open>Get\<close> returns no error, one of the client's
  nodes answered OK to a request with this client's id and the number of this call, and the value,
  the flag and the revision returned are the ones of that answer; the client keeps a valid index.
\<close>
theorem client_success_is_an_answer:
  assumes "client_wf c" and "client_Get f net key c = Some (Returns c' (x, None))"
  shows "\<exists>i k r q. exchanged (net k (send_path (addrs c ! i) ''get'') q) = Reply r \<and>
    GetResponse.RespStatus r = StatusOK \<and> x = (GetResponse.Value r, GetResponse.KeyFound r, GetResponse.Revision r) \<and>
    GetRequest.ClientID q = clientID c \<and> GetRequest.RequestID q = requestID c + 1 \<and>
    c' = c\<lparr>assumedLeader := i, requestID := requestID c + 1\<rparr> \<and> client_wf c'"
  using assms(1) assms(2) [unfolded client_Get_def GetResponse_Status_def] by (rule m_get.success_is_an_answer)

definition get_net :: "(GetRequest, GetResponse) network" where
  "get_net k path q =
     \<lparr>exchanged = Reply \<lparr>GetResponse.RespStatus = StatusOK, KeyFound = True, Value = ''v'', Revision = 3\<rparr>,
      parentErr = None, retryErr = None\<rparr>"

theorem client_success_is_an_answer_witness:
  "\<exists>i k r q. exchanged (get_net k (send_path (addrs sample_client ! i) ''get'') q) = Reply r \<and>
    GetResponse.RespStatus r = StatusOK \<and>
    (''v'', True, 3) = (GetResponse.Value r, GetResponse.KeyFound r, GetResponse.Revision r) \<and>
    GetRequest.ClientID q = clientID sample_client \<and> GetRequest.RequestID q = requestID sample_client + 1 \<and>
    next_request sample_client = sample_client\<lparr>assumedLeader := i, requestID := requestID sample_client + 1\<rparr> \<and>
    client_wf (next_request sample_client)"
  by (rule client_success_is_an_answer [where f = 1 and key = "''k''"])
    (simp_all add: client_Get_def call_def get_net_def)

lemma put_command_stores:
  "Get k (outcome_state (execute ro now (put_command s (put_request k v 0 c)) ds)) = (v, True)"
  by (simp add: put_command_def put_request_def zeroCommand_def execute_def op_defs with_result_def
      Get_def lookup_ok_def Let_def split: prod.split)

text \<open>
  Two processes share an identity. Client ids come from a counter of the process, so the first
  client of every process has the id 1 and numbers its calls from 1. The first put of a second
  process is therefore taken for a repetition of the first put of the first process: it is answered
  as a duplicate, and the store keeps the value of the first.
\<close>
lemma second_process_is_ignored:
  assumes "kv_wf s" and "fmlookup (lastRequestIDPerClient s) 1 = None"
    and "c1 = next_request (fst (New_client as1 0))" and "c2 = next_request (fst (New_client as2 0))"
    and "e1 = ((ro1, t1), put_command s (put_request k v1 0 c1), i1, m1)"
    and "e2 = ((ro2, t2), put_command s (put_request k v2 0 c2), i2, m2)"
    and "lease_room (commands [e1, e2]) (dstore s)"
  shows "\<exists>s' r1 r2. apply_entries [e1, e2] s = Returns s' [r1, r2] \<and> Get k (dstore s') = (v1, True) \<and>
    put_response r2 = Some (put_status StatusDuplicateRequest)"
proof -
  let ?d1 = "put_command s (put_request k v1 0 c1)" and ?d2 = "put_command s (put_request k v2 0 c2)"
  let ?m1 = "fst (machine_step ro1 t1 ?d1 (machine_of s))"
  have sub: "submitted (put_command s q)" for q
    by (simp add: submitted_def put_command_def zeroCommand_def)
  have ids: "Command.ClientID ?d1 = 1" "Command.RequestID ?d1 = 1" "Command.ClientID ?d2 = 1" "Command.RequestID ?d2 = 1"
    by (simp_all add: assms(3,4) put_command_def put_request_def New_client_def Let_def zeroCommand_def)
  have fresh: "\<not> m_duplicate ?d1 (m_last (machine_of s))"
    using assms(2) by (simp add: m_duplicate_def ids)
  have "m_last ?m1 = m_record ?d1 (m_last (machine_of s))"
    using machine_step_fresh(2) [OF fresh sub] .
  then have dup: "m_duplicate ?d2 (m_last ?m1)"
    by (simp add: m_duplicate_def m_record_def ids)
  have "IsDuplicate (snd (machine_step ro2 t2 ?d2 ?m1))"
    using machine_step_IsDuplicate(1) [OF sub, of ro2 t2 "put_request k v2 0 c2" ?m1] dup
    by (cases "machine_step ro2 t2 ?d2 ?m1") simp
  moreover have "Get k (m_ds ?m1) = (v1, True)"
    using machine_step_fresh(1) [OF fresh sub, of ro1 t1] put_command_stores [of k ro1 t1 s v1 c1 "dstore s"]
    by (simp add: stored_def raw_step_def)
  moreover obtain s' where "apply_entries [e1, e2] s = Returns s' (snd (run_log zstep (log_of [e1, e2]) (machine_of s)))"
    "machine_of s' = fst (run_log zstep (log_of [e1, e2]) (machine_of s))"
    using apply_entries_total [OF assms(1) _ assms(7)] sub assms(5,6) by auto
  ultimately show ?thesis
    using machine_step_dup [OF dup, of ro2 t2]
    by (simp add: assms(5,6) run_log_Cons put_response_def del: run_log.simps(2) apply_entries.simps)
      (metis machine_of_simps(1))
qed

lemma second_process_is_ignored_witness:
  "\<exists>s' r1 r2. apply_entries
     [((ascending, 1), put_command (New 0 []) (put_request ''k'' ''one'' 0 (next_request (fst (New_client [''a:1''] 0)))), 0, 1),
      ((ascending, 9), put_command (New 0 []) (put_request ''k'' ''two'' 0 (next_request (fst (New_client [''b:1''] 0)))), 1, 1)]
     (New 0 []) = Returns s' [r1, r2] \<and> Get ''k'' (dstore s') = (''one'', True) \<and>
    put_response r2 = Some (put_status StatusDuplicateRequest)"
  by (rule second_process_is_ignored [OF kv_wf_New _ refl refl refl refl])
    (simp_all add: lease_room_def put_command_def zeroCommand_def)

end
