(* ===== verification/Config.thy ===== *)
theory Config
  imports Client
begin

text \<open>
  The node's configuration file, \<open>config/config.go\<close>: the checks of \<open>LoadConfig\<close> and the four
  functions the server reads the configuration with. What reading the file gives, an error or the
  text, is an argument of \<open>LoadConfig\<close>, and so is the message for a text that does not decode.
\<close>

record PeerConfig =
  ID :: int
  HTTPAddr :: string
  RaftAddr :: string

record Config =
  NodeID :: int
  HTTPPort :: int
  DataDir :: string
  InitialCluster :: "PeerConfig list"

definition peer_config_fields :: "PeerConfig field list" where
  "peer_config_fields =
     [int_field ''id'' PeerConfig.ID PeerConfig.ID_update,
      str_field ''http_addr'' False PeerConfig.HTTPAddr PeerConfig.HTTPAddr_update,
      str_field ''raft_addr'' False PeerConfig.RaftAddr PeerConfig.RaftAddr_update]"

definition zero_peer_config :: PeerConfig where
  "zero_peer_config = \<lparr>PeerConfig.ID = 0, HTTPAddr = '''', RaftAddr = ''''\<rparr>"

definition config_fields :: "Config field list" where
  "config_fields =
     [int_field ''node_id'' NodeID NodeID_update,
      int_field ''http_port'' HTTPPort HTTPPort_update,
      str_field ''data_dir'' False DataDir DataDir_update,
      list_field ''initial_cluster'' peer_config_fields zero_peer_config InitialCluster InitialCluster_update]"

definition zero_config :: Config where
  "zero_config = \<lparr>NodeID = 0, HTTPPort = 0, DataDir = '''', InitialCluster = []\<rparr>"

definition LoadConfig :: "(string \<Rightarrow> string) \<Rightarrow> string + string \<Rightarrow> string + Config" where
  "LoadConfig decodeErr file =
     (case file of
        Inl err \<Rightarrow> Inl (''reading config: '' @ err)
      | Inr text \<Rightarrow>
          (case Unmarshal config_fields text zero_config of
             None \<Rightarrow> Inl (''parsing config: '' @ decodeErr text)
           | Some cfg \<Rightarrow>
               if NodeID cfg < 0 then Inl ''node_id must be >= 0''
               else if HTTPPort cfg \<le> 0 then Inl ''http_port must be > 0''
               else if DataDir cfg = '''' then Inl ''data_dir is required''
               else Inr cfg))"

definition Config_PeerIDs :: "Config \<Rightarrow> int list" where
  "Config_PeerIDs c =
     fold (\<lambda>p ids. if PeerConfig.ID p \<noteq> NodeID c then ids @ [PeerConfig.ID p] else ids) (InitialCluster c) []"

definition PeerMap :: "Config \<Rightarrow> (int, PeerConfig) fmap" where
  "PeerMap c = fold (\<lambda>p m. fmupd (PeerConfig.ID p) p m) (InitialCluster c) fmempty"

fun own_entry :: "int \<Rightarrow> PeerConfig list \<Rightarrow> PeerConfig option" where
  "own_entry n [] = None"
| "own_entry n (p # ps) = (if PeerConfig.ID p = n then Some p else own_entry n ps)"

definition Config_HTTPAddr :: "Config \<Rightarrow> string" where
  "Config_HTTPAddr c =
     (case own_entry (NodeID c) (InitialCluster c) of
        Some p \<Rightarrow> PeerConfig.HTTPAddr p
      | None \<Rightarrow> ''localhost:'' @ format_nat (nat (HTTPPort c)))"

definition IsInitialMember :: "Config \<Rightarrow> bool" where
  "IsInitialMember c \<longleftrightarrow> own_entry (NodeID c) (InitialCluster c) \<noteq> None"

definition plain_peer_config :: "PeerConfig \<Rightarrow> bool" where
  "plain_peer_config x \<longleftrightarrow>
     in_int64 (PeerConfig.ID x) \<and> utf8 (PeerConfig.HTTPAddr x) \<and> utf8 (PeerConfig.RaftAddr x)"

definition plain_config :: "Config \<Rightarrow> bool" where
  "plain_config x \<longleftrightarrow> in_int64 (NodeID x) \<and> in_int64 (HTTPPort x) \<and> utf8 (DataDir x) \<and>
     list_all plain_peer_config (InitialCluster x)"

interpretation w_peer_config: codec peer_config_fields "\<lambda>_. True" plain_peer_config
  by unfold_locales (simp_all add: peer_config_fields_def codec_simps plain_peer_config_def)

interpretation w_config: codec config_fields "\<lambda>y. InitialCluster y = []" plain_config
  by unfold_locales (simp_all add: config_fields_def plain_config_def outer_codec_simps
      w_peer_config.read_back_list w_peer_config.written_plain_list w_peer_config.fields_typed)

lemma LoadConfig_written:
  assumes "plain_config cfg" and "0 \<le> NodeID cfg" and "0 < HTTPPort cfg" and "DataDir cfg \<noteq> ''''"
  shows "LoadConfig decodeErr (Inr (Marshal config_fields cfg)) = Inr cfg"
  using w_config.Unmarshal_Marshal [OF assms(1), of zero_config] assms
  by (simp add: LoadConfig_def zero_config_def)

lemma own_entry_None: "own_entry n ps = None \<longleftrightarrow> n \<notin> set (map PeerConfig.ID ps)"
  by (induction ps) auto

lemma Config_PeerIDs_eq:
  "Config_PeerIDs c = filter (\<lambda>i. i \<noteq> NodeID c) (map PeerConfig.ID (InitialCluster c))"
proof -
  have "fold (\<lambda>p ids. if PeerConfig.ID p \<noteq> n then ids @ [PeerConfig.ID p] else ids) ps acc =
      acc @ filter (\<lambda>i. i \<noteq> n) (map PeerConfig.ID ps)" for n acc and ps :: "PeerConfig list"
    by (induction ps arbitrary: acc) auto
  then show ?thesis
    by (simp add: Config_PeerIDs_def)
qed

lemma fold_peers_lookup:
  assumes "distinct (map PeerConfig.ID ps)"
  shows "fmlookup (fold (\<lambda>p m. fmupd (PeerConfig.ID p) p m) ps m) n =
    (case own_entry n ps of Some p \<Rightarrow> Some p | None \<Rightarrow> fmlookup m n)"
  using assms
proof (induction ps arbitrary: m)
  case (Cons p ps)
  then show ?case
    using own_entry_None [of n ps] by (auto split: option.splits)
qed simp

text \<open>
  The functions of a loaded configuration agree with each other. A text that loads gives
  a node id that is not negative, a positive port and a data directory. If its members have
  different ids, then the peers to connect to are the keys of the peer map without the node itself,
  each once; the node is an initial member exactly if the map has an entry for it; and the address
  it announces is the one of its entry, or the local port if it has none.
\<close>
lemma config_functions_agree:
  assumes "LoadConfig decodeErr file = Inr cfg" and "distinct (map PeerConfig.ID (InitialCluster cfg))"
  shows "0 \<le> NodeID cfg \<and> 0 < HTTPPort cfg \<and> DataDir cfg \<noteq> '''' \<and>
    distinct (Config_PeerIDs cfg) \<and>
    (\<forall>i. i \<in> set (Config_PeerIDs cfg) \<longleftrightarrow> i \<noteq> NodeID cfg \<and> fmlookup (PeerMap cfg) i \<noteq> None) \<and>
    (IsInitialMember cfg \<longleftrightarrow> fmlookup (PeerMap cfg) (NodeID cfg) \<noteq> None) \<and>
    Config_HTTPAddr cfg = (case fmlookup (PeerMap cfg) (NodeID cfg) of
      Some p \<Rightarrow> PeerConfig.HTTPAddr p | None \<Rightarrow> ''localhost:'' @ format_nat (nat (HTTPPort cfg)))"
proof -
  have lookup: "fmlookup (PeerMap cfg) i = own_entry i (InitialCluster cfg)" for i
    using fold_peers_lookup [OF assms(2), of fmempty i] by (simp add: PeerMap_def split: option.splits)
  have "0 \<le> NodeID cfg \<and> 0 < HTTPPort cfg \<and> DataDir cfg \<noteq> ''''"
    using assms(1) by (auto simp: LoadConfig_def split: sum.splits if_splits option.splits)
  moreover have "i \<in> set (Config_PeerIDs cfg) \<longleftrightarrow> i \<noteq> NodeID cfg \<and> own_entry i (InitialCluster cfg) \<noteq> None" for i
    unfolding Config_PeerIDs_eq own_entry_None by auto
  ultimately show ?thesis
    using assms(2) by (simp add: lookup IsInitialMember_def Config_HTTPAddr_def Config_PeerIDs_eq)
qed

definition sample_config :: Config where
  "sample_config = \<lparr>NodeID = 1, HTTPPort = 8001, DataDir = ''d'',
     InitialCluster = [\<lparr>PeerConfig.ID = 0, HTTPAddr = ''a:1'', RaftAddr = ''a:2''\<rparr>,
                       \<lparr>PeerConfig.ID = 1, HTTPAddr = ''b:1'', RaftAddr = ''b:2''\<rparr>]\<rparr>"

lemma sample_config_loads: "LoadConfig decodeErr (Inr (Marshal config_fields sample_config)) = Inr sample_config"
  by (rule LoadConfig_written)
    (simp_all add: plain_config_def plain_peer_config_def sample_config_def utf8_simps in_int64_def)

lemma config_functions_agree_witness:
  "Config_PeerIDs sample_config = [0] \<and> IsInitialMember sample_config \<and>
    Config_HTTPAddr sample_config = ''b:1'' \<and> distinct (Config_PeerIDs sample_config)"
proof -
  have "distinct (Config_PeerIDs sample_config)"
    using config_functions_agree [OF sample_config_loads] by (simp add: sample_config_def)
  then show ?thesis
    by (simp add: Config_PeerIDs_def IsInitialMember_def Config_HTTPAddr_def sample_config_def)
qed

end
