(* ===== verification/Routes.thy ===== *)
theory Routes
  imports Client Membership
begin

text \<open>
  The life of a service's HTTP server: the routes \<open>ServeHTTP\<close> registers, the request multiplexer of
  \<open>net/http\<close> on them, and \<open>Shutdown\<close>, from \<open>kvservice/kvservice.go\<close>. All patterns end in a slash, so
  a pattern matches every path it is a prefix of; a path that only lacks the slash is redirected.
  The lemma at the end ties the client's paths to the handlers.
\<close>

datatype endpoint =
    handleGet | handlePut | handleAppend | handleCAS | handleList | handleTxn
  | handleLeaseGrant | handleLeaseKeepAlive | handleLeaseRevoke
  | handleJoin_at | handleLeave_at | handleStatus_at | handleMembers_at | handleWatch_at

definition routes :: "(string \<times> string \<times> endpoint) list" where
  "routes =
     [(''POST'', ''/get/'', handleGet), (''POST'', ''/put/'', handlePut), (''POST'', ''/append/'', handleAppend),
      (''POST'', ''/cas/'', handleCAS), (''POST'', ''/list/'', handleList), (''POST'', ''/txn/'', handleTxn),
      (''POST'', ''/lease/grant/'', handleLeaseGrant), (''POST'', ''/lease/keepalive/'', handleLeaseKeepAlive),
      (''POST'', ''/lease/revoke/'', handleLeaseRevoke), (''POST'', ''/join/'', handleJoin_at),
      (''POST'', ''/leave/'', handleLeave_at), (''GET'', ''/status/'', handleStatus_at),
      (''GET'', ''/members/'', handleMembers_at), (''GET'', ''/watch/'', handleWatch_at)]"

datatype mux_result = Routed endpoint | RedirectTo string | MethodNotAllowed | NotFound

text \<open>A pattern for GET also takes HEAD requests.\<close>

definition method_matches :: "string \<Rightarrow> string \<Rightarrow> bool" where
  "method_matches pat meth \<longleftrightarrow> pat = meth \<or> pat = ''GET'' \<and> meth = ''HEAD''"

definition mux :: "string \<Rightarrow> string \<Rightarrow> mux_result" where
  "mux meth path =
     (case find (\<lambda>(m, p, h). method_matches m meth \<and> HasPrefix path p) routes of
        Some (m, p, h) \<Rightarrow> Routed h
      | None \<Rightarrow>
          if list_ex (\<lambda>(m, p, h). method_matches m meth \<and> p = path @ ''/'') routes then RedirectTo (path @ ''/'')
          else if list_ex (\<lambda>(m, p, h). HasPrefix path p) routes then MethodNotAllowed
          else NotFound)"

subsection \<open>Starting and stopping\<close>

record lifecycle =
  srv :: "int option"
  leaseLoop :: bool
  raftUp :: bool
  commitOpen :: bool

definition ServeHTTP :: "int \<Rightarrow> lifecycle \<Rightarrow> (lifecycle, unit) outcome" where
  "ServeHTTP port st =
     (if srv st \<noteq> None then Panics st ''ServeHTTP called with existing server''
      else Returns (st\<lparr>srv := Some port\<rparr>) ())"

text \<open>Closing a closed channel panics; the server goroutine clears \<open>srv\<close> when the server is down.\<close>

definition Shutdown :: "lifecycle \<Rightarrow> (lifecycle, unit) outcome" where
  "Shutdown st =
     (let st = st\<lparr>leaseLoop := False, raftUp := False\<rparr>
      in if \<not> commitOpen st then Panics st ''close of closed channel''
         else Returns (st\<lparr>commitOpen := False, srv := None\<rparr>) ())"

lemma shutdown_once:
  assumes "commitOpen st"
  shows "\<exists>st'. Shutdown st = Returns st' () \<and> srv st' = None \<and> \<not> leaseLoop st' \<and> \<not> raftUp st' \<and>
    Shutdown st' = Panics st' ''close of closed channel''"
  using assms by (simp add: Shutdown_def Let_def)

subsection \<open>The client's paths\<close>

text \<open>The path of a URL: what follows the host.\<close>

definition url_path :: "string \<Rightarrow> string" where
  "url_path url = dropWhile (\<lambda>c. c \<noteq> CHR ''/'') (TrimPrefix url ''http://'')"

definition client_routes :: "(string \<times> endpoint) list" where
  "client_routes =
     [(''put'', handlePut), (''append'', handleAppend), (''get'', handleGet), (''list'', handleList),
      (''lease/grant'', handleLeaseGrant), (''lease/keepalive'', handleLeaseKeepAlive),
      (''lease/revoke'', handleLeaseRevoke), (''txn'', handleTxn), (''cas'', handleCAS)]"

lemma url_path_send_path:
  assumes "CHR ''/'' \<notin> set addr"
  shows "url_path (send_path addr route) = CHR ''/'' # route @ ''/''"
proof -
  have "TrimPrefix (send_path addr route) ''http://'' = addr @ CHR ''/'' # route @ ''/''"
    by (simp add: TrimPrefix_def HasPrefix_def send_path_def)
  moreover have "dropWhile (\<lambda>c. c \<noteq> CHR ''/'') (addr @ CHR ''/'' # s) = CHR ''/'' # s" for s
    using assms by (induction addr) auto
  ultimately show ?thesis
    by (simp add: url_path_def)
qed

lemma client_routes_mux:
  "list_all (\<lambda>(route, h). mux ''POST'' (CHR ''/'' # route @ ''/'') = Routed h) client_routes"
  by code_simp

text \<open>
  Every call of the client reaches its handler. For each method of the client, the path that
  \<open>send\<close> builds for it from any address is routed, for the POST that \<open>sendJSONRequest\<close> makes, to the
  handler of the same operation.
\<close>
lemma client_calls_reach_their_handlers:
  assumes "CHR ''/'' \<notin> set addr" and "(route, h) \<in> set client_routes"
  shows "mux ''POST'' (url_path (send_path addr route)) = Routed h"
  using client_routes_mux assms(2) unfolding url_path_send_path [OF assms(1)] by (auto simp: list_all_iff)

lemma client_calls_reach_their_handlers_witness:
  "mux ''POST'' (url_path (send_path ''localhost:8000'' ''lease/grant'')) = Routed handleLeaseGrant"
  by (rule client_calls_reach_their_handlers) (simp_all add: client_routes_def)

lemma server_paths_reach_their_handlers:
  "mux ''GET'' ''/members/'' = Routed handleMembers_at" "mux ''GET'' ''/status/'' = Routed handleStatus_at"
  "mux ''GET'' ''/watch/'' = Routed handleWatch_at" "mux ''POST'' ''/join/'' = Routed handleJoin_at"
  "mux ''GET'' ''/put/'' = MethodNotAllowed" "mux ''POST'' ''/put'' = RedirectTo ''/put/''"
  by code_simp+

end
