(* ===== verification/Startup.thy ===== *)
theory Startup
  imports Config Routes
begin

text \<open>
  The server's program, \<open>cmd/zodiacServer/main.go\<close>: which peers the node dials and for how long,
  how a node that is not an initial member finds the leader and asks it to be added, and \<open>main\<close>, from
  the arguments to the shutdown.

  The other nodes are arguments: what the k-th request of the start meets at an address, in the
  terms of the client's theory, and whether the context of the join is done by then. Requests are
  counted, so a node may answer differently each time it is asked. For \<open>main\<close> the operating system
  and the storage are arguments as well. What the node does between its start and the signal that
  ends it is the subject of the other theories; the Raft server and the \<open>ready\<close> channel it waits for
  are not modelled.
\<close>

subsection \<open>Dialling the peers\<close>

text \<open>One turn of the loop of \<open>connect\<close>: the time it took to fail, or success.\<close>

datatype dial = ResolveFailed time | ConnectFailed time | DialConnected

definition millisecond :: time where
  "millisecond = 1000000"

definition maxBackoff :: time where
  "maxBackoff = 2000 * millisecond"

fun connect_loop :: "nat \<Rightarrow> (nat \<Rightarrow> dial) \<Rightarrow> nat \<Rightarrow> time \<Rightarrow> time \<Rightarrow> time \<Rightarrow> bool option" where
  "connect_loop 0 dial k now deadline backoff = None"
| "connect_loop (Suc fuel) dial k now deadline backoff =
     (if now < deadline
      then (case dial k of
              ResolveFailed d \<Rightarrow>
                connect_loop fuel dial (Suc k) (now + d + backoff) deadline (min (backoff * 2) maxBackoff)
            | ConnectFailed d \<Rightarrow>
                connect_loop fuel dial (Suc k) (now + d + backoff) deadline (min (backoff * 2) maxBackoff)
            | DialConnected \<Rightarrow> Some True)
      else Some False)"

definition connect_peer :: "nat \<Rightarrow> (nat \<Rightarrow> dial) \<Rightarrow> time \<Rightarrow> bool option" where
  "connect_peer fuel dial now =
     connect_loop fuel dial 0 now (now + 30000 * millisecond) (100 * millisecond)"

text \<open>\<open>connect\<close> starts one goroutine per peer: the ids it has connected, and the goroutines started.\<close>

definition connect :: "int \<Rightarrow> int \<Rightarrow> string \<Rightarrow> int set \<times> (int \<times> string) list \<Rightarrow> int set \<times> (int \<times> string) list" where
  "connect self i addr st =
     (case st of (connected, started) \<Rightarrow>
        if i = self \<or> i \<in> connected then (connected, started)
        else (insert i connected, started @ [(i, addr)]))"

definition connect_known :: "int \<Rightarrow> (int, peerInfo) fmap \<Rightarrow> int \<Rightarrow> int set \<times> (int \<times> string) list
    \<Rightarrow> int set \<times> (int \<times> string) list" where
  "connect_known self knownPeers i st =
     (case fmlookup knownPeers i of
        Some pi \<Rightarrow> (if peerInfo.RaftAddr pi \<noteq> '''' then connect self i (peerInfo.RaftAddr pi) st else st)
      | None \<Rightarrow> st)"

definition dial_peers :: "int map_order \<Rightarrow> (int, peerInfo) fmap \<Rightarrow> Config \<Rightarrow> (int \<times> string) list" where
  "dial_peers ro knownPeers cfg =
     (let known = fold (connect_known (NodeID cfg) knownPeers) (range_of ro (fmdom knownPeers)) ({}, [])
      in snd (fold (\<lambda>p. connect (NodeID cfg) (PeerConfig.ID p) (PeerConfig.RaftAddr p)) (InitialCluster cfg) known))"

subsection \<open>Finding the leader and joining\<close>

record cluster_net =
  status_at :: "nat \<Rightarrow> string \<Rightarrow> StatusResponse exchange"
  members_at :: "nat \<Rightarrow> string \<Rightarrow> MembersResponse exchange"
  join_at :: "nat \<Rightarrow> string \<Rightarrow> JoinRequest \<Rightarrow> JoinResponse exchange"
  done_at :: "nat \<Rightarrow> ctx_err option"

text \<open>The server passes errors of the exchange on as they are.\<close>

fun plain_exchange :: "'r exchange \<Rightarrow> string + 'r" where
  "plain_exchange (BadURL err) = Inl err"
| "plain_exchange (NoResponse err) = Inl err"
| "plain_exchange (BadBody err) = Inl err"
| "plain_exchange (Reply r) = Inr r"

definition probe :: "cluster_net \<Rightarrow> nat \<Rightarrow> string \<Rightarrow> string + bool" where
  "probe net k addr =
     (case plain_exchange (status_at net k (''http://'' @ addr @ ''/status/'')) of
        Inl err \<Rightarrow> Inl err
      | Inr status \<Rightarrow> Inr (StatusResponse.IsLeader status \<and> StatusResponse.RespStatus status = StatusOK))"

definition fetchMembers :: "cluster_net \<Rightarrow> nat \<Rightarrow> string \<Rightarrow> string + PeerInfo list" where
  "fetchMembers net k addr =
     (case plain_exchange (members_at net k (''http://'' @ addr @ ''/members/'')) of
        Inl err \<Rightarrow> Inl err
      | Inr mr \<Rightarrow>
          if MembersResponse.RespStatus mr \<noteq> StatusOK
          then Inl (''members response status '' @ ResponseStatus_String (MembersResponse.RespStatus mr))
          else Inr (Members mr))"

text \<open>The loops of \<open>findLeader\<close>: the first address that says it leads, and the requests so far.\<close>

fun probe_first :: "cluster_net \<Rightarrow> nat \<Rightarrow> string list \<Rightarrow> string option \<times> nat" where
  "probe_first net k [] = (None, k)"
| "probe_first net k (addr # rest) =
     (if probe net k addr = Inr True then (Some addr, Suc k) else probe_first net (Suc k) rest)"

definition findLeader :: "cluster_net \<Rightarrow> nat \<Rightarrow> string \<Rightarrow> string list \<Rightarrow> (string + string) \<times> nat" where
  "findLeader net k seedAddr allSeeds =
     (if probe net k seedAddr = Inr True then (Inr seedAddr, Suc k)
      else
        case fetchMembers net (Suc k) seedAddr of
          Inl err \<Rightarrow>
            (case probe_first net (Suc (Suc k)) allSeeds of
               (Some addr, k') \<Rightarrow> (Inr addr, k')
             | (None, k') \<Rightarrow> (Inl ''leader not found'', k'))
        | Inr members \<Rightarrow>
            (case probe_first net (Suc (Suc k)) (http_addrs members) of
               (Some addr, k') \<Rightarrow> (Inr addr, k')
             | (None, k') \<Rightarrow> (Inl ''leader not found among members'', k')))"

definition sendJoin :: "cluster_net \<Rightarrow> nat \<Rightarrow> string \<Rightarrow> JoinRequest \<Rightarrow> string option" where
  "sendJoin net k leaderAddr jr =
     (case plain_exchange (join_at net k (''http://'' @ leaderAddr @ ''/join/'') jr) of
        Inl err \<Rightarrow> Some err
      | Inr joinResp \<Rightarrow>
          if JoinResponse.RespStatus joinResp \<noteq> StatusOK
          then Some (''join rejected: '' @ ResponseStatus_String (JoinResponse.RespStatus joinResp))
          else None)"

fun join_loop :: "cluster_net \<Rightarrow> nat \<Rightarrow> string list \<Rightarrow> string list \<Rightarrow> JoinRequest \<Rightarrow> ctx_err option \<times> nat" where
  "join_loop net k [] seeds jr = (done_at net k, k)"
| "join_loop net k (seed # rest) seeds jr =
     (case done_at net k of
        Some err \<Rightarrow> (Some err, k)
      | None \<Rightarrow>
          (case findLeader net k seed seeds of
             (Inl err, k1) \<Rightarrow> join_loop net k1 rest seeds jr
           | (Inr leader, k1) \<Rightarrow>
               (case sendJoin net k1 leader jr of
                  Some err \<Rightarrow> join_loop net (Suc k1) rest seeds jr
                | None \<Rightarrow> (None, Suc k1))))"

definition joinCluster :: "cluster_net \<Rightarrow> string \<Rightarrow> Config \<Rightarrow> ctx_err option \<times> nat" where
  "joinCluster net raftAddr cfg =
     (let seeds = map PeerConfig.HTTPAddr (InitialCluster cfg)
      in if seeds = [] then (None, 0)
         else join_loop net 0 seeds seeds
                \<lparr>JoinRequest.ID = NodeID cfg, RaftAddr = raftAddr, HTTPAddr = Config_HTTPAddr cfg\<rparr>)"

subsection \<open>The program\<close>

record 'st boot =
  osArgs :: "string list"
  readFile :: "string \<Rightarrow> string + string"
  configErr :: "string \<Rightarrow> string"
  openStorage :: "string \<Rightarrow> string + 'st"
  storageGet :: "'st \<Rightarrow> string \<Rightarrow> string option"
  storageSet :: "string \<Rightarrow> string \<Rightarrow> 'st \<Rightarrow> 'st"
  dialOrder :: "int map_order"
  saveOrder :: "int map_order"
  raftListenAddr :: string
  cluster :: cluster_net

text \<open>What a run leaves: the peers dialled, what \<open>joinCluster\<close> returned if it was called, the storage.\<close>

record 'st run =
  dials :: "(int \<times> string) list"
  joinErr :: "ctx_err option option"
  saved :: 'st

datatype 'st main_result = MainFatal string | MainExit int | MainRun "(KVService \<times> lifecycle, 'st run) outcome"

definition started :: lifecycle where
  "started = \<lparr>srv = None, leaseLoop = True, raftUp = True, commitOpen = True\<rparr>"

fun map_state :: "('s \<Rightarrow> 't) \<Rightarrow> ('s, 'a) outcome \<Rightarrow> ('t, 'a) outcome" where
  "map_state f (Returns s a) = Returns (f s) a"
| "map_state f (Panics s msg) = Panics (f s) msg"
| "map_state f (Blocks s) = Blocks (f s)"

definition run_node :: "'st boot \<Rightarrow> Config \<Rightarrow> 'st \<Rightarrow> (KVService \<times> lifecycle, 'st run) outcome" where
  "run_node b cfg st =
     and_then (map_state (\<lambda>s. (s, started)) (loadPeers (storageGet b) st (New (NodeID cfg) (Config_PeerIDs cfg))))
       (\<lambda>(s, life) _.
     and_then (map_state (\<lambda>s. (s, life)) (KnownPeers s)) (\<lambda>(s, life) knownPeers.
     and_then (map_state (Pair s) (ServeHTTP (HTTPPort cfg) life)) (\<lambda>(s, life) _.
     and_then (map_state (\<lambda>s. (s, life)) (SetLocalHTTPAddr (saveOrder b) (storageSet b) (Config_HTTPAddr cfg) st s))
       (\<lambda>(s, life) st'.
       let join = (if IsInitialMember cfg then None else Some (fst (joinCluster (cluster b) (raftListenAddr b) cfg)))
       in and_then (map_state (Pair s) (Shutdown life)) (\<lambda>(s, life) _.
            Returns (s, life)
              \<lparr>dials = dial_peers (dialOrder b) knownPeers cfg, joinErr = join, saved = st'\<rparr>)))))"

definition server_main :: "'st boot \<Rightarrow> 'st main_result" where
  "server_main b =
     (case osArgs b of
        _ # path # _ \<Rightarrow>
          (case LoadConfig (configErr b) (readFile b path) of
             Inl err \<Rightarrow> MainFatal (''Config error: '' @ err)
           | Inr cfg \<Rightarrow>
               (case openStorage b (DataDir cfg) of
                  Inl err \<Rightarrow> MainExit 1
                | Inr st \<Rightarrow> MainRun (run_node b cfg st)))
      | _ \<Rightarrow> MainFatal ''Usage: zodiac <config.json>'')"

subsection \<open>Dialling ends\<close>

lemma connect_loop_backed_off:
  assumes "\<And>k d. dial k = ResolveFailed d \<or> dial k = ConnectFailed d \<Longrightarrow> 0 \<le> d"
    and "deadline - now \<le> int n * maxBackoff"
  shows "connect_loop (Suc n) dial k now deadline maxBackoff \<noteq> None"
  using assms(2)
proof (induction n arbitrary: k now)
  case (Suc n)
  have m: "min (maxBackoff * 2) maxBackoff = maxBackoff"
    by (simp add: maxBackoff_def millisecond_def)
  have "connect_loop (Suc n) dial (Suc k) (now + d + maxBackoff) deadline maxBackoff \<noteq> None" if "0 \<le> d" for d
    using Suc.prems that by (intro Suc.IH) (simp add: algebra_simps)
  then show ?case
    using assms(1) [of k] by (auto simp: m simp del: connect_loop.simps(2)
        simp: connect_loop.simps(2) [of "Suc n"] split: dial.splits)
qed (simp add: maxBackoff_def)

lemma connect_loop_back_off:
  assumes "\<And>k d. dial k = ResolveFailed d \<or> dial k = ConnectFailed d \<Longrightarrow> 0 \<le> d"
    and "\<And>k now. deadline - now \<le> D \<Longrightarrow> connect_loop n dial k now deadline (min (b * 2) maxBackoff) \<noteq> None"
    and "deadline - now \<le> D + b"
  shows "connect_loop (Suc n) dial k now deadline b \<noteq> None"
proof -
  have "connect_loop n dial (Suc k) (now + d + b) deadline (min (b * 2) maxBackoff) \<noteq> None" if "0 \<le> d" for d
    using assms(3) that by (intro assms(2)) simp
  then show ?thesis
    using assms(1) [of k] by (auto split: dial.splits)
qed

text \<open>The back-off is doubled five times from 100 ms, then stays at 2 s.\<close>

lemma connect_loop_ends:
  assumes el: "\<And>k d. dial k = ResolveFailed d \<or> dial k = ConnectFailed d \<Longrightarrow> 0 \<le> d"
    and "deadline - now \<le> 31100 * millisecond"
  shows "connect_loop 20 dial k now deadline (100 * millisecond) \<noteq> None"
proof -
  have b2000: "connect_loop 15 dial k now deadline (2000 * millisecond) \<noteq> None"
    if "deadline - now \<le> 28000 * millisecond" for k now
    using connect_loop_backed_off [OF el, where n = 14 and k = k and now = now] that
    by (simp add: maxBackoff_def millisecond_def del: connect_loop.simps(2))
  have b1600: "connect_loop 16 dial k now deadline (1600 * millisecond) \<noteq> None"
    if "deadline - now \<le> 29600 * millisecond" for k now
    using connect_loop_back_off [OF el, where n = 15 and b = "1600 * millisecond" and D = "28000 * millisecond"]
      b2000 that by (simp add: maxBackoff_def millisecond_def del: connect_loop.simps(2))
  have b800: "connect_loop 17 dial k now deadline (800 * millisecond) \<noteq> None"
    if "deadline - now \<le> 30400 * millisecond" for k now
    using connect_loop_back_off [OF el, where n = 16 and b = "800 * millisecond" and D = "29600 * millisecond"]
      b1600 that by (simp add: maxBackoff_def millisecond_def del: connect_loop.simps(2))
  have b400: "connect_loop 18 dial k now deadline (400 * millisecond) \<noteq> None"
    if "deadline - now \<le> 30800 * millisecond" for k now
    using connect_loop_back_off [OF el, where n = 17 and b = "400 * millisecond" and D = "30400 * millisecond"]
      b800 that by (simp add: maxBackoff_def millisecond_def del: connect_loop.simps(2))
  have b200: "connect_loop 19 dial k now deadline (200 * millisecond) \<noteq> None"
    if "deadline - now \<le> 31000 * millisecond" for k now
    using connect_loop_back_off [OF el, where n = 18 and b = "200 * millisecond" and D = "30800 * millisecond"]
      b400 that by (simp add: maxBackoff_def millisecond_def del: connect_loop.simps(2))
  show ?thesis
    using connect_loop_back_off [OF el, where n = 19 and b = "100 * millisecond" and D = "31000 * millisecond"]
      b200 assms(2) by (simp add: maxBackoff_def millisecond_def del: connect_loop.simps(2))
qed

subsection \<open>Which peers are dialled\<close>

definition dialled :: "int \<Rightarrow> int set \<times> (int \<times> string) list \<Rightarrow> bool" where
  "dialled self st \<longleftrightarrow> fst st = set (map fst (snd st)) \<and> distinct (map fst (snd st)) \<and> self \<notin> fst st"

lemma connect_dialled:
  assumes "dialled self st"
  shows "dialled self (connect self i addr st)" and "fst (connect self i addr st) = fst st \<union> ({i} - {self})"
  using assms by (cases st; auto simp: connect_def dialled_def)+

lemma fold_known_dialled:
  assumes "dialled self st"
  shows "dialled self (fold (connect_known self known) xs st) \<and> fst (fold (connect_known self known) xs st) =
    fst st \<union> ({i \<in> set xs. \<exists>pi. fmlookup known i = Some pi \<and> peerInfo.RaftAddr pi \<noteq> ''''} - {self})"
  using assms
proof (induction xs arbitrary: st)
  case (Cons i xs)
  have s: "dialled self (connect_known self known i st)" "fst (connect_known self known i st) =
      fst st \<union> ({j. j = i \<and> (\<exists>pi. fmlookup known i = Some pi \<and> peerInfo.RaftAddr pi \<noteq> '''')} - {self})"
    using connect_dialled [OF Cons.prems, of i] Cons.prems by (auto simp: connect_known_def split: option.splits)
  then show ?case
    using Cons.IH [OF s(1)] by auto
qed simp

lemma fold_cluster_dialled:
  assumes "dialled self st"
  shows "dialled self (fold (\<lambda>p. connect self (PeerConfig.ID p) (PeerConfig.RaftAddr p)) ps st) \<and>
    fst (fold (\<lambda>p. connect self (PeerConfig.ID p) (PeerConfig.RaftAddr p)) ps st) =
      fst st \<union> (set (map PeerConfig.ID ps) - {self})"
  using assms
proof (induction ps arbitrary: st)
  case (Cons p ps)
  show ?case
    using Cons.IH [OF connect_dialled(1) [OF Cons.prems]] connect_dialled(2) [OF Cons.prems] by auto
qed simp

lemma probe_first_sound: "probe_first net k as = (Some a, k') \<Longrightarrow> \<exists>j. probe net j a = Inr True"
  by (induction net k as rule: probe_first.induct) (auto split: if_splits)

lemma findLeader_sound:
  "fst (findLeader net k seed allSeeds) = Inr a \<Longrightarrow> \<exists>j. probe net j a = Inr True"
  by (auto simp: findLeader_def dest: probe_first_sound split: if_splits sum.splits prod.splits option.splits)

lemma probe_first_finds:
  assumes "\<And>k a. probe net k a = Inr True \<longleftrightarrow> a = L" and "L \<in> set as"
  shows "fst (probe_first net k as) = Some L"
  using assms(2) by (induction as arbitrary: k) (auto simp: assms(1))

subsection \<open>Properties\<close>

text \<open>
  Dialling a peer ends. Whatever resolving and connecting do and however long they take, the
  goroutine that dials a peer returns after at most 19 attempts: the pauses between them grow to two
  seconds and use up the thirty seconds it has.
\<close>
lemma dialling_ends:
  assumes "\<And>k d. dial k = ResolveFailed d \<or> dial k = ConnectFailed d \<Longrightarrow> 0 \<le> d"
  shows "\<exists>connected. connect_peer 20 dial now = Some connected"
  using connect_loop_ends [OF assms, where deadline = "now + 30000 * millisecond" and now = now and k = 0]
  by (simp add: connect_peer_def millisecond_def del: connect_loop.simps(2))

lemma dialling_ends_witness: "\<exists>connected. connect_peer 20 (\<lambda>k. ConnectFailed 5) 0 = Some connected"
  by (rule dialling_ends) simp

text \<open>
  Every peer is dialled once. The peers a starting node dials are those it knows an address of
  from its storage and those of the initial cluster, without itself, and no peer twice, whatever
  the order in which the map of known peers is visited.
\<close>
lemma every_peer_is_dialled_once:
  "distinct (map fst (dial_peers ro known cfg)) \<and>
   set (map fst (dial_peers ro known cfg)) =
     ({i. \<exists>pi. fmlookup known i = Some pi \<and> peerInfo.RaftAddr pi \<noteq> ''''} \<union>
      set (map PeerConfig.ID (InitialCluster cfg))) - {NodeID cfg}"
proof -
  let ?self = "NodeID cfg"
  have start: "dialled ?self ({}, [])"
    by (simp add: dialled_def)
  let ?st = "fold (connect_known ?self known) (range_of ro (fmdom known)) ({}, [])"
  let ?all = "fold (\<lambda>p. connect ?self (PeerConfig.ID p) (PeerConfig.RaftAddr p)) (InitialCluster cfg) ?st"
  have "{i \<in> set (range_of ro (fmdom known)). \<exists>pi. fmlookup known i = Some pi \<and> peerInfo.RaftAddr pi \<noteq> ''''} =
      {i. \<exists>pi. fmlookup known i = Some pi \<and> peerInfo.RaftAddr pi \<noteq> ''''}"
    by (auto intro: fmdomI)
  then have st: "dialled ?self ?st" "fst ?st =
      {i. \<exists>pi. fmlookup known i = Some pi \<and> peerInfo.RaftAddr pi \<noteq> ''''} - {?self}"
    using fold_known_dialled [OF start, of known "range_of ro (fmdom known)"] by simp_all
  have all: "dialled ?self ?all" "fst ?all = fst ?st \<union> (set (map PeerConfig.ID (InitialCluster cfg)) - {?self})"
    using fold_cluster_dialled [OF st(1), of "InitialCluster cfg"] by simp_all
  have "dial_peers ro known cfg = snd ?all"
    by (simp add: dial_peers_def)
  then show ?thesis
    using all(1) unfolding dialled_def all(2) [unfolded st(2)] Un_Diff by simp
qed

text \<open>
  \<open>findLeader\<close> finds the leader. If one node leads throughout, and it is the seed, or the seed
  lists it among the members, or the seed gives no member list and it is another seed, then that
  node is returned.
\<close>
lemma findLeader_finds_the_leader:
  assumes "\<And>k a. probe net k a = Inr True \<longleftrightarrow> a = L"
    and "L = seed \<or> (case fetchMembers net (Suc k) seed of
      Inl err \<Rightarrow> L \<in> set allSeeds | Inr members \<Rightarrow> L \<in> set (http_addrs members))"
  shows "fst (findLeader net k seed allSeeds) = Inr L"
proof (cases "L = seed")
  case True
  then show ?thesis
    using assms(1) by (simp add: findLeader_def)
next
  case False
  define as where "as = (case fetchMembers net (Suc k) seed of Inl err \<Rightarrow> allSeeds | Inr members \<Rightarrow> http_addrs members)"
  have "L \<in> set as"
    using False assms(2) by (auto simp: as_def split: sum.splits)
  then obtain k' where "probe_first net (Suc (Suc k)) as = (Some L, k')"
    using probe_first_finds [OF assms(1)] by (metis prod.collapse)
  then show ?thesis
    using False assms(1) [of k seed] by (simp add: findLeader_def as_def split: sum.splits)
qed

definition sample_cluster :: cluster_net where
  "sample_cluster =
     \<lparr>status_at = \<lambda>k p. if p = ''http://b:1/status/''
        then Reply \<lparr>StatusResponse.RespStatus = StatusOK, ID = 1, IsLeader = True, PeerCount = 2\<rparr>
        else NoResponse ''timeout'',
      members_at = \<lambda>k p. NoResponse ''timeout'',
      join_at = \<lambda>k p jr. Reply \<lparr>JoinResponse.RespStatus = StatusNotLeader\<rparr>, done_at = \<lambda>k. None\<rparr>"

lemma findLeader_finds_the_leader_witness:
  "fst (findLeader sample_cluster 0 ''a:1'' [''a:1'', ''b:1'']) = Inr ''b:1''"
proof (rule findLeader_finds_the_leader)
  show "probe sample_cluster k a = Inr True \<longleftrightarrow> a = ''b:1''" for k a
    using append_same_eq [of a "''/status/''" "''b:1''"] by (simp add: probe_def sample_cluster_def)
qed (simp add: fetchMembers_def sample_cluster_def)

text \<open>
  A join that failed is reported as a success. If no node accepts the join, because no leader is
  found, because it cannot be reached, or because it says no, and the thirty seconds are not over,
  \<open>joinCluster\<close> returns the error of a context that has none. The server takes that for a join that
  went through and logs nothing.
\<close>
lemma failed_join_is_reported_as_success:
  assumes "\<And>k a jr. sendJoin net k a jr \<noteq> None" and "\<And>k. done_at net k = None"
  shows "fst (joinCluster net raftAddr cfg) = None"
proof -
  have "fst (join_loop net k rest seeds jr) = None" for k rest seeds jr
    by (induction rest arbitrary: k) (auto simp: assms split: prod.splits sum.splits option.splits)
  then show ?thesis
    by (simp add: joinCluster_def Let_def)
qed

lemma failed_join_is_reported_as_success_witness:
  "fst (joinCluster sample_cluster ''c:2'' (sample_config\<lparr>NodeID := 2\<rparr>)) = None"
  by (rule failed_join_is_reported_as_success) (simp_all add: sendJoin_def sample_cluster_def)

subsection \<open>Restarting\<close>

lemma SetLocalHTTPAddr_free:
  assumes "\<not> locked s"
  shows "\<exists>s' st'. SetLocalHTTPAddr ro sset addr st s = Returns s' st' \<and> service_id s' = service_id s \<and>
    (\<exists>pi. fmlookup (peers s') (service_id s) = Some pi \<and> peerInfo.HTTPAddr pi = addr) \<and>
    fmdrop (service_id s) (peers s') = fmdrop (service_id s) (peers s)"
  using assms by (auto simp: SetLocalHTTPAddr_def savePeers_def lockKV_def unlockKV_def Let_def intro!: fmap_ext)

lemma run_node_ends:
  assumes "loadPeers (storageGet b) st (New (NodeID cfg) (Config_PeerIDs cfg)) = Returns t ()" and "\<not> locked t"
    and "service_id t = NodeID cfg"
  shows "\<exists>s life r. run_node b cfg st = Returns (s, life) r \<and> dials r = dial_peers (dialOrder b) (peers t) cfg \<and>
    fmdrop (NodeID cfg) (peers s) = fmdrop (NodeID cfg) (peers t) \<and>
    (\<exists>pi. fmlookup (peers s) (NodeID cfg) = Some pi \<and> peerInfo.HTTPAddr pi = Config_HTTPAddr cfg) \<and>
    (joinErr r = None \<longleftrightarrow> IsInitialMember cfg) \<and> srv life = None \<and> \<not> leaseLoop life \<and> \<not> raftUp life"
proof -
  obtain t' where t': "KnownPeers t = Returns t' (peers t)" "\<not> locked t'" "service_id t' = NodeID cfg" "peers t' = peers t"
    using assms(2,3) by (simp add: KnownPeers_def locking_free unlockKV_def)
  obtain s st' where "SetLocalHTTPAddr (saveOrder b) (storageSet b) (Config_HTTPAddr cfg) st t' = Returns s st'"
    "\<exists>pi. fmlookup (peers s) (NodeID cfg) = Some pi \<and> peerInfo.HTTPAddr pi = Config_HTTPAddr cfg"
    "fmdrop (NodeID cfg) (peers s) = fmdrop (NodeID cfg) (peers t)"
    using SetLocalHTTPAddr_free [OF t'(2)] t'(3,4) by metis
  then show ?thesis
    using assms(1) t'(1) by (simp add: run_node_def ServeHTTP_def Shutdown_def started_def Let_def)
qed

text \<open>
  C33: a restarted node finds its peers again. A node that has saved its address book is started anew
  with a configuration file that loads, on the same storage. The program runs through to its
  shutdown without a panic or a deadlock. It dials exactly the peers whose Raft address was in the
  book and the members of the configuration, without itself and none of them twice; it enters its
  own HTTP address into the book, which otherwise is the one that was saved; it asks to be added to
  the cluster exactly if it is no initial member; and in the end the HTTP server, the lease loop and
  the Raft server are stopped.
\<close>
theorem restarted_node_finds_its_peers:
  assumes storage: "\<And>st k v. storageGet b (storageSet b k v st) k = Some v"
    and "\<not> locked s" and "plain_book s" and "savePeers ro (storageSet b) st0 s = Returns s1 st"
    and "osArgs b = [prog, path]" and "readFile b path = Inr contents" and "LoadConfig (configErr b) (Inr contents) = Inr cfg"
    and "NodeID cfg = service_id s" and "openStorage b (DataDir cfg) = Inr st"
  shows "\<exists>t life r. server_main b = MainRun (Returns (t, life) r) \<and> distinct (map fst (dials r)) \<and>
    set (map fst (dials r)) = ({i. \<exists>pi. fmlookup (peers s) i = Some pi \<and> peerInfo.RaftAddr pi \<noteq> ''''} \<union>
      set (map PeerConfig.ID (InitialCluster cfg))) - {NodeID cfg} \<and>
    fmdrop (NodeID cfg) (peers t) = fmdrop (NodeID cfg) (peers s) \<and>
    (\<exists>pi. fmlookup (peers t) (NodeID cfg) = Some pi \<and> peerInfo.HTTPAddr pi = Config_HTTPAddr cfg) \<and>
    (joinErr r = None \<longleftrightarrow> IsInitialMember cfg) \<and> srv life = None \<and> \<not> leaseLoop life \<and> \<not> raftUp life"
proof -
  let ?n = "NodeID cfg"
  obtain u where u: "loadPeers (storageGet b) st (New ?n (Config_PeerIDs cfg)) = Returns u ()"
    "peers u = fmdrop ?n (peers s)" "service_id u = ?n" "\<not> locked u"
    using address_book_reloads [where sget = "storageGet b" and sset = "storageSet b" and s = s and ro = ro and st = st0
        and n = ?n and ps = "Config_PeerIDs cfg", OF storage assms(2) _ assms(3)] assms(4,8) by auto
  have "({i. \<exists>pi. fmlookup (peers u) i = Some pi \<and> peerInfo.RaftAddr pi \<noteq> ''''} \<union> A) - {?n} =
      ({i. \<exists>pi. fmlookup (peers s) i = Some pi \<and> peerInfo.RaftAddr pi \<noteq> ''''} \<union> A) - {?n}" for A
    by (auto simp: u(2))
  then show ?thesis
    using run_node_ends [OF u(1,4,3)] every_peer_is_dialled_once [of "dialOrder b" "peers u" cfg] assms(5-9) u(2)
    by (fastforce simp: server_main_def)
qed

definition stopped_node :: KVService where
  "stopped_node = (New 1 [0])\<lparr>peers := fmupd 2 \<lparr>peerInfo.RaftAddr = ''c:2'', HTTPAddr = ''c:1''\<rparr> fmempty\<rparr>"

definition sample_boot :: "(string \<Rightarrow> string option) boot" where
  "sample_boot =
     \<lparr>osArgs = [''zodiac'', ''config.json''], readFile = \<lambda>_. Inr (Marshal config_fields sample_config),
      configErr = \<lambda>_. ''bad JSON'',
      openStorage = \<lambda>_. Inr [peerStoreKey \<mapsto> Marshal_list persisted_peer_fields (stored_peers ascending (peers stopped_node))],
      storageGet = \<lambda>st k. st k, storageSet = \<lambda>k v st. st(k \<mapsto> v), dialOrder = ascending, saveOrder = ascending,
      raftListenAddr = ''b:2'', cluster = sample_cluster\<rparr>"

theorem restarted_node_finds_its_peers_witness:
  "\<exists>t life r. server_main sample_boot = MainRun (Returns (t, life) r) \<and> set (map fst (dials r)) = {0, 2} \<and>
    joinErr r = None \<and> \<not> raftUp life"
proof -
  have node: "\<not> locked stopped_node" "plain_book stopped_node" "service_id stopped_node = 1"
    "savePeers ascending (storageSet sample_boot) Map.empty stopped_node =
      Returns stopped_node [peerStoreKey \<mapsto> Marshal_list persisted_peer_fields (stored_peers ascending (peers stopped_node))]"
    by (simp_all add: stopped_node_def savePeers_def lockKV_def unlockKV_def New_def plain_book_def utf8_simps in_int64_def
        fmpred_iff sample_boot_def)
  have known: "{i. \<exists>pi. fmlookup (peers stopped_node) i = Some pi \<and> peerInfo.RaftAddr pi \<noteq> ''''} = {2}"
    by (auto simp: stopped_node_def)
  have "IsInitialMember sample_config"
    by (simp add: IsInitialMember_def sample_config_def)
  then show ?thesis
    using restarted_node_finds_its_peers [where b = sample_boot and prog = "''zodiac''" and path = "''config.json''"
        and cfg = sample_config and contents = "Marshal config_fields sample_config", OF _ node(1,2,4)]
      sample_config_loads node(3) unfolding known
    by (auto simp: sample_boot_def) (auto simp: sample_config_def)
qed

end
