(* ===== verification/Calls.thy ===== *)
theory Calls
  imports Routes
begin

text \<open>
  A call from end to end: the client's method prints its request, the multiplexer finds the handler,
  the handler reads the text, puts a command into the log and waits, the apply loop commits entries,
  the handler prints its response, and the client reads it. The parts are the functions of the other
  theories; this one puts them together at the level of texts: \<open>renderJSON\<close> of \<open>kvservice/json.go\<close>,
  the reading and writing of bodies in the handlers, and the exchange in \<open>sendJSONRequest\<close> of
  \<open>kvclient/kvclient.go\<close>.

  What the node meets while it serves a request is a record: the answers of its Raft server, and the
  commits that the apply loop gets to while the handler waits. The messages of the JSON library are
  arguments as well. The client reads a response into the struct it passed; the answers of earlier
  attempts that this struct may still hold are refusals, which leave lists and maps empty.
\<close>

subsection \<open>Bodies\<close>

definition renderJSON :: "'r field list \<Rightarrow> 'r \<Rightarrow> int \<times> string" where
  "renderJSON fs v = (200, Marshal fs v)"

text \<open>\<open>http.Error\<close> ends the message with a newline; a handler that just returns sends an empty body.\<close>

fun write_reply :: "'r field list \<Rightarrow> 'r http_reply \<Rightarrow> int \<times> string" where
  "write_reply fs (ReplyJSON v) = renderJSON fs v"
| "write_reply fs (ReplyError code msg) = (code, msg @ [newline])"
| "write_reply fs NoReply = (200, '''')"

text \<open>A POST with JSON content, as \<open>readRequestJSON\<close> sees it: its decoder is strict.\<close>

definition posted :: "(string \<Rightarrow> string) \<Rightarrow> 'q field list \<Rightarrow> 'q \<Rightarrow> string \<Rightarrow> 'q http_request" where
  "posted decodeErr fs zero text =
     \<lparr>media = Inr ''application/json'',
      body = (case Decode True fs text zero of None \<Rightarrow> Inl (decodeErr text) | Some q \<Rightarrow> Inr q)\<rparr>"

lemma read_posted [simp]: "readRequestJSON (posted decodeErr fs zero text) = body (posted decodeErr fs zero text)"
  by (simp add: readRequestJSON_def posted_def)

subsection \<open>A node\<close>

record node_env =
  submits :: "Command \<Rightarrow> int"
  commits :: "KVService \<Rightarrow> (KVService, Command list) outcome"
  leads :: bool
  resolves :: "string \<Rightarrow> bool"
  connects :: "int \<Rightarrow> string \<Rightarrow> string option"
  adds :: "int \<Rightarrow> string \<Rightarrow> bool"
  removes :: "int \<Rightarrow> bool"
  badJSON :: "string \<Rightarrow> string"

definition serve_logged :: "node_env \<Rightarrow> 'q field list \<Rightarrow> 'q \<Rightarrow> 'r field list
    \<Rightarrow> ('q http_request \<Rightarrow> (Command \<Rightarrow> int) \<Rightarrow> KVService \<Rightarrow> (KVService, ('q, 'r) handling) outcome)
    \<Rightarrow> ('q \<Rightarrow> select_case \<Rightarrow> nat \<Rightarrow> KVService \<Rightarrow> (KVService, 'r http_reply) outcome)
    \<Rightarrow> string \<Rightarrow> KVService \<Rightarrow> (KVService, int \<times> string) outcome" where
  "serve_logged env qfs zero rfs handle_begin handle_end text s =
     and_then (handle_begin (posted (badJSON env) qfs zero text) (submits env) s) (\<lambda>s h.
       case h of
         Finished reply \<Rightarrow> Returns s (write_reply rfs reply)
       | Pending q c \<Rightarrow>
           and_then (commits env s) (\<lambda>s _.
           and_then (handle_end q FromSub c s) (\<lambda>s reply. Returns s (write_reply rfs reply))))"

definition zero_put_request :: PutRequest where
  "zero_put_request = \<lparr>PutRequest.Key = '''', Value = '''', ClientID = 0, RequestID = 0, LeaseID = 0\<rparr>"

definition zero_append_request :: AppendRequest where
  "zero_append_request = \<lparr>AppendRequest.Key = '''', Value = '''', ClientID = 0, RequestID = 0\<rparr>"

definition zero_get_request :: GetRequest where
  "zero_get_request = \<lparr>GetRequest.Key = '''', ClientID = 0, RequestID = 0\<rparr>"

definition zero_cas_request :: CASRequest where
  "zero_cas_request = \<lparr>CASRequest.Key = '''', CompareValue = '''', Value = '''', ClientID = 0, RequestID = 0\<rparr>"

definition zero_list_request :: ListRequest where
  "zero_list_request = \<lparr>ListRequest.Prefix = '''', Limit = 0, KeyAfter = '''', ClientID = 0, RequestID = 0\<rparr>"

definition zero_txn_request :: TxnRequest where
  "zero_txn_request = \<lparr>TxnRequest.Conditions = [], Success = [], Failure = [], ClientID = 0, RequestID = 0\<rparr>"

definition zero_grant_request :: LeaseGrantRequest where
  "zero_grant_request = \<lparr>LeaseGrantRequest.TTL = 0, ClientID = 0, RequestID = 0\<rparr>"

definition zero_keepalive_request :: LeaseKeepAliveRequest where
  "zero_keepalive_request = \<lparr>LeaseKeepAliveRequest.ID = 0, ClientID = 0, RequestID = 0\<rparr>"

definition zero_revoke_request :: LeaseRevokeRequest where
  "zero_revoke_request = \<lparr>LeaseRevokeRequest.ID = 0, ClientID = 0, RequestID = 0\<rparr>"

definition zero_join_request :: JoinRequest where
  "zero_join_request = \<lparr>JoinRequest.ID = 0, RaftAddr = '''', HTTPAddr = ''''\<rparr>"

definition zero_leave_request :: LeaveRequest where
  "zero_leave_request = \<lparr>LeaveRequest.ID = 0\<rparr>"

text \<open>The POST routes of the node: each handler with the texts it reads and writes.\<close>

definition serve_post :: "node_env \<Rightarrow> string \<Rightarrow> string \<Rightarrow> KVService \<Rightarrow> (KVService, int \<times> string) outcome" where
  "serve_post env path text s =
     (case mux ''POST'' path of
        Routed handlePut \<Rightarrow>
          serve_logged env put_request_fields zero_put_request put_response_fields handlePut_begin handlePut_end text s
      | Routed handleAppend \<Rightarrow>
          serve_logged env append_request_fields zero_append_request append_response_fields
            handleAppend_begin handleAppend_end text s
      | Routed handleGet \<Rightarrow>
          serve_logged env get_request_fields zero_get_request get_response_fields handleGet_begin handleGet_end text s
      | Routed handleCAS \<Rightarrow>
          serve_logged env cas_request_fields zero_cas_request cas_response_fields handleCAS_begin handleCAS_end text s
      | Routed handleList \<Rightarrow>
          serve_logged env list_request_fields zero_list_request list_response_fields
            handleList_begin handleList_end text s
      | Routed handleTxn \<Rightarrow>
          serve_logged env txn_request_fields zero_txn_request txn_response_fields handleTxn_begin handleTxn_end text s
      | Routed handleLeaseGrant \<Rightarrow>
          serve_logged env grant_request_fields zero_grant_request grant_response_fields
            handleLeaseGrant_begin handleLeaseGrant_end text s
      | Routed handleLeaseKeepAlive \<Rightarrow>
          serve_logged env keepalive_request_fields zero_keepalive_request keepalive_response_fields
            handleLeaseKeepAlive_begin handleLeaseKeepAlive_end text s
      | Routed handleLeaseRevoke \<Rightarrow>
          serve_logged env revoke_request_fields zero_revoke_request revoke_response_fields
            handleLeaseRevoke_begin handleLeaseRevoke_end text s
      | Routed handleJoin_at \<Rightarrow>
          and_then (handleJoin (posted (badJSON env) join_request_fields zero_join_request text)
              (leads env) (resolves env) (connects env) (adds env) s)
            (\<lambda>s reply. Returns s (write_reply join_response_fields reply))
      | Routed handleLeave_at \<Rightarrow>
          and_then (handleLeave (posted (badJSON env) leave_request_fields zero_leave_request text)
              (leads env) (removes env) s)
            (\<lambda>s reply. Returns s (write_reply leave_response_fields reply))
      | NotFound \<Rightarrow> Returns s (404, ''404 page not found'' @ [newline])
      | RedirectTo p \<Rightarrow> Returns s (307, '''')
      | _ \<Rightarrow> Returns s (405, ''Method Not Allowed'' @ [newline]))"

subsection \<open>The client's side of an exchange\<close>

text \<open>A handler that panics closes the connection, one that blocks lets the attempt time out.\<close>

definition exchange_with :: "(string \<Rightarrow> string) \<Rightarrow> 'q field list \<Rightarrow> 'r field list \<Rightarrow> 'r
    \<Rightarrow> (string \<Rightarrow> string \<Rightarrow> (KVService, int \<times> string) outcome) \<Rightarrow> string \<Rightarrow> 'q \<Rightarrow> 'r exchange" where
  "exchange_with decodeErr qfs rfs resp node url q =
     (case node (url_path url) (Encode qfs q) of
        Returns s (code, text) \<Rightarrow>
          (case Decode False rfs text resp of
             None \<Rightarrow> BadBody (decodeErr text)
           | Some r \<Rightarrow> Reply r)
      | Panics s msg \<Rightarrow> NoResponse ''EOF''
      | Blocks s \<Rightarrow> NoResponse ''context deadline exceeded'')"

text \<open>A body whose first value has the shape that a struct reads.\<close>

definition body_has_type :: "jtype \<Rightarrow> string \<Rightarrow> bool" where
  "body_has_type t text = (case parse_json text of None \<Rightarrow> False | Some (j, _) \<Rightarrow> has_type True t j)"

subsection \<open>Applying entries and waiting\<close>

lemma apply_entries_same_machine:
  assumes "kv_wf s" and "kv_wf s1" and "machine_of s1 = machine_of s"
    and "list_all submitted (commands es)" and "lease_room (commands es) (dstore s)"
    and "apply_entries es s = Returns u qs" and "apply_entries es s1 = Returns u1 qs1"
  shows "machine_of u1 = machine_of u"
proof -
  have "lease_room (commands es) (dstore s1)"
    using arg_cong [OF assms(3), of m_ds] assms(5) by simp
  then obtain v1 where "apply_entries es s1 = Returns v1 (snd (run_log zstep (log_of es) (machine_of s1)))"
    "machine_of v1 = fst (run_log zstep (log_of es) (machine_of s1))"
    using apply_entries_total [OF assms(2,4)] by blast
  moreover obtain v where "apply_entries es s = Returns v (snd (run_log zstep (log_of es) (machine_of s)))"
    "machine_of v = fst (run_log zstep (log_of es) (machine_of s))"
    using apply_entries_total [OF assms(1,4,5)] by blast
  ultimately show ?thesis
    using assms(3,6,7) by simp
qed

lemma apply_entries_last:
  assumes "kv_wf s" and "list_all submitted (commands es)" and "submitted cmd"
    and "lease_room (commands es @ [cmd]) (dstore s)" and "apply_entries es s = Returns u qs"
    and "apply_entries (es @ [((ro, now), cmd, i, t)]) s = Returns v rs"
  shows "machine_of v = fst (machine_step ro now cmd (machine_of u))"
proof -
  have wf: "kv_wf u" and room: "lease_room [cmd] (dstore u)"
    using apply_entries_frame [OF assms(1,2,4,5)] by simp_all
  obtain m' cmd' ev where "machine_step ro now cmd (machine_of u) = (m', cmd')"
    "handleCommand ro now cmd i t u = Returns (committed ro i t m' cmd' ev u) cmd'"
    by (rule apply_one [OF wf assms(3) room])
  then show ?thesis
    using assms(5,6) by (auto simp: apply_entries_append)
qed

lemma end_request_machine:
  assumes "end_request failed respond sel c s = Returns s' reply"
  shows "machine_of s' = machine_of s"
  using assms by (auto simp: end_request_def receive_commit_def sendHTTPResponse_def machine_of_def
      split: select_case.splits received.splits option.splits prod.splits if_splits)

subsection \<open>The contract of a call\<close>

text \<open>A handler of the log whose requests and responses have a form on the wire.\<close>

locale wire_handler = log_handler mkCommand notLeader failed respond +
    rq: codec qfs qblank qplain + rs: codec rfs rblank rplain
  for mkCommand :: "KVService \<Rightarrow> 'q \<Rightarrow> Command" and notLeader failed :: 'r
    and respond :: "'q \<Rightarrow> Command \<Rightarrow> 'r option"
    and qfs :: "'q field list" and qblank qplain and rfs :: "'r field list" and rblank rplain +
  fixes qzero :: 'q
  assumes zero_blank: "qblank qzero"
begin

lemma posted_Encode: "qplain q \<Longrightarrow> readRequestJSON (posted err qfs qzero (Encode qfs q)) = Inr q"
  using rq.Decode_Encode [OF _ zero_blank, of q True] by (simp add: posted_def readRequestJSON_def)

lemma served_text:
  assumes wf: "kv_wf s" and q: "qplain q" and i: "submits env (mkCommand s q) = i" "0 \<le> i"
    and free: "fmlookup (commitSubs s) i = None" and es: "list_all submitted (commands es)"
    and room: "lease_room (commands es @ [mkCommand s q]) (dstore s)" and "i \<notin> indices es"
    and env: "commits env = apply_entries (es @ [((ro, now), mkCommand s q, i, t)])"
    and u: "apply_entries es s = Returns u us"
  shows "\<exists>r s'. respond q (snd (machine_step ro now (mkCommand s q) (machine_of u))) = Some r \<and>
    serve_logged env qfs qzero rfs (\<lambda>req. begin_request req mkCommand notLeader)
      (\<lambda>q. end_request failed (respond q)) (Encode qfs q) s = Returns s' (200, Marshal rfs r) \<and>
    machine_of s' = fst (machine_step ro now (mkCommand s q) (machine_of u))"
proof -
  let ?req = "posted (badJSON env) qfs qzero (Encode qfs q)" and ?cmd = "mkCommand s q"
  obtain s1 c u1 v qs rs cmd' r s2 where
    b: "begin_request ?req mkCommand notLeader (submits env) s = Returns s1 (Pending q c)"
    and u1: "apply_entries es s1 = Returns u1 qs"
    and v: "apply_entries (es @ [((ro, now), ?cmd, i, t)]) s1 = Returns v (qs @ cmd' # rs)"
    and r: "cmd' = snd (machine_step ro now ?cmd (machine_of u1))" "respond q cmd' = Some r"
      "end_request failed (respond q) FromSub c v = Returns s2 (ReplyJSON r)"
    using served [where req = ?req and submit = "submits env" and es = es and fs = "[]" and ro = ro and now = now
        and t = t, OF wf posted_Encode [OF q] i free _ _ assms(8)] es room by auto
  have cr: "createCommitSubscription i s = Returns s1 c"
    using b i posted_Encode [OF q, of "badJSON env"] by (auto simp: begin_request_def and_then_Returns)
  have s1: "kv_wf s1" "machine_of s1 = machine_of s" "dstore s1 = dstore s"
    using kv_wf_createCommitSubscription [OF wf cr] createCommitSubscription_Returns(3) [OF wf cr]
    by (simp_all add: machine_of_def)
  have "lease_room (commands es) (dstore s)"
    using room by (simp add: lease_room_def)
  then have m: "machine_of u1 = machine_of u"
    using apply_entries_same_machine [OF wf s1(1,2) es _ u u1] by simp
  have "machine_of s2 = fst (machine_step ro now ?cmd (machine_of u))"
    using apply_entries_last [OF s1(1) es sub _ u1 v] room end_request_machine [OF r(3)] m s1(3) by simp
  then show ?thesis
    using b v r m by (intro exI [of _ r] exI [of _ s2]) (simp add: serve_logged_def env renderJSON_def)
qed

lemma exchange_served:
  assumes "node (url_path url) (Encode qfs q) = Returns s' (code, Marshal rfs r)" and "rplain r" and "rblank resp"
  shows "exchange_with err qfs rfs resp node url q = Reply r"
  using assms rs.Decode_Marshal_only [of r resp False] by (simp add: exchange_with_def)

lemma body_read_iff:
  "(\<exists>q. Decode True qfs text qzero = Some q) \<longleftrightarrow> body_has_type (struct_type qfs) text"
  unfolding rq.Decode_accepts by (auto simp: body_has_type_def split: option.splits)

text \<open>A node that does not lead reads the body, and then refuses in one way or the other.\<close>

lemma not_leading:
  assumes "\<And>cmd. submits env cmd < 0"
  shows "\<exists>s'. serve_logged env qfs qzero rfs (\<lambda>req. begin_request req mkCommand notLeader)
      (\<lambda>q. end_request failed (respond q)) text s =
    Returns s' (if body_has_type (struct_type qfs) text then (200, Marshal rfs notLeader)
                else (400, badJSON env text @ [newline])) \<and> machine_of s' = machine_of s"
proof (cases "Decode True qfs text qzero")
  case None
  then show ?thesis
    using body_read_iff [of "text"]
    by (simp add: serve_logged_def begin_request_def posted_def readRequestJSON_def)
next
  case (Some q)
  then show ?thesis
    using body_read_iff [of "text"] assms
    by (simp add: serve_logged_def begin_request_def posted_def readRequestJSON_def sendHTTPResponse_def
        renderJSON_def machine_of_def)
qed

text \<open>A body that was cut off before its end is refused, and the handler does nothing.\<close>

lemma cut_body_refused:
  assumes "qplain q" and "Marshal qfs q = text @ rest" and "rest \<noteq> []"
  shows "serve_logged env qfs qzero rfs (\<lambda>req. begin_request req mkCommand notLeader)
    (\<lambda>q. end_request failed (respond q)) text s = Returns s (400, badJSON env text @ [newline])"
  using rq.Decode_cut [OF assms] by (simp add: serve_logged_def begin_request_def posted_def readRequestJSON_def)

end

interpretation x_put: wire_handler put_command "put_status StatusNotLeader" "put_status StatusFailedCommit" "\<lambda>_. put_response"
  put_request_fields "\<lambda>_. True" plain_put_request put_response_fields "\<lambda>_. True" plain_put_response zero_put_request
  by unfold_locales simp_all

interpretation x_append: wire_handler append_command "append_status StatusNotLeader" "append_status StatusFailedCommit" "\<lambda>_. append_response"
  append_request_fields "\<lambda>_. True" plain_append_request append_response_fields "\<lambda>_. True" plain_append_response zero_append_request
  by unfold_locales simp_all

interpretation x_get: wire_handler get_command "get_status StatusNotLeader" "get_status StatusFailedCommit" "\<lambda>_. get_response"
  get_request_fields "\<lambda>_. True" plain_get_request get_response_fields "\<lambda>_. True" plain_get_response zero_get_request
  by unfold_locales simp_all

interpretation x_cas: wire_handler cas_command "cas_status StatusNotLeader" "cas_status StatusFailedCommit" "\<lambda>_. cas_response"
  cas_request_fields "\<lambda>_. True" plain_cas_request cas_response_fields "\<lambda>_. True" plain_cas_response zero_cas_request
  by unfold_locales simp_all

interpretation x_list: wire_handler list_command "list_status StatusNotLeader" "list_status StatusFailedCommit" "\<lambda>_. list_response"
  list_request_fields "\<lambda>_. True" plain_list_request list_response_fields "\<lambda>y. ListResponse.Pairs y = fmempty" plain_list_response zero_list_request
  by unfold_locales simp_all

interpretation x_txn: wire_handler txn_command "txn_status StatusNotLeader" "txn_status StatusFailedCommit" "\<lambda>_. txn_response"
  txn_request_fields "\<lambda>y. TxnRequest.Conditions y = [] \<and> TxnRequest.Success y = [] \<and> TxnRequest.Failure y = []" plain_txn_request txn_response_fields "\<lambda>y. TxnResponse.Results y = []" plain_txn_response zero_txn_request
  by unfold_locales (simp_all add: zero_txn_request_def)

interpretation x_grant: wire_handler grant_command "grant_status StatusNotLeader" "grant_status StatusFailedCommit" grant_response
  grant_request_fields "\<lambda>_. True" "\<lambda>_. True" grant_response_fields "\<lambda>_. True" plain_grant_response zero_grant_request
  by unfold_locales simp_all

interpretation x_keepalive: wire_handler keepalive_command "keepalive_status StatusNotLeader" "keepalive_status StatusFailedCommit" keepalive_response
  keepalive_request_fields "\<lambda>_. True" "\<lambda>_. True" keepalive_response_fields "\<lambda>_. True" plain_keepalive_response zero_keepalive_request
  by unfold_locales simp_all

interpretation x_revoke: wire_handler revoke_command "revoke_status StatusNotLeader" "revoke_status StatusFailedCommit" "\<lambda>_. revoke_response"
  revoke_request_fields "\<lambda>_. True" "\<lambda>_. True" revoke_response_fields "\<lambda>_. True" plain_revoke_response zero_revoke_request
  by unfold_locales simp_all

subsection \<open>The routes\<close>

lemma mux_posts:
  "mux ''POST'' ''/put/'' = Routed handlePut" "mux ''POST'' ''/append/'' = Routed handleAppend"
  "mux ''POST'' ''/get/'' = Routed handleGet" "mux ''POST'' ''/cas/'' = Routed handleCAS"
  "mux ''POST'' ''/list/'' = Routed handleList" "mux ''POST'' ''/txn/'' = Routed handleTxn"
  "mux ''POST'' ''/lease/grant/'' = Routed handleLeaseGrant"
  "mux ''POST'' ''/lease/keepalive/'' = Routed handleLeaseKeepAlive"
  "mux ''POST'' ''/lease/revoke/'' = Routed handleLeaseRevoke"
  "mux ''POST'' ''/join/'' = Routed handleJoin_at" "mux ''POST'' ''/leave/'' = Routed handleLeave_at"
  by code_simp+

lemma handler_functions:
  "handlePut_begin = (\<lambda>req. begin_request req put_command (put_status StatusNotLeader))"
  "handlePut_end = (\<lambda>q. end_request (put_status StatusFailedCommit) put_response)"
  "handleAppend_begin = (\<lambda>req. begin_request req append_command (append_status StatusNotLeader))"
  "handleAppend_end = (\<lambda>q. end_request (append_status StatusFailedCommit) append_response)"
  "handleGet_begin = (\<lambda>req. begin_request req get_command (get_status StatusNotLeader))"
  "handleGet_end = (\<lambda>q. end_request (get_status StatusFailedCommit) get_response)"
  "handleCAS_begin = (\<lambda>req. begin_request req cas_command (cas_status StatusNotLeader))"
  "handleCAS_end = (\<lambda>q. end_request (cas_status StatusFailedCommit) cas_response)"
  "handleList_begin = (\<lambda>req. begin_request req list_command (list_status StatusNotLeader))"
  "handleList_end = (\<lambda>q. end_request (list_status StatusFailedCommit) list_response)"
  "handleTxn_begin = (\<lambda>req. begin_request req txn_command (txn_status StatusNotLeader))"
  "handleTxn_end = (\<lambda>q. end_request (txn_status StatusFailedCommit) txn_response)"
  "handleLeaseGrant_begin = (\<lambda>req. begin_request req grant_command (grant_status StatusNotLeader))"
  "handleLeaseGrant_end = (\<lambda>q. end_request (grant_status StatusFailedCommit) (grant_response q))"
  "handleLeaseKeepAlive_begin = (\<lambda>req. begin_request req keepalive_command (keepalive_status StatusNotLeader))"
  "handleLeaseKeepAlive_end = (\<lambda>q. end_request (keepalive_status StatusFailedCommit) (keepalive_response q))"
  "handleLeaseRevoke_begin = (\<lambda>req. begin_request req revoke_command (revoke_status StatusNotLeader))"
  "handleLeaseRevoke_end = (\<lambda>q. end_request (revoke_status StatusFailedCommit) revoke_response)"
  by (simp_all add: handler_defs fun_eq_iff)

lemmas serve_post_simps = serve_post_def mux_posts handler_functions

lemma join_not_leading:
  assumes "\<not> leads env"
  shows "\<exists>s'. serve_post env ''/join/'' text s =
    Returns s' (if body_has_type (struct_type join_request_fields) text
                then (200, Marshal join_response_fields \<lparr>JoinResponse.RespStatus = StatusNotLeader\<rparr>)
                else (400, badJSON env text @ [newline])) \<and> machine_of s' = machine_of s"
  using w_join_request.Decode_accepts [of True "text" zero_join_request] assms
  by (cases "Decode True join_request_fields text zero_join_request")
    (auto simp: serve_post_simps handleJoin_def posted_def readRequestJSON_def sendHTTPResponse_def renderJSON_def
      machine_of_def body_has_type_def Let_def split: option.splits)

lemma leave_not_leading:
  assumes "\<not> leads env"
  shows "\<exists>s'. serve_post env ''/leave/'' text s =
    Returns s' (if body_has_type (struct_type leave_request_fields) text
                then (200, Marshal leave_response_fields \<lparr>LeaveResponse.RespStatus = StatusNotLeader\<rparr>)
                else (400, badJSON env text @ [newline])) \<and> machine_of s' = machine_of s"
  using w_leave_request.Decode_accepts [of True "text" zero_leave_request] assms
  by (cases "Decode True leave_request_fields text zero_leave_request")
    (auto simp: serve_post_simps handleLeave_def posted_def readRequestJSON_def sendHTTPResponse_def renderJSON_def
      machine_of_def body_has_type_def Let_def split: option.splits)

text \<open>The POST routes, the shape of the bodies they read, and how a follower refuses.\<close>

definition post_types :: "(string \<times> jtype \<times> string) list" where
  "post_types =
     [(''/put/'', struct_type put_request_fields, Marshal put_response_fields (put_status StatusNotLeader)),
      (''/append/'', struct_type append_request_fields, Marshal append_response_fields (append_status StatusNotLeader)),
      (''/get/'', struct_type get_request_fields, Marshal get_response_fields (get_status StatusNotLeader)),
      (''/cas/'', struct_type cas_request_fields, Marshal cas_response_fields (cas_status StatusNotLeader)),
      (''/list/'', struct_type list_request_fields, Marshal list_response_fields (list_status StatusNotLeader)),
      (''/txn/'', struct_type txn_request_fields, Marshal txn_response_fields (txn_status StatusNotLeader)),
      (''/lease/grant/'', struct_type grant_request_fields, Marshal grant_response_fields (grant_status StatusNotLeader)),
      (''/lease/keepalive/'', struct_type keepalive_request_fields,
        Marshal keepalive_response_fields (keepalive_status StatusNotLeader)),
      (''/lease/revoke/'', struct_type revoke_request_fields,
        Marshal revoke_response_fields (revoke_status StatusNotLeader)),
      (''/join/'', struct_type join_request_fields,
        Marshal join_response_fields \<lparr>JoinResponse.RespStatus = StatusNotLeader\<rparr>),
      (''/leave/'', struct_type leave_request_fields,
        Marshal leave_response_fields \<lparr>LeaveResponse.RespStatus = StatusNotLeader\<rparr>)]"

text \<open>
  C15: bodies are checked against the type of the request. On every POST route of a node that does not
  lead, a body that is JSON of the shape of the request (known field names only, exact or up to the
  case of letters; numbers in the range of their field; lists of such objects; or \<open>null\<close>) is
  understood and answered with the refusal of a follower, and every other body is answered with
  status 400. Neither changes the store, the revision or the deduplication table.
\<close>
theorem bodies_are_type_checked:
  assumes "(path, t, refusal) \<in> set post_types" and "\<And>cmd. submits env cmd < 0" and "\<not> leads env"
  shows "\<exists>s'. serve_post env path text s =
    Returns s' (if body_has_type t text then (200, refusal) else (400, badJSON env text @ [newline])) \<and>
    machine_of s' = machine_of s"
  using assms(1) x_put.not_leading [OF assms(2)] x_append.not_leading [OF assms(2)] x_get.not_leading [OF assms(2)]
    x_cas.not_leading [OF assms(2)] x_list.not_leading [OF assms(2)] x_txn.not_leading [OF assms(2)]
    x_grant.not_leading [OF assms(2)] x_keepalive.not_leading [OF assms(2)] x_revoke.not_leading [OF assms(2)]
    join_not_leading [OF assms(3)] leave_not_leading [OF assms(3)]
  unfolding post_types_def set_simps insert_iff empty_iff prod.inject
  by (elim disjE conjE FalseE) (simp_all only: serve_post_simps endpoint.case mux_result.case)

definition follower_env :: node_env where
  "follower_env = \<lparr>submits = \<lambda>_. - 1, commits = \<lambda>s. Returns s [], leads = False, resolves = \<lambda>_. True,
     connects = \<lambda>_ _. None, adds = \<lambda>_ _. True, removes = \<lambda>_. True, badJSON = \<lambda>_. ''bad JSON''\<rparr>"

lemma sample_bodies:
  "body_has_type (struct_type put_request_fields) (CHR ''{'' # quote ''VALUE'' @ '':null}'')"
  "\<not> body_has_type (struct_type put_request_fields) (CHR ''{'' # quote ''Value'' @ '':7}'')"
  "\<not> body_has_type (struct_type put_request_fields) (CHR ''{'' # quote ''Val'' @ '':null}'')"
  by code_simp+

theorem bodies_are_type_checked_witness:
  "(\<exists>s'. serve_post follower_env ''/put/'' (CHR ''{'' # quote ''VALUE'' @ '':null}'') (New 0 []) =
      Returns s' (200, Marshal put_response_fields (put_status StatusNotLeader))) \<and>
   (\<exists>s'. serve_post follower_env ''/put/'' (CHR ''{'' # quote ''Value'' @ '':7}'') (New 0 []) =
      Returns s' (400, ''bad JSON'' @ [newline]))"
proof -
  have "(''/put/'', struct_type put_request_fields, Marshal put_response_fields (put_status StatusNotLeader))
      \<in> set post_types"
    by (simp add: post_types_def)
  note checked = bodies_are_type_checked [OF this, of follower_env _ "New 0 []"]
  have env: "submits follower_env cmd < 0" "\<not> leads follower_env" "badJSON follower_env t = ''bad JSON''" for cmd t
    by (simp_all add: follower_env_def)
  show ?thesis
    using checked [of "CHR ''{'' # quote ''VALUE'' @ '':null}''"] checked [of "CHR ''{'' # quote ''Value'' @ '':7}''"]
      sample_bodies env by auto
qed

subsection \<open>Calls from end to end\<close>

lemma put_step_stores:
  assumes "\<not> is_duplicate (put_command s (put_request key v 0 c)) u"
  shows "Get key (m_ds (fst (machine_step ro now (put_command s (put_request key v 0 c)) (machine_of u)))) = (v, True)"
    and "m_rev (fst (machine_step ro now (put_command s (put_request key v 0 c)) (machine_of u))) = currentRevision u + 1"
proof -
  let ?cmd = "put_command s (put_request key v 0 c)"
  note sub = handler_commands_submitted(1) [of s "put_request key v 0 c"]
  have fresh: "\<not> m_duplicate ?cmd (m_last (machine_of u))"
    using assms by (simp add: is_duplicate_machine)
  show "Get key (m_ds (fst (machine_step ro now ?cmd (machine_of u)))) = (v, True)"
    using machine_step_fresh(1) [OF fresh sub, of ro now] put_command_stores [of key ro now s v c "dstore u"]
    by (simp add: stored_def raw_step_def)
  obtain m' cmd' where ms: "machine_step ro now ?cmd (machine_of u) = (m', cmd')"
    by (cases "machine_step ro now ?cmd (machine_of u)")
  have "Kind ?cmd = CommandPut"
    by (simp add: put_command_def zeroCommand_def)
  then show "m_rev (fst (machine_step ro now ?cmd (machine_of u))) = currentRevision u + 1"
    using machine_step_Revision(2) [OF sub ms] fresh ms by (simp add: m_bump_def is_write_def)
qed

lemma serve_post_url:
  assumes "CHR ''/'' \<notin> set addr"
  shows "serve_post env (url_path (send_path addr ''put'')) = serve_post env ''/put/''"
    and "serve_post env (url_path (send_path addr ''get'')) = serve_post env ''/get/''"
    and "serve_post env (url_path (send_path addr ''txn'')) = serve_post env ''/txn/''"
  using url_path_send_path [OF assms] by simp_all

text \<open>
  C10: a put, from the client's call to the store and back. The client does not know the leader. The
  leader's node takes the command into its log at a free index, the entries \<open>es\<close> are committed before
  it, and every other node refuses or lets the attempt time out. Then the call prints the request,
  the node routes and reads it, the command is applied, the response is printed and read, and the
  call returns without an error: the value the key had after \<open>es\<close>, whether it had one, and the
  revision of the write. The node's store has the new value under that revision, and the client
  starts its next call at the leader. Keys and values are UTF-8, and the request is not one that the
  node has already seen.
\<close>
theorem put_call_end_to_end:
  assumes "kv_wf s" and "client_wf c" and "L < length (addrs c)" and "CHR ''/'' \<notin> set (addrs c ! L)"
    and "utf8 key" and "utf8 v" and q: "q = put_request key v 0 (next_request c)"
    and "submits env (put_command s q) = i" and "0 \<le> i" and "fmlookup (commitSubs s) i = None"
    and "list_all submitted (commands es)" and "lease_room (commands es @ [put_command s q]) (dstore s)"
    and "i \<notin> indices es" and "commits env = apply_entries (es @ [((ro, now), put_command s q, i, t)])"
    and "apply_entries es s = Returns u us" and "\<not> is_duplicate (put_command s q) u"
    and "Get key (dstore u) = (prev, found)" and "utf8 prev"
    and "\<And>k. exchanged (net k (send_path (addrs c ! L) ''put'') q) =
      exchange_with err put_request_fields put_response_fields (put_status StatusInvalid)
        (\<lambda>path text. serve_post env path text s) (send_path (addrs c ! L) ''put'') q"
    and "\<And>k j. j < length (addrs c) \<Longrightarrow> j \<noteq> L \<Longrightarrow> skips PutResponse.RespStatus (net k (send_path (addrs c ! j) ''put'') q)"
  shows "client_Put (length (addrs c)) net key v c =
      Some (Returns (c\<lparr>assumedLeader := L, requestID := requestID c + 1\<rparr>) ((prev, found, currentRevision u + 1), None)) \<and>
    (\<exists>s' answer. serve_post env ''/put/'' (Encode put_request_fields q) s = Returns s' answer \<and>
      Get key (dstore s') = (v, True) \<and> currentRevision s' = currentRevision u + 1)"
proof -
  let ?cmd = "put_command s q"
  have plain: "plain_put_request q"
    using assms(5,6) by (simp add: plain_put_request_def q put_request_def)
  obtain m' cmd' where ms: "machine_step ro now ?cmd (machine_of u) = (m', cmd')"
    by (cases "machine_step ro now ?cmd (machine_of u)")
  obtain r s' where r: "put_response cmd' = Some r" and "machine_of s' = m'"
    and served: "serve_post env ''/put/'' (Encode put_request_fields q) s = Returns s' (200, Marshal put_response_fields r)"
    using x_put.served_text [where env = env and es = es and ro = ro and now = now and t = t,
        OF assms(1) plain assms(8-15)] ms by (auto simp: serve_post_simps)
  have wfu: "kv_wf u"
    using apply_entries_frame [OF assms(1,11,12,15)] by simp
  have ans: "PutResponse.RespStatus r = StatusOK" "PutResponse.PrevValue r = prev" "PutResponse.KeyFound r = found"
    "PutResponse.Revision r = currentRevision u + 1"
    using put_answer [OF wfu ms r] assms(16,17) by (simp_all add: q put_request_def)
  have "exchanged (net k (send_path (addrs c ! L) ''put'') q) = Reply r" for k
    unfolding assms(19) using served ans assms(18) serve_post_url(1) [OF assms(4)]
    by (intro x_put.exchange_served) (simp_all add: plain_put_response_def)
  then have call: "client_Put (length (addrs c)) net key v c =
      Some (Returns (c\<lparr>assumedLeader := L, requestID := requestID c + 1\<rparr>) ((prev, found, currentRevision u + 1), None))"
    using client_call_finds_leader [where c = c and L = L and r = r and net = net and key = key and v = v]
      assms(2,3,20) ans by (simp add: q)
  have "Get key (m_ds m') = (v, True)" "m_rev m' = currentRevision u + 1"
    using put_step_stores [OF assms(16) [unfolded q], of ro now] ms [unfolded q] by simp_all
  then show ?thesis
    using call served \<open>machine_of s' = m'\<close> by auto
qed

text \<open>A client with one address, and the node there.\<close>

definition one_node_env :: "Command \<Rightarrow> node_env" where
  "one_node_env cmd =
     follower_env\<lparr>submits := \<lambda>_. 0, commits := apply_entries [((ascending, 5), cmd, 0, 1)], leads := True\<rparr>"

definition one_client :: KVClient where
  "one_client = \<lparr>addrs = [''a:1''], assumedLeader = 0, clientID = 9, requestID = 0\<rparr>"

definition one_put :: PutRequest where
  "one_put = put_request ''k'' ''v'' 0 (next_request one_client)"

definition put_net :: "(PutRequest, PutResponse) network" where
  "put_net k url q =
     \<lparr>exchanged = exchange_with (\<lambda>_. ''bad JSON'') put_request_fields put_response_fields (put_status StatusInvalid)
        (\<lambda>path text. serve_post (one_node_env (put_command (New 0 []) one_put)) path text (New 0 [])) url q,
      parentErr = None, retryErr = None\<rparr>"

theorem put_call_end_to_end_witness:
  "client_Put 1 put_net ''k'' ''v'' one_client =
     Some (Returns (one_client\<lparr>assumedLeader := 0, requestID := 1\<rparr>) (('''', False, 1), None))"
proof -
  have "lease_room (commands [] @ [put_command (New 0 []) one_put]) (dstore (New 0 []))"
    by (simp add: lease_room_def put_command_def zeroCommand_def)
  moreover have "\<not> is_duplicate (put_command (New 0 []) one_put) (New 0 [])"
    by (simp add: is_duplicate_machine m_duplicate_def)
  moreover have "Get ''k'' (dstore (New 0 [])) = ('''', False)"
    by (simp add: Get_def lookup_ok_def NewDataStore_def)
  ultimately show ?thesis
    using put_call_end_to_end [where s = "New 0 []" and c = one_client and L = 0 and found = False and i = 0 and es = "[]" and u = "New 0 []" and us = "[]"
        and env = "one_node_env (put_command (New 0 []) one_put)" and ro = ascending and now = 5 and t = 1
        and net = put_net and err = "\<lambda>_. ''bad JSON''", OF kv_wf_New _ _ _ _ _ one_put_def]
    by (simp add: client_wf_def one_client_def utf8_simps put_net_def one_node_env_def del: apply_entries.simps(2))
qed

text \<open>
  C14: a get, from the client's call to the store and back. With the same parts as for a put, the call
  returns the value of the key, whether it is stored, and the revision, as they are in the node's
  store after exactly the entries committed before the get's own, also when the request is a
  repeated one; the get leaves the store as it is.
\<close>
theorem get_call_end_to_end:
  assumes "kv_wf s" and "client_wf c" and "L < length (addrs c)" and "CHR ''/'' \<notin> set (addrs c ! L)"
    and "utf8 key" and q: "q = get_request key (next_request c)"
    and "submits env (get_command s q) = i" and "0 \<le> i" and "fmlookup (commitSubs s) i = None"
    and "list_all submitted (commands es)" and "lease_room (commands es @ [get_command s q]) (dstore s)"
    and "i \<notin> indices es" and "commits env = apply_entries (es @ [((ro, now), get_command s q, i, t)])"
    and "apply_entries es s = Returns u us" and "Get key (dstore u) = (v, found)" and "utf8 v"
    and "\<And>k. exchanged (net k (send_path (addrs c ! L) ''get'') q) =
      exchange_with err get_request_fields get_response_fields (get_status StatusInvalid)
        (\<lambda>path text. serve_post env path text s) (send_path (addrs c ! L) ''get'') q"
    and "\<And>k j. j < length (addrs c) \<Longrightarrow> j \<noteq> L \<Longrightarrow> skips GetResponse.RespStatus (net k (send_path (addrs c ! j) ''get'') q)"
  shows "client_Get (length (addrs c)) net key c =
      Some (Returns (c\<lparr>assumedLeader := L, requestID := requestID c + 1\<rparr>) ((v, found, currentRevision u), None)) \<and>
    (\<exists>s' answer. serve_post env ''/get/'' (Encode get_request_fields q) s = Returns s' answer \<and>
      data (dstore s') = data (dstore u) \<and> currentRevision s' = currentRevision u)"
proof -
  let ?cmd = "get_command s q"
  have plain: "plain_get_request q"
    using assms(5) by (simp add: plain_get_request_def q get_request_def)
  obtain m' cmd' where ms: "machine_step ro now ?cmd (machine_of u) = (m', cmd')"
    by (cases "machine_step ro now ?cmd (machine_of u)")
  obtain r s' where r: "get_response cmd' = Some r" and m': "machine_of s' = m'"
    and served: "serve_post env ''/get/'' (Encode get_request_fields q) s = Returns s' (200, Marshal get_response_fields r)"
    using x_get.served_text [where env = env and es = es and ro = ro and now = now and t = t,
        OF assms(1) plain assms(7-14)] ms by (auto simp: serve_post_simps)
  have wfu: "kv_wf u"
    using apply_entries_frame [OF assms(1,10,11,14)] by simp
  have ans: "GetResponse.RespStatus r = StatusOK" "GetResponse.Value r = v" "GetResponse.KeyFound r = found"
    "GetResponse.Revision r = currentRevision u"
    using get_answer [OF wfu ms r] assms(15) by (simp_all add: q get_request_def)
  have "exchanged (net k (send_path (addrs c ! L) ''get'') q) = Reply r" for k
    unfolding assms(17) using served ans assms(16) serve_post_url(2) [OF assms(4)]
    by (intro x_get.exchange_served) (simp_all add: plain_get_response_def)
  then have call: "client_Get (length (addrs c)) net key c =
      Some (Returns (c\<lparr>assumedLeader := L, requestID := requestID c + 1\<rparr>) ((v, found, currentRevision u), None))"
    using m_get.finds_leader [where c = c and L = L and f = "length (addrs c)" and r = r and net = net and key = key]
      assms(2,3,18) ans by (simp add: client_Get_def q next_request_def)
  have "data (m_ds m') = data (dstore u)" "m_rev m' = currentRevision u"
    using ms by (auto simp: machine_step_def get_command_def zeroCommand_def execute_def m_bump_def is_write_def
        exec_get_def split: if_splits prod.splits)
  then show ?thesis
    using call served m' by auto
qed

lemma put_k_applied:
  "\<exists>u us. apply_entries [((ascending, 5), put_k ''v'' 1, 0, 1)] (New 0 []) = Returns u us \<and>
    Get ''k'' (dstore u) = (''v'', True) \<and> currentRevision u = 1"
proof -
  have room: "lease_room [put_k ''v'' 1] (dstore (New 0 []))"
    by (simp add: lease_room_def)
  obtain m' cmd' ev where ms: "machine_step ascending 5 (put_k ''v'' 1) (machine_of (New 0 [])) = (m', cmd')"
    and h: "handleCommand ascending 5 (put_k ''v'' 1) 0 1 (New 0 []) = Returns (committed ascending 0 1 m' cmd' ev (New 0 [])) cmd'"
    by (rule apply_one [OF kv_wf_New sample_commands(1) room])
  have "Get ''k'' (m_ds m') = (''v'', True)" "m_rev m' = 1"
    using ms by (auto simp: machine_step_def m_duplicate_def m_bump_def is_write_def put_k_def zeroCommand_def
        execute_def op_defs NewDataStore_def with_result_def Get_def lookup_ok_def
        Let_def split: if_splits)
  moreover have "m_rev (machine_of (committed ascending 0 1 m' cmd' ev (New 0 []))) = m_rev m'"
    by simp
  then have "currentRevision (committed ascending 0 1 m' cmd' ev (New 0 [])) = m_rev m'"
    unfolding machine_of_simps .
  ultimately show ?thesis
    using h by simp
qed

definition one_get :: GetRequest where
  "one_get = get_request ''k'' (next_request one_client)"

definition get_node :: node_env where
  "get_node = follower_env\<lparr>submits := \<lambda>_. 1, leads := True,
     commits := apply_entries ([((ascending, 5), put_k ''v'' 1, 0, 1)] @
       [((ascending, 6), get_command (New 0 []) one_get, 1, 1)])\<rparr>"

definition one_get_net :: "(GetRequest, GetResponse) network" where
  "one_get_net k url q =
     \<lparr>exchanged = exchange_with (\<lambda>_. ''bad JSON'') get_request_fields get_response_fields (get_status StatusInvalid)
        (\<lambda>path text. serve_post get_node path text (New 0 [])) url q,
      parentErr = None, retryErr = None\<rparr>"

theorem get_call_end_to_end_witness:
  "client_Get 1 one_get_net ''k'' one_client =
     Some (Returns (one_client\<lparr>assumedLeader := 0, requestID := 1\<rparr>) ((''v'', True, 1), None))"
proof -
  obtain u us where u: "apply_entries [((ascending, 5), put_k ''v'' 1, 0, 1)] (New 0 []) = Returns u us"
    "Get ''k'' (dstore u) = (''v'', True)" "currentRevision u = 1"
    using put_k_applied by blast
  have "lease_room (commands [((ascending, 5), put_k ''v'' 1, 0, 1)] @ [get_command (New 0 []) one_get]) (dstore (New 0 []))"
    by (simp add: lease_room_def get_command_def zeroCommand_def)
  then show ?thesis
    using get_call_end_to_end [where s = "New 0 []" and c = one_client and L = 0 and i = 1 and u = u and us = us
        and es = "[((ascending, 5), put_k ''v'' 1, 0, 1)]" and env = get_node and ro = ascending and now = 6
        and t = 1 and net = one_get_net and err = "\<lambda>_. ''bad JSON''", OF kv_wf_New _ _ _ _ one_get_def] u
    by (simp add: client_wf_def one_client_def utf8_simps one_get_net_def get_node_def del: apply_entries.simps)
qed

lemma txn_step:
  assumes "\<not> is_duplicate (txn_command s tr) u"
    and "Txn (TxnRequest.Conditions tr) (TxnRequest.Success tr) (TxnRequest.Failure tr) (dstore u) = ((ok, results), ds')"
  shows "m_ds (fst (machine_step ro now (txn_command s tr) (machine_of u))) = ds'"
    and "m_rev (fst (machine_step ro now (txn_command s tr) (machine_of u))) = currentRevision u + 1"
    and "txn_response (snd (machine_step ro now (txn_command s tr) (machine_of u))) =
      Some \<lparr>TxnResponse.RespStatus = StatusOK, Succeeded = ok, Results = results, Revision = currentRevision u + 1\<rparr>"
  using assms by (simp_all add: machine_step_def is_duplicate_machine txn_command_def zeroCommand_def execute_def m_bump_def
      is_write_def txn_response_def)

text \<open>
  C11: a transaction, from the client's call to the store and back. With the same parts as for a put,
  the conditions and the two lists of operations reach the store in the order given; the call returns
  whether the conditions held after the entries committed before, the result of each operation of
  the branch that was taken, and the revision of the write, and the node's store is the one that
  the transaction leaves.
\<close>
theorem txn_call_end_to_end:
  assumes "kv_wf s" and "client_wf c" and "L < length (addrs c)" and "CHR ''/'' \<notin> set (addrs c ! L)"
    and q: "q = txn_request conditions success failure (next_request c)" and "plain_txn_request q"
    and "submits env (txn_command s q) = i" and "0 \<le> i" and "fmlookup (commitSubs s) i = None"
    and "list_all submitted (commands es)" and "lease_room (commands es @ [txn_command s q]) (dstore s)"
    and "i \<notin> indices es" and "commits env = apply_entries (es @ [((ro, now), txn_command s q, i, t)])"
    and "apply_entries es s = Returns u us" and "\<not> is_duplicate (txn_command s q) u"
    and "Txn conditions success failure (dstore u) = ((ok, results), ds')" and "list_all plain_txn_op_result results"
    and "\<And>k. exchanged (net k (send_path (addrs c ! L) ''txn'') q) =
      exchange_with err txn_request_fields txn_response_fields (txn_status StatusInvalid)
        (\<lambda>path text. serve_post env path text s) (send_path (addrs c ! L) ''txn'') q"
    and "\<And>k j. j < length (addrs c) \<Longrightarrow> j \<noteq> L \<Longrightarrow> skips TxnResponse.RespStatus (net k (send_path (addrs c ! j) ''txn'') q)"
  shows "client_Txn (length (addrs c)) net conditions success failure c =
      Some (Returns (c\<lparr>assumedLeader := L, requestID := requestID c + 1\<rparr>) ((ok, results, currentRevision u + 1), None)) \<and>
    (\<exists>s' answer. serve_post env ''/txn/'' (Encode txn_request_fields q) s = Returns s' answer \<and>
      dstore s' = ds' \<and> currentRevision s' = currentRevision u + 1)"
proof -
  let ?r = "\<lparr>TxnResponse.RespStatus = StatusOK, Succeeded = ok, Results = results, Revision = currentRevision u + 1\<rparr>"
  have "Txn (TxnRequest.Conditions q) (TxnRequest.Success q) (TxnRequest.Failure q) (dstore u) = ((ok, results), ds')"
    using assms(16) by (simp add: q txn_request_def)
  note step = txn_step [OF assms(15) this, of ro now]
  obtain s' where m': "machine_of s' = fst (machine_step ro now (txn_command s q) (machine_of u))"
    and served: "serve_post env ''/txn/'' (Encode txn_request_fields q) s = Returns s' (200, Marshal txn_response_fields ?r)"
    using x_txn.served_text [where env = env and es = es and ro = ro and now = now and t = t, OF assms(1,6-14)] step(3)
    by (auto simp: serve_post_simps)
  have "exchanged (net k (send_path (addrs c ! L) ''txn'') q) = Reply ?r" for k
    unfolding assms(18) using served assms(17) serve_post_url(3) [OF assms(4)]
    by (intro x_txn.exchange_served) (simp_all add: plain_txn_response_def txn_status_def)
  then have "client_Txn (length (addrs c)) net conditions success failure c =
      Some (Returns (c\<lparr>assumedLeader := L, requestID := requestID c + 1\<rparr>) ((ok, results, currentRevision u + 1), None))"
    using m_txn.finds_leader [where c = c and L = L and f = "length (addrs c)" and r = ?r and net = net
        and conditions = conditions and success = success and failure = failure] assms(2,3,19)
    by (simp add: client_Txn_def q next_request_def)
  moreover have "dstore s' = ds'" "currentRevision s' = currentRevision u + 1"
    using arg_cong [OF m', of m_ds] arg_cong [OF m', of m_rev] step(1,2) by simp_all
  ultimately show ?thesis
    using served by blast
qed

definition one_condition :: TxnCondition where
  "one_condition = \<lparr>TxnCondition.Key = ''k'', Compare = CompareNotExists, Value = ''''\<rparr>"

definition one_op :: TxnOp where
  "one_op = zero_op\<lparr>TxnOp.Key := ''k'', TxnOp.Value := ''v''\<rparr>"

definition one_txn :: TxnRequest where
  "one_txn = txn_request [one_condition] [one_op] [] (next_request one_client)"

definition txn_net :: "(TxnRequest, TxnResponse) network" where
  "txn_net k url q =
     \<lparr>exchanged = exchange_with (\<lambda>_. ''bad JSON'') txn_request_fields txn_response_fields (txn_status StatusInvalid)
        (\<lambda>path text. serve_post (one_node_env (txn_command (New 0 []) one_txn)) path text (New 0 [])) url q,
      parentErr = None, retryErr = None\<rparr>"

lemma one_txn_runs:
  "\<exists>ds'. Txn [one_condition] [one_op] [] NewDataStore =
    ((True, [\<lparr>TxnOpResult.Key = ''k'', PrevValue = '''', KeyFound = False\<rparr>]), ds')"
  by (simp add: Txn_def one_condition_def one_op_def zero_op_def NewDataStore_def evalCondition_def
      lookup_ok_def txn_op_def op_defs Let_def)

theorem txn_call_end_to_end_witness:
  "client_Txn 1 txn_net [one_condition] [one_op] [] one_client =
     Some (Returns (one_client\<lparr>assumedLeader := 0, requestID := 1\<rparr>)
       ((True, [\<lparr>TxnOpResult.Key = ''k'', PrevValue = '''', KeyFound = False\<rparr>], 1), None))"
proof -
  have "lease_room (commands [] @ [txn_command (New 0 []) one_txn]) (dstore (New 0 []))"
    by (simp add: lease_room_def txn_command_def zeroCommand_def)
  moreover have "\<not> is_duplicate (txn_command (New 0 []) one_txn) (New 0 [])"
    by (simp add: is_duplicate_machine m_duplicate_def)
  moreover have "plain_txn_request one_txn"
    by (simp add: plain_txn_request_def one_txn_def txn_request_def one_condition_def one_op_def plain_txn_condition_def
        plain_txn_op_def zero_op_def wire_op_def wire_compare_def op_of_def compare_of_def in_int64_def utf8_simps)
  moreover obtain ds' where "Txn [one_condition] [one_op] [] NewDataStore =
      ((True, [\<lparr>TxnOpResult.Key = ''k'', PrevValue = '''', KeyFound = False\<rparr>]), ds')"
    using one_txn_runs by blast
  ultimately show ?thesis
    using txn_call_end_to_end [where s = "New 0 []" and c = one_client and L = 0 and i = 0 and es = "[]" and u = "New 0 []"
        and us = "[]" and env = "one_node_env (txn_command (New 0 []) one_txn)" and ro = ascending and now = 5 and t = 1
        and net = txn_net and err = "\<lambda>_. ''bad JSON''" and ds' = ds', OF kv_wf_New _ _ _ one_txn_def]
    by (simp add: client_wf_def one_client_def utf8_simps txn_net_def one_node_env_def plain_txn_op_result_def
        del: apply_entries.simps(2))
qed

text \<open>
  C20: a transaction that arrives incomplete is not executed. If the body of a transaction request was
  cut off anywhere before its last character, the node answers with status 400 and stays exactly as
  it was: nothing is submitted to the log, whatever the Raft server would have said.
\<close>
theorem cut_transaction_is_refused:
  assumes "plain_txn_request q" and "Marshal txn_request_fields q = text @ rest" and "rest \<noteq> []"
  shows "serve_post env ''/txn/'' text s = Returns s (400, badJSON env text @ [newline])"
  using x_txn.cut_body_refused [OF assms] by (simp add: serve_post_simps)

theorem cut_transaction_is_refused_witness:
  "\<exists>text. serve_post follower_env ''/txn/'' text (New 0 []) = Returns (New 0 []) (400, badJSON follower_env text @ [newline])"
proof -
  let ?q = "zero_txn_request\<lparr>TxnRequest.Success := [zero_op\<lparr>TxnOp.Key := ''k''\<rparr>]\<rparr>"
  have "plain_txn_request ?q"
    by (simp add: plain_txn_request_def plain_txn_op_def zero_txn_request_def zero_op_def utf8_simps wire_op_def
        op_of_def in_int64_def)
  moreover have "Marshal txn_request_fields ?q = butlast (Marshal txn_request_fields ?q) @ [last (Marshal txn_request_fields ?q)]"
    by (simp add: Marshal_def encode_struct_def)
  ultimately show ?thesis
    using cut_transaction_is_refused by blast
qed



end
