(* ===== verification/Joining.thy ===== *)
theory Joining
  imports Startup Calls
begin

text \<open>
  A node joins a running cluster: \<open>joinCluster\<close> of \<open>cmd/zodiacServer/main.go\<close> on the new node, the
  route and handler \<open>/join/\<close> on the leader, and the configuration change that commits afterwards, put
  together. The request and the answer pass between the two programs as texts.
\<close>

definition join_request :: "string \<Rightarrow> Config \<Rightarrow> JoinRequest" where
  "join_request raftAddr cfg =
     \<lparr>JoinRequest.ID = NodeID cfg, RaftAddr = raftAddr, HTTPAddr = Config_HTTPAddr cfg\<rparr>"

lemma join_served:
  assumes "\<not> locked s" and "plain_join_request jr" and "leads env" and "resolves env (JoinRequest.RaftAddr jr)"
    and "connects env (JoinRequest.ID jr) (JoinRequest.RaftAddr jr) = None"
    and "adds env (JoinRequest.ID jr) (JoinRequest.RaftAddr jr)" and "service_id s \<noteq> JoinRequest.ID jr"
  shows "\<exists>s' s''. serve_post env ''/join/'' (Encode join_request_fields jr) s =
      Returns s' (200, Marshal join_response_fields \<lparr>JoinResponse.RespStatus = StatusOK\<rparr>) \<and>
    handleCommittedConfigChange (AddNode (JoinRequest.ID jr)) s' = Returns s'' () \<and>
    fmlookup (peers s'') (JoinRequest.ID jr) =
      Some \<lparr>peerInfo.RaftAddr = JoinRequest.RaftAddr jr, HTTPAddr = JoinRequest.HTTPAddr jr\<rparr> \<and>
    peerIDs s'' = peerIDs s @ [JoinRequest.ID jr] \<and> machine_of s'' = machine_of s"
proof -
  have "Decode True join_request_fields (Encode join_request_fields jr) zero_join_request = Some jr"
    using w_join_request.Decode_Encode [OF assms(2)] by simp
  then have "readRequestJSON (posted (badJSON env) join_request_fields zero_join_request (Encode join_request_fields jr)) =
      Inr jr"
    by (simp add: posted_def readRequestJSON_def)
  then show ?thesis
    using assms by (simp add: serve_post_simps handleJoin_def handleCommittedConfigChange_def locking_free unlockKV_def
        Let_def sendHTTPResponse_def renderJSON_def machine_of_def del: read_posted)
qed

lemma url_path_join:
  assumes "CHR ''/'' \<notin> set addr"
  shows "url_path (''http://'' @ addr @ ''/join/'') = ''/join/''"
  using url_path_send_path [OF assms, of "''join''"] by (simp add: send_path_def)

text \<open>
  C34: a node that asks to join is added. A node starts with a configuration that names running nodes. One
  node leads, and the first of the named nodes is that leader, or lists it, or gives no list while the
  leader is named too. The leader's Raft server connects to the new node and takes the proposal. Then
  \<open>joinCluster\<close> sends one join request, to the leader, and returns as soon as it is answered; and when
  the change commits, the leader has both addresses of the new node in its book and its id in the
  peer list, and the stored data is as before.
\<close>
theorem joining_node_is_added:
  assumes seeds: "map PeerConfig.HTTPAddr (InitialCluster cfg) = seed # rest"
    and one: "\<And>k a. probe net k a = Inr True \<longleftrightarrow> a = L"
    and reach: "L = seed \<or> (case fetchMembers net (Suc 0) seed of
      Inl err \<Rightarrow> L \<in> set (seed # rest) | Inr members \<Rightarrow> L \<in> set (http_addrs members))"
    and "done_at net 0 = None" and slash: "CHR ''/'' \<notin> set L"
    and jr: "jr = join_request raftAddr cfg" and "plain_join_request jr" and "NodeID cfg \<noteq> service_id s"
    and "\<not> locked s" and "leads env" and "resolves env raftAddr" and "connects env (NodeID cfg) raftAddr = None"
    and "adds env (NodeID cfg) raftAddr"
    and node: "\<And>k. join_at net k (''http://'' @ L @ ''/join/'') jr =
      exchange_with err join_request_fields join_response_fields \<lparr>JoinResponse.RespStatus = StatusInvalid\<rparr>
        (\<lambda>path text. serve_post env path text s) (''http://'' @ L @ ''/join/'') jr"
  shows "joinCluster net raftAddr cfg = (None, Suc (snd (findLeader net 0 seed (seed # rest)))) \<and>
    (\<exists>s' answer s''. serve_post env ''/join/'' (Encode join_request_fields jr) s = Returns s' answer \<and>
      handleCommittedConfigChange (AddNode (NodeID cfg)) s' = Returns s'' () \<and>
      fmlookup (peers s'') (NodeID cfg) = Some \<lparr>peerInfo.RaftAddr = raftAddr, HTTPAddr = Config_HTTPAddr cfg\<rparr> \<and>
      peerIDs s'' = peerIDs s @ [NodeID cfg] \<and> machine_of s'' = machine_of s)"
proof -
  have id: "JoinRequest.ID jr = NodeID cfg" "JoinRequest.RaftAddr jr = raftAddr" "JoinRequest.HTTPAddr jr = Config_HTTPAddr cfg"
    by (simp_all add: jr join_request_def)
  obtain s' s'' where served: "serve_post env ''/join/'' (Encode join_request_fields jr) s =
      Returns s' (200, Marshal join_response_fields \<lparr>JoinResponse.RespStatus = StatusOK\<rparr>)"
    "handleCommittedConfigChange (AddNode (NodeID cfg)) s' = Returns s'' ()"
    "fmlookup (peers s'') (NodeID cfg) = Some \<lparr>peerInfo.RaftAddr = raftAddr, HTTPAddr = Config_HTTPAddr cfg\<rparr>"
    "peerIDs s'' = peerIDs s @ [NodeID cfg]" "machine_of s'' = machine_of s"
    using join_served [OF assms(9,7,10)] assms(8,11-13) unfolding id by metis
  have "join_at net k (''http://'' @ L @ ''/join/'') jr = Reply \<lparr>JoinResponse.RespStatus = StatusOK\<rparr>" for k
    using w_join_response.Decode_Marshal_only [of "\<lparr>JoinResponse.RespStatus = StatusOK\<rparr>"] served(1)
    unfolding node exchange_with_def url_path_join [OF slash] by (simp add: plain_join_response_def)
  then have "sendJoin net k L jr = None" for k
    by (simp add: sendJoin_def)
  moreover have "fst (findLeader net 0 seed (seed # rest)) = Inr L"
    using findLeader_finds_the_leader [where net = net and L = L and k = 0 and seed = seed and allSeeds = "seed # rest", OF one] reach by simp
  ultimately have "joinCluster net raftAddr cfg = (None, Suc (snd (findLeader net 0 seed (seed # rest))))"
    using assms(4) by (cases "findLeader net 0 seed (seed # rest)")
      (simp add: joinCluster_def seeds jr [unfolded join_request_def, symmetric])
  then show ?thesis
    using served by blast
qed

definition joining_config :: Config where
  "joining_config = sample_config\<lparr>NodeID := 2\<rparr>"

definition leader_env :: node_env where
  "leader_env = follower_env\<lparr>leads := True\<rparr>"

definition joined_cluster :: cluster_net where
  "joined_cluster = sample_cluster\<lparr>join_at := \<lambda>k url jr.
     exchange_with (\<lambda>_. ''bad JSON'') join_request_fields join_response_fields \<lparr>JoinResponse.RespStatus = StatusInvalid\<rparr>
       (\<lambda>path text. serve_post leader_env path text (New 1 [0])) url jr\<rparr>"

theorem joining_node_is_added_witness:
  "joinCluster joined_cluster ''c:2'' joining_config = (None, Suc (snd (findLeader joined_cluster 0 ''a:1'' [''a:1'', ''b:1''])))"
proof -
  have "probe joined_cluster k a = Inr True \<longleftrightarrow> a = ''b:1''" for k a
    using append_same_eq [of a "''/status/''" "''b:1''"] by (simp add: probe_def joined_cluster_def sample_cluster_def)
  note added = joining_node_is_added [where net = joined_cluster and L = "''b:1''" and cfg = joining_config
      and seed = "''a:1''" and rest = "[''b:1'']" and raftAddr = "''c:2''" and s = "New 1 [0]" and env = leader_env
      and err = "\<lambda>_. ''bad JSON''", OF _ this _ _ _ refl]
  have "Config_HTTPAddr joining_config = ''localhost:'' @ format_nat 8001"
    by (simp add: Config_HTTPAddr_def joining_config_def sample_config_def)
  moreover have "utf8 (format_nat 8001)"
    using format_nat_digits [of _ 8001] by (intro ascii_is_utf8) (fastforce simp: list_all_iff is_digit_def)
  ultimately have "plain_join_request (join_request ''c:2'' joining_config)"
    by (simp add: plain_join_request_def join_request_def joining_config_def sample_config_def in_int64_def utf8_simps)
  then show ?thesis
    using added by (simp add: joining_config_def sample_config_def joined_cluster_def sample_cluster_def fetchMembers_def
        leader_env_def follower_env_def)
qed

end
