(* ===== verification/Flags.thy ===== *)
theory Flags
  imports Strconv
begin

text \<open>
  The flags of the command line client: the four that \<open>cmd/zodiacClient/main.go\<close> declares, and what
  \<open>flag.Parse\<close> does with the words of a command line, which is package \<open>flag\<close> of the Go library with
  \<open>strconv.ParseBool\<close> and \<open>time.ParseDuration\<close>. A word that is no flag ends the flags; an unknown flag,
  a missing or a malformed value ends the program with exit code 2, a request for help with 0. What is
  printed on standard error then is left out.

  A duration is computed in uint64 as the library does, with the wrap-around of the last addition. The fraction
  of a number goes through float64; \<open>to_float\<close> is rounding to 53 bits, ties to even, on rationals. Its
  exponent is searched from -64 to 200, which holds every number that occurs: they lie between
  \<open>10 ^ -19\<close> and \<open>2 ^ 64\<close>.
\<close>

subsection \<open>Durations\<close>

definition round_even :: "rat \<Rightarrow> int" where
  "round_even x =
     (let l = \<lfloor>x\<rfloor>; d = x - of_int l
      in if d < 1 / 2 then l else if d > 1 / 2 then l + 1 else if even l then l else l + 1)"

definition times_two_to :: "int \<Rightarrow> rat \<Rightarrow> rat" where
  "times_two_to e x = (if 0 \<le> e then x * 2 ^ nat e else x / 2 ^ nat (- e))"

definition to_float :: "rat \<Rightarrow> rat" where
  "to_float x =
     (case find (\<lambda>e. 2 ^ 52 \<le> times_two_to e x \<and> times_two_to e x < 2 ^ 53) [-64..200] of
        None \<Rightarrow> x
      | Some e \<Rightarrow> times_two_to (- e) (of_int (round_even (times_two_to e x))))"

text \<open>\<open>uint64(float64(f) * (float64(unit) / scale))\<close>\<close>

definition fraction_part :: "nat \<Rightarrow> nat \<Rightarrow> nat \<Rightarrow> nat" where
  "fraction_part f unit scale =
     nat \<lfloor>to_float (to_float (of_nat f) * to_float (of_nat unit / of_nat scale))\<rfloor>"

fun leadingInt :: "nat \<Rightarrow> string \<Rightarrow> (nat \<times> string) option" where
  "leadingInt x [] = Some (x, [])"
| "leadingInt x (c # s) =
     (if \<not> is_digit c then Some (x, c # s)
      else if x > 2 ^ 63 div 10 then None
      else let y = 10 * x + nat (digit_value c) in if y > 2 ^ 63 then None else leadingInt y s)"

fun leadingFraction :: "nat \<Rightarrow> nat \<Rightarrow> bool \<Rightarrow> string \<Rightarrow> nat \<times> nat \<times> string" where
  "leadingFraction x scale overflow [] = (x, scale, [])"
| "leadingFraction x scale overflow (c # s) =
     (if \<not> is_digit c then (x, scale, c # s)
      else if overflow then leadingFraction x scale True s
      else if x > (2 ^ 63 - 1) div 10 then leadingFraction x scale True s
      else let y = 10 * x + nat (digit_value c)
           in if y > 2 ^ 63 then leadingFraction x scale True s else leadingFraction y (10 * scale) False s)"

definition unitMap :: "(string \<times> nat) list" where
  "unitMap = [(''ns'', 1), (''us'', 1000), ([CHR 0xC2, CHR 0xB5, CHR ''s''], 1000),
     ([CHR 0xCE, CHR 0xBC, CHR ''s''], 1000), (''ms'', 1000000), (''s'', 1000000000),
     (''m'', 60000000000), (''h'', 3600000000000)]"

definition unit_char :: "char \<Rightarrow> bool" where
  "unit_char c \<longleftrightarrow> c \<noteq> CHR ''.'' \<and> \<not> is_digit c"

text \<open>One number with its unit, in nanoseconds, and the rest of the text.\<close>

definition read_amount :: "string \<Rightarrow> (nat \<times> string) option" where
  "read_amount s =
     (if s = [] \<or> \<not> (hd s = CHR ''.'' \<or> is_digit (hd s)) then None
      else case leadingInt 0 s of
        None \<Rightarrow> None
      | Some (v, s1) \<Rightarrow>
          let pre = (length s \<noteq> length s1);
              point = (s1 \<noteq> [] \<and> hd s1 = CHR ''.'');
              (f, scale, s2) = (if point then leadingFraction 0 1 False (tl s1) else (0, 1, s1));
              post = (point \<and> length (tl s1) \<noteq> length s2);
              u = takeWhile unit_char s2;
              s3 = dropWhile unit_char s2
          in if \<not> pre \<and> \<not> post \<or> u = [] then None
             else case map_of unitMap u of
               None \<Rightarrow> None
             | Some unit \<Rightarrow>
                 if v > 2 ^ 63 div unit then None
                 else let v = v * unit + (if f > 0 then fraction_part f unit scale else 0)
                      in if f > 0 \<and> v > 2 ^ 63 then None else Some (v, s3))"

lemma leadingInt_shorter: "leadingInt x s = Some (v, r) \<Longrightarrow> length r \<le> length s"
  by (induction x s rule: leadingInt.induct) (auto simp: Let_def split: if_splits)

lemma leadingFraction_shorter: "leadingFraction x sc ov s = (f, k, r) \<Longrightarrow> length r \<le> length s"
  by (induction x sc ov s rule: leadingFraction.induct) (auto simp: Let_def split: if_splits)

lemma read_amount_shorter: "read_amount s = Some (v, r) \<Longrightarrow> length r < length s"
proof -
  assume a: "read_amount s = Some (v, r)"
  obtain n s1 where s1: "leadingInt 0 s = Some (n, s1)"
    using a by (auto simp: read_amount_def split: if_splits option.splits)
  obtain f scale s2 where s2: "(if s1 \<noteq> [] \<and> hd s1 = CHR ''.'' then leadingFraction 0 1 False (tl s1) else (0, 1, s1)) =
      (f, scale, s2)"
    by (metis prod_cases3)
  have "takeWhile unit_char s2 \<noteq> []" "r = dropWhile unit_char s2"
    using a s1 s2 by (auto simp: read_amount_def Let_def split: if_splits option.splits)
  then have "length r < length s2"
    by (metis length_greater_0_conv length_append less_add_same_cancel2 takeWhile_dropWhile_id)
  moreover have "length s2 \<le> length s1"
    using s2 leadingFraction_shorter [of 0 1 False "tl s1" f scale s2] by (auto split: if_splits)
  ultimately show ?thesis
    using leadingInt_shorter [OF s1] by simp
qed

function sum_amounts :: "nat \<Rightarrow> string \<Rightarrow> nat option" where
  "sum_amounts d s =
     (if s = [] then Some d
      else case read_amount s of
        None \<Rightarrow> None
      | Some (v, rest) \<Rightarrow>
          let d = (d + v) mod 2 ^ 64 in if d > 2 ^ 63 then None else sum_amounts d rest)"
  by pat_completeness auto
termination
  by (relation "measure (length \<circ> snd)") (auto dest: read_amount_shorter)

declare sum_amounts.simps [simp del]

definition ParseDuration :: "string \<Rightarrow> int option" where
  "ParseDuration orig =
     (let neg = (orig \<noteq> [] \<and> hd orig = CHR ''-'');
          s = (if orig \<noteq> [] \<and> hd orig \<in> set ''-+'' then tl orig else orig)
      in if s = ''0'' then Some 0
         else if s = [] then None
         else case sum_amounts 0 s of
                None \<Rightarrow> None
              | Some d \<Rightarrow> if neg then Some (- int d) else if d > 2 ^ 63 - 1 then None else Some (int d))"

subsection \<open>The flags\<close>

record cli_flags =
  addr_flag :: string
  discover_flag :: bool
  v_flag :: bool
  timeout_flag :: int

definition default_flags :: cli_flags where
  "default_flags = \<lparr>addr_flag = ''localhost:8000'', discover_flag = False, v_flag = False, timeout_flag = 5000000000\<rparr>"

definition ParseBool :: "string \<Rightarrow> bool option" where
  "ParseBool s =
     (if s \<in> {''1'', ''t'', ''T'', ''true'', ''TRUE'', ''True''} then Some True
      else if s \<in> {''0'', ''f'', ''F'', ''false'', ''FALSE'', ''False''} then Some False
      else None)"

text \<open>What one word of the command line is.\<close>

datatype flag_word = NoFlag | EndOfFlags | BadSyntax | FlagWord string "string option"

definition split_name :: "string \<Rightarrow> flag_word" where
  "split_name name =
     (let n = hd name # takeWhile (\<lambda>c. c \<noteq> CHR ''='') (tl name);
          r = dropWhile (\<lambda>c. c \<noteq> CHR ''='') (tl name)
      in FlagWord n (if r = [] then None else Some (tl r)))"

definition read_word :: "string \<Rightarrow> flag_word" where
  "read_word s =
     (if length s < 2 \<or> hd s \<noteq> CHR ''-'' then NoFlag
      else if s = ''--'' then EndOfFlags
      else let name = (if s ! 1 = CHR ''-'' then drop 2 s else drop 1 s)
           in if name = [] \<or> hd name = CHR ''-'' \<or> hd name = CHR ''='' then BadSyntax else split_name name)"

definition set_bool :: "string \<Rightarrow> bool \<Rightarrow> cli_flags \<Rightarrow> cli_flags" where
  "set_bool name b fl = (if name = ''discover'' then fl\<lparr>discover_flag := b\<rparr> else fl\<lparr>v_flag := b\<rparr>)"

definition set_value :: "string \<Rightarrow> string \<Rightarrow> cli_flags \<Rightarrow> cli_flags option" where
  "set_value name x fl =
     (if name = ''addr'' then Some (fl\<lparr>addr_flag := x\<rparr>) else map_option (\<lambda>d. fl\<lparr>timeout_flag := d\<rparr>) (ParseDuration x))"

datatype flag_result = Parsed cli_flags "string list" | Quit int

function parse_flags :: "cli_flags \<Rightarrow> string list \<Rightarrow> flag_result" where
  "parse_flags fl [] = Parsed fl []"
| "parse_flags fl (s # args) =
     (case read_word s of
        NoFlag \<Rightarrow> Parsed fl (s # args)
      | EndOfFlags \<Rightarrow> Parsed fl args
      | BadSyntax \<Rightarrow> Quit 2
      | FlagWord name val \<Rightarrow>
          if name \<in> {''discover'', ''v''} then
            (case ParseBool (case val of None \<Rightarrow> ''true'' | Some x \<Rightarrow> x) of
               None \<Rightarrow> Quit 2
             | Some b \<Rightarrow> parse_flags (set_bool name b fl) args)
          else if name \<in> {''addr'', ''timeout''} then
            (case val of
               Some x \<Rightarrow> (case set_value name x fl of None \<Rightarrow> Quit 2 | Some fl \<Rightarrow> parse_flags fl args)
             | None \<Rightarrow>
                 (case args of
                    [] \<Rightarrow> Quit 2
                  | x # rest \<Rightarrow> (case set_value name x fl of None \<Rightarrow> Quit 2 | Some fl \<Rightarrow> parse_flags fl rest)))
          else if name \<in> {''help'', ''h''} then Quit 0
          else Quit 2)"
  by pat_completeness auto
termination
  by (relation "measure (length \<circ> snd)") auto

subsection \<open>Writing flags\<close>

datatype setting = SetAddr string | SetDiscover bool | SetVerbose bool | SetTimeout string

fun setting_ok :: "setting \<Rightarrow> bool" where
  "setting_ok (SetTimeout t) = (ParseDuration t \<noteq> None)"
| "setting_ok _ = True"

fun effect :: "setting \<Rightarrow> cli_flags \<Rightarrow> cli_flags" where
  "effect (SetAddr a) fl = fl\<lparr>addr_flag := a\<rparr>"
| "effect (SetDiscover b) fl = fl\<lparr>discover_flag := b\<rparr>"
| "effect (SetVerbose b) fl = fl\<lparr>v_flag := b\<rparr>"
| "effect (SetTimeout t) fl = fl\<lparr>timeout_flag := the (ParseDuration t)\<rparr>"

text \<open>The spellings of a setting: one dash or two, the value after an equals sign or as the next word; a
  boolean flag alone is true.\<close>

definition dashes :: "bool \<Rightarrow> string" where
  "dashes two = (if two then ''--'' else ''-'')"

definition with_value :: "bool \<Rightarrow> bool \<Rightarrow> string \<Rightarrow> string \<Rightarrow> string list" where
  "with_value two joined name x =
     (if joined then [dashes two @ name @ CHR ''='' # x] else [dashes two @ name, x])"

definition with_bool :: "bool \<Rightarrow> bool \<Rightarrow> string \<Rightarrow> bool \<Rightarrow> string list" where
  "with_bool two joined name b =
     (if joined \<or> \<not> b then [dashes two @ name @ CHR ''='' # (if b then ''true'' else ''false'')]
      else [dashes two @ name])"

fun flag_words :: "bool \<times> bool \<times> setting \<Rightarrow> string list" where
  "flag_words (two, joined, SetAddr a) = with_value two joined ''addr'' a"
| "flag_words (two, joined, SetDiscover b) = with_bool two joined ''discover'' b"
| "flag_words (two, joined, SetVerbose b) = with_bool two joined ''v'' b"
| "flag_words (two, joined, SetTimeout t) = with_value two joined ''timeout'' t"

lemma read_word_alone:
  assumes "n \<noteq> []" and "CHR ''='' \<notin> set n" and "hd n \<noteq> CHR ''-''"
  shows "read_word (dashes two @ n) = FlagWord n None"
proof -
  obtain c cs where n: "n = c # cs" using assms(1) by (cases n) auto
  then have "takeWhile (\<lambda>c. c \<noteq> CHR ''='') cs = cs" "dropWhile (\<lambda>c. c \<noteq> CHR ''='') cs = []"
    using assms(2) by (auto simp: takeWhile_eq_all_conv)
  then show ?thesis
    using assms by (auto simp: n read_word_def dashes_def split_name_def)
qed

lemma read_word_joined:
  assumes "n \<noteq> []" and "CHR ''='' \<notin> set n" and "hd n \<noteq> CHR ''-''"
  shows "read_word (dashes two @ n @ CHR ''='' # x) = FlagWord n (Some x)"
proof -
  obtain c cs where n: "n = c # cs" using assms(1) by (cases n) auto
  have "d \<noteq> CHR ''=''" if "d \<in> set cs" for d
    using that assms(2) n by auto
  then have "takeWhile (\<lambda>c. c \<noteq> CHR ''='') (cs @ CHR ''='' # x) = cs"
    "dropWhile (\<lambda>c. c \<noteq> CHR ''='') (cs @ CHR ''='' # x) = CHR ''='' # x"
    by (simp_all add: takeWhile_append2 dropWhile_append2)
  then show ?thesis
    using assms by (auto simp: n read_word_def dashes_def split_name_def)
qed

lemmas read_words =
  read_word_alone [of "''addr''", simplified] read_word_joined [of "''addr''", simplified]
  read_word_alone [of "''discover''", simplified] read_word_joined [of "''discover''", simplified]
  read_word_alone [of "''v''", simplified] read_word_joined [of "''v''", simplified]
  read_word_alone [of "''timeout''", simplified] read_word_joined [of "''timeout''", simplified]

lemma parse_setting:
  assumes "setting_ok x"
  shows "parse_flags fl (flag_words (two, joined, x) @ args) = parse_flags (effect x fl) args"
proof (cases x)
  case (SetAddr a)
  then show ?thesis
    by (simp add: with_value_def read_words set_value_def)
next
  case (SetDiscover b)
  then show ?thesis
    by (simp add: with_bool_def read_words ParseBool_def set_bool_def)
next
  case (SetVerbose b)
  then show ?thesis
    by (simp add: with_bool_def read_words ParseBool_def set_bool_def)
next
  case (SetTimeout t)
  then show ?thesis
    using assms by (auto simp: with_value_def read_words set_value_def)
qed

lemma parse_settings:
  assumes "list_all (\<lambda>(two, joined, x). setting_ok x) ss"
  shows "parse_flags fl (concat (map flag_words ss) @ args) =
    parse_flags (fold (\<lambda>(two, joined, x). effect x) ss fl) args"
  using assms
proof (induction ss arbitrary: fl)
  case (Cons y ss)
  obtain two joined x where "y = (two, joined, x)" by (cases y)
  with Cons parse_setting [of x fl two joined "concat (map flag_words ss) @ args"] show ?case by simp
qed simp

lemma parse_flags_stop:
  "read_word s = NoFlag \<Longrightarrow> parse_flags fl (s # args) = Parsed fl (s # args)"
  "parse_flags fl (''--'' # args) = Parsed fl args"
  by (simp_all add: read_word_def)

subsection \<open>Whole numbers of a unit\<close>

lemma digits_value_ge: "0 \<le> x \<Longrightarrow> digits_value x ds = Some v \<Longrightarrow> x \<le> v"
proof (induction ds arbitrary: x)
  case (Cons c ds)
  then have "is_digit c" "0 \<le> digit_value c"
    by (auto simp: is_digit_def digit_value_def split: if_splits)
  with Cons.IH [of "10 * x + digit_value c"] Cons.prems show ?case by simp
qed simp

lemma leadingInt_bounded:
  assumes "\<And>c. c \<in> set ds \<Longrightarrow> is_digit c" and "digits_value (int x) ds = Some v" and "v \<le> 2 ^ 63"
    and "r = [] \<or> \<not> is_digit (hd r)"
  shows "leadingInt x (ds @ r) = Some (nat v, r)"
  using assms
proof (induction ds arbitrary: x)
  case Nil
  then show ?case by (cases r) auto
next
  case (Cons c ds)
  have c: "is_digit c" "0 \<le> digit_value c" using Cons.prems(1) by (auto simp: is_digit_def digit_value_def)
  let ?y = "10 * x + nat (digit_value c)"
  have y: "10 * int x + digit_value c = int ?y"
    using c(2) by simp
  have v: "digits_value (int ?y) ds = Some v"
    using Cons.prems(2) c(1) by (simp add: y)
  have "int ?y \<le> v"
    using digits_value_ge [OF _ v] by simp
  then have "int ?y \<le> 2 ^ 63"
    using Cons.prems(3) by (rule order_trans)
  then have "?y \<le> 2 ^ 63"
    by (metis of_nat_le_iff of_nat_numeral of_nat_power)
  moreover from this have "x \<le> 2 ^ 63 div 10" by simp
  ultimately show ?case
    using Cons.IH [OF _ v Cons.prems(3,4)] Cons.prems(1) c(1) by (simp add: Let_def)
qed


lemma whole_duration:
  assumes u: "map_of unitMap u = Some unit" and bound: "n * unit < 2 ^ 63"
  shows "ParseDuration (format_nat n @ u) = Some (int (n * unit))"
proof -
  let ?d = "format_nat n"
  have unit: "0 < unit" and uc: "u \<noteq> []" "\<And>c. c \<in> set u \<Longrightarrow> unit_char c" "hd u \<noteq> CHR ''.''" "\<not> is_digit (hd u)"
    using u by (auto simp: unitMap_def unit_char_def is_digit_def split: if_splits)
  have n: "n \<le> 2 ^ 63 div unit"
    using bound unit by (simp add: less_eq_div_iff_mult_less_eq)
  moreover have "2 ^ 63 div unit \<le> (2 :: nat) ^ 63"
    by (rule div_le_dividend)
  ultimately have "n \<le> 2 ^ 63" by (rule order_trans)
  then have "int n \<le> 2 ^ 63" by simp
  then have i: "leadingInt 0 (?d @ u) = Some (n, u)"
    using leadingInt_bounded [of ?d 0 "int n" u] uc(4) digits_value_format_nat [of n] by (auto dest: format_nat_digits)
  have w: "takeWhile unit_char u = u" "dropWhile unit_char u = []"
    using uc(2) by (auto simp: takeWhile_eq_all_conv)
  have amount: "read_amount (?d @ u) = Some (n * unit, [])"
    using i uc n u hd_format_nat [of n] by (simp add: read_amount_def w Let_def)
  have "sum_amounts 0 (?d @ u) = Some (n * unit)"
    using bound by (simp add: sum_amounts.simps [of 0] sum_amounts.simps [of _ "[]"] amount Let_def)
  moreover have "?d @ u \<noteq> ''0''"
    using uc(1) by (cases ?d) auto
  moreover have "hd (?d @ u) \<notin> set ''-+''"
    using hd_format_nat_unsigned [of n] by simp
  ultimately show ?thesis
    using bound by (simp add: ParseDuration_def)
qed

end
