(* ===== verification/Cli.thy ===== *)
theory Cli
  imports Client Flags
begin

text \<open>
  The command line client, \<open>cmd/zodiacClient/main.go\<close>: the flags (theory \<open>Flags\<close>), the split of the
  address list and the five commands. A run gives the exit code, what is printed on standard output,
  and, where the code ends with \<open>log.Fatal\<close> or an error message, that message. The networks are those
  of the client's theory, given the timeout that the contexts of the program have; a run of a
  fresh process starts with the client count 0.
\<close>

subsection \<open>The address list\<close>

function scan_end :: "string \<Rightarrow> nat \<Rightarrow> nat" where
  "scan_end s i = (if i < length s \<and> s ! i \<noteq> CHR '','' then scan_end s (i + 1) else i)"
  by pat_completeness auto
termination
  by (relation "measure (\<lambda>(s, i). length s - i)") auto

declare scan_end.simps [simp del]

lemma scan_end_ge: "i \<le> scan_end s i"
  by (induction s i rule: scan_end.induct) (subst scan_end.simps, auto)

function split_loop :: "string \<Rightarrow> nat \<Rightarrow> string list \<Rightarrow> string list" where
  "split_loop s lo acc =
     (if lo < length s
      then let e = scan_end s lo;
               addr = take (e - lo) (drop lo s)
           in split_loop s (e + 1) (if addr \<noteq> '''' then acc @ [addr] else acc)
      else acc)"
  by pat_completeness auto
termination
proof (relation "measure (\<lambda>(s, lo, acc). length s - lo)")
  fix s lo e
  assume "lo < length (s :: string)" "e = scan_end s lo"
  then show "((s, e + 1, acc'), s, lo, acc) \<in> measure (\<lambda>(s, lo, acc). length s - lo)" for acc acc' :: "string list"
    using scan_end_ge [of lo s] by auto
qed simp

declare split_loop.simps [simp del]

definition splitAddrs :: "string \<Rightarrow> string list" where
  "splitAddrs s = split_loop s 0 []"

text \<open>The reference: cut at every comma, drop the empty parts.\<close>

fun cut_commas :: "string \<Rightarrow> string list" where
  "cut_commas [] = [[]]"
| "cut_commas (c # s) =
     (if c = CHR '','' then [] # cut_commas s
      else case cut_commas s of [] \<Rightarrow> [[c]] | w # ws \<Rightarrow> (c # w) # ws)"

fun join_commas :: "string list \<Rightarrow> string" where
  "join_commas [] = []"
| "join_commas [a] = a"
| "join_commas (a # as) = a @ CHR '','' # join_commas as"

lemma scan_end_eq: "i \<le> length s \<Longrightarrow> scan_end s i = i + length (takeWhile (\<lambda>c. c \<noteq> CHR '','') (drop i s))"
proof (induction s i rule: scan_end.induct)
  case (1 s i)
  show ?case
  proof (cases "i < length s \<and> s ! i \<noteq> CHR '',''")
    case True
    then have "drop i s = s ! i # drop (Suc i) s"
      by (simp add: Cons_nth_drop_Suc)
    then show ?thesis
      using 1 True by (simp add: scan_end.simps [of s i])
  next
    case False
    then have "takeWhile (\<lambda>c. c \<noteq> CHR '','') (drop i s) = []"
      by (cases "i < length s") (simp_all add: Cons_nth_drop_Suc [symmetric])
    then show ?thesis
      using False by (subst scan_end.simps) auto
  qed
qed

lemma cut_commas_word: "CHR '','' \<notin> set w \<Longrightarrow> cut_commas w = [w]"
  by (induction w) auto

lemma cut_commas_append: "CHR '','' \<notin> set w \<Longrightarrow> cut_commas (w @ CHR '','' # s) = w # cut_commas s"
  by (induction w) auto

lemma cut_commas_takeWhile:
  "cut_commas s =
     (if CHR '','' \<in> set s
      then takeWhile (\<lambda>c. c \<noteq> CHR '','') s # cut_commas (tl (dropWhile (\<lambda>c. c \<noteq> CHR '','') s))
      else [s])"
proof (cases "CHR '','' \<in> set s")
  case True
  then obtain w r where s: "s = w @ CHR '','' # r" and w: "CHR '','' \<notin> set w"
    by (metis split_list_first)
  then have "takeWhile (\<lambda>c. c \<noteq> CHR '','') s = w" "dropWhile (\<lambda>c. c \<noteq> CHR '','') s = CHR '','' # r"
    by (auto simp: takeWhile_append dropWhile_append)
  then show ?thesis
    using True s cut_commas_append [OF w, of r] by simp
next
  case False
  then show ?thesis
    by (simp add: cut_commas_word)
qed

lemma nonempty_parts:
  "filter (\<lambda>w. w \<noteq> []) (cut_commas s) =
     (let w = takeWhile (\<lambda>c. c \<noteq> CHR '','') s in if w \<noteq> [] then [w] else []) @
     filter (\<lambda>w. w \<noteq> []) (cut_commas (tl (dropWhile (\<lambda>c. c \<noteq> CHR '','') s)))"
proof (cases "CHR '','' \<in> set s")
  case True
  then show ?thesis
    by (subst cut_commas_takeWhile) (simp add: Let_def)
next
  case False
  then have t: "takeWhile (\<lambda>c. c \<noteq> CHR '','') s = s" "dropWhile (\<lambda>c. c \<noteq> CHR '','') s = []"
    by (auto simp: takeWhile_eq_all_conv)
  show ?thesis
    unfolding t using False by (simp add: cut_commas_word Let_def)
qed

lemma split_loop_eq:
  "split_loop s lo acc = acc @ filter (\<lambda>w. w \<noteq> []) (cut_commas (drop lo s))"
proof (induction s lo acc rule: split_loop.induct)
  case (1 s lo acc)
  show ?case
  proof (cases "lo < length s")
    case True
    let ?d = "drop lo s"
    let ?w = "takeWhile (\<lambda>c. c \<noteq> CHR '','') ?d" and ?r = "dropWhile (\<lambda>c. c \<noteq> CHR '','') ?d"
    have e: "scan_end s lo = lo + length ?w"
      using True by (intro scan_end_eq) simp
    have w: "take (length ?w) ?d = ?w" and r: "drop (length ?w) ?d = ?r"
      by (metis takeWhile_eq_take, metis dropWhile_eq_drop)
    have "drop (lo + length ?w + 1) s = tl ?r"
      unfolding r [symmetric] by (simp add: tl_drop drop_Suc add.commute)
    moreover have addr: "take (scan_end s lo - lo) ?d = ?w"
      by (simp only: e w add_diff_cancel_left')
    ultimately have "split_loop s lo acc =
        (if ?w \<noteq> [] then acc @ [?w] else acc) @ filter (\<lambda>w. w \<noteq> []) (cut_commas (tl ?r))"
      using "1.IH" [OF True refl refl] unfolding addr split_loop.simps [of s lo acc] Let_def if_P [OF True] e
      by (simp only:)
    moreover have "filter (\<lambda>w. w \<noteq> []) (cut_commas ?d) =
        (let w = ?w in if w \<noteq> [] then [w] else []) @ filter (\<lambda>w. w \<noteq> []) (cut_commas (tl ?r))"
      by (rule nonempty_parts)
    ultimately show ?thesis
      by (simp add: Let_def)
  next
    case False
    then show ?thesis
      by (simp add: split_loop.simps [of s lo])
  qed
qed

lemma splitAddrs_eq: "splitAddrs s = filter (\<lambda>w. w \<noteq> []) (cut_commas s)"
  by (simp add: splitAddrs_def split_loop_eq)

lemma cut_join:
  "as \<noteq> [] \<Longrightarrow> list_all (\<lambda>a. CHR '','' \<notin> set a) as \<Longrightarrow> cut_commas (join_commas as) = as"
  by (induction as rule: join_commas.induct) (simp_all add: cut_commas_word cut_commas_append)

subsection \<open>The commands\<close>

record cli_run =
  exit_code :: int
  stdout :: "string list"
  stderr :: string

definition fatal :: "string \<Rightarrow> cli_run" where
  "fatal msg = \<lparr>exit_code = 1, stdout = [], stderr = msg\<rparr>"

definition printed :: "string list \<Rightarrow> cli_run" where
  "printed ls = \<lparr>exit_code = 0, stdout = ls, stderr = ''''\<rparr>"

text \<open>A value, with its revision if the output is verbose.\<close>

definition value_line :: "bool \<Rightarrow> string \<Rightarrow> int64 \<Rightarrow> string" where
  "value_line verbose v r = (if verbose then v @ '' (rev='' @ FormatInt r @ '')'' else v)"

text \<open>What the program does with the results of a call. A call that does not return within its
  fuel, or that panics, gives no run here.\<close>

fun finish :: "('a \<Rightarrow> cli_run) \<Rightarrow> (KVClient, 'a \<times> string option) outcome option \<Rightarrow> cli_run option" where
  "finish show_result (Some (Returns c (x, None))) = Some (show_result x)"
| "finish show_result (Some (Returns c (x, Some err))) = Some (fatal err)"
| "finish show_result _ = None"

record cli_nets =
  get_net_of :: "(GetRequest, GetResponse) network"
  put_net_of :: "(PutRequest, PutResponse) network"
  append_net_of :: "(AppendRequest, AppendResponse) network"
  cas_net_of :: "(CASRequest, CASResponse) network"
  list_net_of :: "(ListRequest, ListResponse) network"

definition show_get :: "bool \<Rightarrow> string \<times> bool \<times> int64 \<Rightarrow> cli_run" where
  "show_get verbose x =
     (case x of (v, found, r) \<Rightarrow>
        if \<not> found then \<lparr>exit_code = 1, stdout = [], stderr = ''''\<rparr> else printed [value_line verbose v r])"

definition show_previous :: "bool \<Rightarrow> string \<times> bool \<times> int64 \<Rightarrow> cli_run" where
  "show_previous verbose x =
     (case x of (prev, found, r) \<Rightarrow> printed (if found then [value_line verbose prev r] else []))"

definition show_list :: "string map_order \<Rightarrow> bool \<Rightarrow> (string, string) fmap \<times> int64 \<Rightarrow> cli_run" where
  "show_list ro verbose x =
     (case x of (pairs, r) \<Rightarrow>
        printed (map (\<lambda>k. k @ '': '' @ value_line verbose (fst (lookup_ok '''' pairs k)) r) (range_of ro (fmdom pairs))))"

text \<open>The text of the message about a missing command.\<close>

definition usage :: string where
  "usage = concat (map (\<lambda>l. l @ [CHR 0x0A])
     [''Usage: zodiac-client [flags] <command> [args...]'', '''', ''Commands:'', ''  get <key>'', ''  put <key> <value>'',
      ''  append <key> <value>'', ''  cas <key> <compare> <value>'', ''  list <prefix>''])"

definition cli_main :: "nat \<Rightarrow> cli_nets \<Rightarrow> string map_order \<Rightarrow> bool \<Rightarrow> (KVClient \<times> int64) \<Rightarrow> string list \<Rightarrow> cli_run option" where
  "cli_main fuel nets ro verbose client flagArgs =
     (let c = fst client
      in case flagArgs of
           [] \<Rightarrow> Some (fatal usage)
         | cmd # args \<Rightarrow>
             if cmd = ''get'' then
               (case args of
                  key # _ \<Rightarrow> finish (show_get verbose) (client_Get fuel (get_net_of nets) key c)
                | _ \<Rightarrow> Some (fatal ''Usage: zodiac-client get <key>''))
             else if cmd = ''put'' then
               (case args of
                  key # v # _ \<Rightarrow> finish (show_previous verbose) (client_Put fuel (put_net_of nets) key v c)
                | _ \<Rightarrow> Some (fatal ''Usage: zodiac-client put <key> <value>''))
             else if cmd = ''append'' then
               (case args of
                  key # v # _ \<Rightarrow> finish (show_previous verbose) (client_Append fuel (append_net_of nets) key v c)
                | _ \<Rightarrow> Some (fatal ''Usage: zodiac-client append <key> <value>''))
             else if cmd = ''cas'' then
               (case args of
                  key # cmp # v # _ \<Rightarrow> finish (show_previous verbose) (client_CAS fuel (cas_net_of nets) key cmp v c)
                | _ \<Rightarrow> Some (fatal ''Usage: zodiac-client cas <key> <compare> <value>''))
             else if cmd = ''list'' then
               (case args of
                  pre # _ \<Rightarrow> finish (show_list ro verbose) (client_List fuel (list_net_of nets) pre c)
                | _ \<Rightarrow> Some (fatal ''Usage: zodiac-client list <prefix>''))
             else Some (fatal (''unknown command: '' @ cmd @ [CHR 0x0A])))"

text \<open>The client the program makes out of its \<open>-addr\<close> and \<open>-discover\<close> flags.\<close>

definition cli_client :: "(nat \<Rightarrow> string \<Rightarrow> MembersResponse exchange) \<Rightarrow> string \<Rightarrow> bool \<Rightarrow> KVClient \<times> int64" where
  "cli_client fetch addrFlag discover =
     (let seedAddrs = splitAddrs addrFlag
      in if discover then NewWithDiscovery fetch seedAddrs 0 else New_client seedAddrs 0)"

text \<open>The whole program, from the words of its command line.\<close>

definition cli_process :: "nat \<Rightarrow> (int \<Rightarrow> cli_nets) \<Rightarrow> (int \<Rightarrow> nat \<Rightarrow> string \<Rightarrow> MembersResponse exchange)
    \<Rightarrow> string map_order \<Rightarrow> string list \<Rightarrow> cli_run option" where
  "cli_process fuel nets fetch ro osArgs =
     (case parse_flags default_flags osArgs of
        Quit code \<Rightarrow> Some \<lparr>exit_code = code, stdout = [], stderr = ''''\<rparr>
      | Parsed fl args \<Rightarrow>
          cli_main fuel (nets (timeout_flag fl)) ro (v_flag fl) (cli_client (fetch (timeout_flag fl)) (addr_flag fl) (discover_flag fl)) args)"

lemma finish_exit_code:
  assumes "finish f r = Some run"
  obtains c x where "r = Some (Returns c (x, None))" and "run = f x"
    | c x err where "r = Some (Returns c (x, Some err))" and "run = fatal err"
  using assms by (cases "(f, r)" rule: finish.cases) auto

subsection \<open>Properties\<close>



text \<open>
  The exit code is 0 exactly if the call came back without an error, and for a read also found the key. A
  flag that is unknown or has a malformed value gives 2, a request for help 0.
\<close>

lemma exit_code_of_put:
  assumes "cli_main fuel nets ro vb client (''put'' # key # v # extra) = Some run"
  shows "exit_code run = 0 \<longleftrightarrow> (\<exists>c x. client_Put fuel (put_net_of nets) key v (fst client) = Some (Returns c (x, None)))"
  using assms
  by (auto simp: cli_main_def Let_def show_previous_def printed_def fatal_def elim!: finish_exit_code)

lemma exit_code_of_get:
  assumes "cli_main fuel nets ro vb client (''get'' # key # extra) = Some run"
  shows "exit_code run = 0 \<longleftrightarrow>
    (\<exists>c v r. client_Get fuel (get_net_of nets) key (fst client) = Some (Returns c ((v, True, r), None)))"
  using assms
  by (auto simp: cli_main_def Let_def show_get_def printed_def fatal_def elim!: finish_exit_code split: if_splits)

lemma bad_flags:
  "cli_process fuel nets fetch ro (''-x'' # args) = Some \<lparr>exit_code = 2, stdout = [], stderr = ''''\<rparr>"
  "cli_process fuel nets fetch ro (''-v=maybe'' # args) = Some \<lparr>exit_code = 2, stdout = [], stderr = ''''\<rparr>"
  "cli_process fuel nets fetch ro (''-help'' # args) = Some \<lparr>exit_code = 0, stdout = [], stderr = ''''\<rparr>"
  by (simp_all add: cli_process_def read_word_def split_name_def ParseBool_def)

text \<open>
  The address flag is split at its commas. The two nested index loops end and give the non-empty
  parts between the commas, in order; addresses joined with commas are read back as they are.
\<close>
lemma address_list_is_split:
  "splitAddrs s = filter (\<lambda>w. w \<noteq> []) (cut_commas s) \<and>
   (as \<noteq> [] \<and> list_all (\<lambda>a. a \<noteq> [] \<and> CHR '','' \<notin> set a) as \<longrightarrow> splitAddrs (join_commas as) = as)"
proof -
  have "splitAddrs (join_commas as) = as"
    if "as \<noteq> []" "list_all (\<lambda>a. a \<noteq> [] \<and> CHR '','' \<notin> set a) as"
    using that cut_join [of as] by (simp add: splitAddrs_eq list_all_iff filter_id_conv)
  then show ?thesis
    by (simp add: splitAddrs_eq)
qed

lemma address_list_is_split_witness:
  "splitAddrs ''a:1,,b:2,'' = [''a:1'', ''b:2''] \<and> splitAddrs (join_commas [''a:1'', ''b:2'']) = [''a:1'', ''b:2'']"
  using address_list_is_split [of "''a:1,,b:2,''" "[''a:1'', ''b:2'']"] by simp

text \<open>
  An empty address flag gives a client without addresses, whose first call indexes an empty list.
\<close>

lemma empty_address_flag_panics:
  "client_Get (Suc f) net key (fst (cli_client fetch '''' False)) =
     Some (Panics (next_request (fst (cli_client fetch '''' False))) ''index out of range'')"
  by (simp add: cli_client_def splitAddrs_eq New_client_def client_Get_def call_def)

end
